(* ===== verification/Cfd_Prelude.thy ===== *)
theory Cfd_Prelude
  imports Main "HOL-Library.Word"
begin

text \<open>
  Shared vocabulary of the development: the machine types of the Go program, the
  outcome of a Go call (a value, an error value or a run-time panic), the parts of
  the Go standard library the components use (byte order, slicing, strings), and the
  generic lemmas about them.  Everything here is executable.
\<close>

unbundle bit_operations_syntax

named_theorems codec_simps \<open>round-trip equations of encoders and decoders\<close>
named_theorems inv_intros \<open>operations that keep an invariant\<close>

subsection \<open>Machine types\<close>

type_synonym byte = "8 word"
type_synonym u16 = "16 word"
type_synonym u32 = "32 word"
type_synonym u64 = "64 word"

text \<open>
  A \<^verbatim>\<open>time.Duration\<close> is a signed 64-bit count of nanoseconds.  Where overflow
  matters the arithmetic goes through \<open>to_int64\<close>, the two's complement reading of the
  low 64 bits of an integer.
\<close>

type_synonym duration = int

definition to_int64 :: "int \<Rightarrow> int" where
  "to_int64 n = sint (word_of_int n :: u64)"

definition second_ns :: duration where
  "second_ns = 1000000000"

lemma to_int64_id:
  assumes "- (2 ^ 63) \<le> n" and "n < 2 ^ 63"
  shows "to_int64 n = n"
  using assms by (simp add: to_int64_def sint_sbintrunc' signed_take_bit_int_eq_self)

lemma to_int64_upper: "to_int64 n < 2 ^ 63"
  using sint_lt [of "word_of_int n :: u64"] by (simp add: to_int64_def)

lemma to_int64_lower: "- (2 ^ 63) \<le> to_int64 n"
  using sint_ge [of "word_of_int n :: u64"] by (simp add: to_int64_def)

subsection \<open>Outcomes of a Go call\<close>

datatype ('e, 'a) outcome = Ok 'a | Err 'e | Panic

fun obind :: "('e, 'a) outcome \<Rightarrow> ('a \<Rightarrow> ('e, 'b) outcome) \<Rightarrow> ('e, 'b) outcome" where
  "obind (Ok x) f = f x"
| "obind (Err e) f = Err e"
| "obind Panic f = Panic"

lemma obind_Ok_iff: "obind m f = Ok y \<longleftrightarrow> (\<exists>x. m = Ok x \<and> f x = Ok y)"
  by (cases m) auto

lemma obind_Panic_iff: "obind m f = Panic \<longleftrightarrow> m = Panic \<or> (\<exists>x. m = Ok x \<and> f x = Panic)"
  by (cases m) auto

fun is_ok :: "('e, 'a) outcome \<Rightarrow> bool" where
  "is_ok (Ok x) = True"
| "is_ok (Err e) = False"
| "is_ok Panic = False"

subsection \<open>Slices\<close>

text \<open>
  The expression \<^verbatim>\<open>data[lo:hi]\<close> on a slice whose capacity is its length: Go panics
  when the upper bound is past the capacity or below the lower bound.  An index
  expression \<^verbatim>\<open>data[i]\<close> panics when \<open>i\<close> is not below the length.
\<close>

definition go_slice :: "nat \<Rightarrow> nat \<Rightarrow> 'a list \<Rightarrow> ('e, 'a list) outcome" where
  "go_slice lo hi xs = (if lo \<le> hi \<and> hi \<le> length xs then Ok (take (hi - lo) (drop lo xs)) else Panic)"

definition go_index :: "'a list \<Rightarrow> nat \<Rightarrow> ('e, 'a) outcome" where
  "go_index xs i = (if i < length xs then Ok (xs ! i) else Panic)"

lemma go_slice_append:
  assumes "length xs = lo" and "length ys = hi - lo" and "lo \<le> hi"
  shows "go_slice lo hi (xs @ ys @ zs) = Ok ys"
  using assms by (simp add: go_slice_def)

lemma go_slice_Ok_length: "go_slice lo hi xs = Ok ys \<Longrightarrow> length ys = hi - lo"
  by (auto simp: go_slice_def split: if_splits)

lemma go_slice_not_Err [simp]: "go_slice lo hi xs \<noteq> Err e"
  by (simp add: go_slice_def)

lemma go_index_not_Err [simp]: "go_index xs i \<noteq> Err e"
  by (simp add: go_index_def)

lemma go_slice_Panic_iff: "go_slice lo hi xs = Panic \<longleftrightarrow> \<not> (lo \<le> hi \<and> hi \<le> length xs)"
  by (simp add: go_slice_def)

subsection \<open>Big-endian integers\<close>

fun be_encode :: "nat \<Rightarrow> nat \<Rightarrow> byte list" where
  "be_encode 0 n = []"
| "be_encode (Suc k) n = be_encode k (n div 256) @ [word_of_nat n]"

definition be_decode :: "byte list \<Rightarrow> nat" where
  "be_decode bs = foldl (\<lambda>acc b. 256 * acc + unat b) 0 bs"

lemma length_be_encode [simp]: "length (be_encode k n) = k"
  by (induction k arbitrary: n) auto

lemma be_decode_snoc: "be_decode (bs @ [b]) = 256 * be_decode bs + unat b"
  by (simp add: be_decode_def)

lemma be_decode_Nil [simp]: "be_decode [] = 0"
  by (simp add: be_decode_def)

lemma unat_byte_of_nat: "unat (word_of_nat n :: byte) = n mod 256"
  by (simp add: unat_of_nat)

lemma unat_byte_less: "unat (b :: byte) < 256"
  using unsigned_less [of b, where ?'a = nat] by simp

lemma be_decode_encode: "be_decode (be_encode k n) = n mod 256 ^ k"
proof (induction k arbitrary: n)
  case 0
  then show ?case by simp
next
  case (Suc k)
  have "be_decode (be_encode (Suc k) n) = 256 * (n div 256 mod 256 ^ k) + n mod 256"
    by (simp add: be_decode_snoc Suc unat_byte_of_nat)
  also have "\<dots> = n mod (256 * 256 ^ k)"
    by (simp add: mod_mult2_eq)
  finally show ?case by simp
qed

lemma be_decode_less: "be_decode bs < 256 ^ length bs"
proof (induction bs rule: rev_induct)
  case Nil
  then show ?case by simp
next
  case (snoc b bs)
  have "unat b < 256"
    by (rule unat_byte_less)
  with snoc show ?case
    by (simp add: be_decode_snoc)
qed

lemma be_encode_decode: "be_encode (length bs) (be_decode bs) = bs"
proof (induction bs rule: rev_induct)
  case Nil
  then show ?case by simp
next
  case (snoc b bs)
  have b: "unat b < 256"
    by (rule unat_byte_less)
  have "(256 * be_decode bs + unat b) div 256 = be_decode bs"
    using b by simp
  moreover have "(word_of_nat (256 * be_decode bs + unat b) :: byte) = b"
  proof -
    have "unat (word_of_nat (256 * be_decode bs + unat b) :: byte) = unat b"
      using b by (simp only: unat_byte_of_nat) simp
    then show ?thesis by (simp add: word_unat_eq_iff)
  qed
  ultimately show ?case
    using snoc by (simp add: be_decode_snoc)
qed

definition put_u16 :: "u16 \<Rightarrow> byte list" where
  "put_u16 w = be_encode 2 (unat w)"

definition get_u16 :: "byte list \<Rightarrow> u16" where
  "get_u16 bs = word_of_nat (be_decode bs)"

definition put_u32 :: "u32 \<Rightarrow> byte list" where
  "put_u32 w = be_encode 4 (unat w)"

definition put_u64 :: "u64 \<Rightarrow> byte list" where
  "put_u64 w = be_encode 8 (unat w)"

definition get_u64 :: "byte list \<Rightarrow> u64" where
  "get_u64 bs = word_of_nat (be_decode bs)"

lemma length_put [simp]:
  "length (put_u16 a) = 2" "length (put_u32 b) = 4" "length (put_u64 c) = 8"
  by (simp_all add: put_u16_def put_u32_def put_u64_def)

lemma get_put_u16 [simp, codec_simps]: "get_u16 (put_u16 w) = w"
  using unsigned_less [of w, where ?'a = nat] by (simp add: get_u16_def put_u16_def be_decode_encode)

lemma get_put_u64 [simp, codec_simps]: "get_u64 (put_u64 w) = w"
  using unsigned_less [of w, where ?'a = nat] by (simp add: get_u64_def put_u64_def be_decode_encode)

lemma put_get_u64: "length bs = 8 \<Longrightarrow> put_u64 (get_u64 bs) = bs"
  using be_decode_less [of bs] be_encode_decode [of bs]
  by (simp add: get_u64_def put_u64_def unat_of_nat)

subsection \<open>Strings\<close>

text \<open>
  Go strings are byte strings; a HOL \<^typ>\<open>string\<close> is a list of 8-bit characters.
  \<open>to_lower\<close> is \<^verbatim>\<open>strings.ToLower\<close> on ASCII letters; other bytes are left alone.
\<close>

definition has_prefix :: "string \<Rightarrow> string \<Rightarrow> bool" where
  "has_prefix s p = (take (length p) s = p)"

definition has_suffix :: "string \<Rightarrow> string \<Rightarrow> bool" where
  "has_suffix s p = (length p \<le> length s \<and> drop (length s - length p) s = p)"

definition trim_prefix :: "string \<Rightarrow> string \<Rightarrow> string" where
  "trim_prefix s p = (if has_prefix s p then drop (length p) s else s)"

fun str_contains :: "string \<Rightarrow> string \<Rightarrow> bool" where
  "str_contains [] p = (p = [])"
| "str_contains (c # s) p = (has_prefix (c # s) p \<or> str_contains s p)"

fun split_on :: "char \<Rightarrow> string \<Rightarrow> string list" where
  "split_on sep [] = [[]]"
| "split_on sep (c # s) =
     (if c = sep then [] # split_on sep s
      else (case split_on sep s of [] \<Rightarrow> [[c]] | w # ws \<Rightarrow> (c # w) # ws))"

definition char_lower :: "char \<Rightarrow> char" where
  "char_lower c = (if 65 \<le> (of_char c :: nat) \<and> (of_char c :: nat) \<le> 90 then char_of (of_char c + 32 :: nat) else c)"

definition to_lower :: "string \<Rightarrow> string" where
  "to_lower s = map char_lower s"

definition is_space :: "char \<Rightarrow> bool" where
  "is_space c = (c = CHR '' '' \<or> (9 \<le> (of_char c :: nat) \<and> (of_char c :: nat) \<le> 13))"

definition trim_space :: "string \<Rightarrow> string" where
  "trim_space s = rev (dropWhile is_space (rev (dropWhile is_space s)))"

fun index_byte :: "char \<Rightarrow> string \<Rightarrow> nat option" where
  "index_byte c [] = None"
| "index_byte c (d # s) = (if d = c then Some 0 else map_option Suc (index_byte c s))"

fun last_index_byte :: "char \<Rightarrow> string \<Rightarrow> nat option" where
  "last_index_byte c [] = None"
| "last_index_byte c (d # s) =
     (case last_index_byte c s of
        Some i \<Rightarrow> Some (Suc i)
      | None \<Rightarrow> if d = c then Some 0 else None)"

lemma has_prefix_append [simp]: "has_prefix (p @ s) p"
  by (simp add: has_prefix_def)

lemma has_prefix_iff: "has_prefix s p \<longleftrightarrow> (\<exists>r. s = p @ r)"
  by (metis has_prefix_def append_take_drop_id append_eq_conv_conj)

lemma has_suffix_iff: "has_suffix s p \<longleftrightarrow> (\<exists>r. s = r @ p)"
proof
  assume "has_suffix s p"
  then show "\<exists>r. s = r @ p"
    by (metis has_suffix_def append_take_drop_id)
next
  assume "\<exists>r. s = r @ p"
  then show "has_suffix s p"
    by (auto simp: has_suffix_def)
qed

lemma trim_prefix_append [simp]: "trim_prefix (p @ s) p = s"
  by (simp add: trim_prefix_def)

lemma index_byte_None_iff: "index_byte c s = None \<longleftrightarrow> c \<notin> set s"
  by (induction s) auto

lemma index_byte_Some: "index_byte c s = Some i \<Longrightarrow> i < length s \<and> s ! i = c"
  by (induction s arbitrary: i) (auto split: if_splits)

lemma last_index_byte_None_iff: "last_index_byte c s = None \<longleftrightarrow> c \<notin> set s"
  by (induction s) (auto split: option.splits)

lemma last_index_byte_Some:
  "last_index_byte c s = Some i \<Longrightarrow> i < length s \<and> s ! i = c \<and> c \<notin> set (drop (Suc i) s)"
proof (induction s arbitrary: i)
  case (Cons d s)
  then show ?case
    by (cases "last_index_byte c s")
       (auto simp: last_index_byte_None_iff split: if_splits)
qed simp

subsection \<open>Decimal numerals\<close>

fun digits_rev :: "nat \<Rightarrow> string" where
  "digits_rev n = (if n < 10 then [char_of (48 + n)] else char_of (48 + n mod 10) # digits_rev (n div 10))"

declare digits_rev.simps [simp del]

definition nat_to_string :: "nat \<Rightarrow> string" where
  "nat_to_string n = rev (digits_rev n)"

definition int_to_string :: "int \<Rightarrow> string" where
  "int_to_string n = (if n < 0 then CHR ''-'' # nat_to_string (nat (- n)) else nat_to_string (nat n))"

definition is_digit :: "char \<Rightarrow> bool" where
  "is_digit c = (48 \<le> (of_char c :: nat) \<and> (of_char c :: nat) \<le> 57)"

definition digit_val :: "char \<Rightarrow> nat" where
  "digit_val c = of_char c - 48"

definition digits_val :: "string \<Rightarrow> nat" where
  "digits_val s = foldl (\<lambda>acc c. 10 * acc + digit_val c) 0 s"

text \<open>
  \<^verbatim>\<open>strconv.Atoi\<close> on a 64-bit platform: an optional sign, then one or more digits,
  in the range of an \<^verbatim>\<open>int\<close>; and \<^verbatim>\<open>strconv.ParseUint(s, 10, 64)\<close>.
\<close>

definition atoi :: "string \<Rightarrow> int option" where
  "atoi s =
     (let neg = has_prefix s ''-'';
          ds = (if neg \<or> has_prefix s ''+'' then tl s else s);
          v = int (digits_val ds)
      in if ds = [] \<or> \<not> list_all is_digit ds then None
         else if neg then (if v \<le> 2 ^ 63 then Some (- v) else None)
         else (if v < 2 ^ 63 then Some v else None))"

definition parse_uint64 :: "string \<Rightarrow> u64 option" where
  "parse_uint64 s =
     (if s = [] \<or> \<not> list_all is_digit s \<or> 2 ^ 64 \<le> digits_val s then None
      else Some (word_of_nat (digits_val s)))"

lemma digits_val_snoc: "digits_val (s @ [c]) = 10 * digits_val s + digit_val c"
  by (simp add: digits_val_def)

lemma digit_val_char_of: "n < 10 \<Longrightarrow> digit_val (char_of (48 + n)) = n"
  by (simp add: digit_val_def)

lemma is_digit_char_of: "n < 10 \<Longrightarrow> is_digit (char_of (48 + n :: nat))"
  by (simp add: is_digit_def)

lemma nat_to_string_rec:
  "nat_to_string n = (if n < 10 then [char_of (48 + n)] else nat_to_string (n div 10) @ [char_of (48 + n mod 10)])"
  unfolding nat_to_string_def by (subst digits_rev.simps) simp

lemma nat_to_string_digits: "list_all is_digit (nat_to_string n)"
proof (induction n rule: less_induct)
  case (less n)
  show ?case
    by (subst nat_to_string_rec) (use less in \<open>auto simp: is_digit_char_of\<close>)
qed

lemma nat_to_string_not_Nil: "nat_to_string n \<noteq> []"
  by (subst nat_to_string_rec) simp

lemma digits_val_nat_to_string: "digits_val (nat_to_string n) = n"
proof (induction n rule: less_induct)
  case (less n)
  show ?case
  proof (cases "n < 10")
    case True
    then show ?thesis
      by (subst nat_to_string_rec) (simp add: digits_val_def digit_val_char_of)
  next
    case False
    then have "digits_val (nat_to_string (n div 10)) = n div 10"
      using less by simp
    with False show ?thesis
      by (subst nat_to_string_rec) (simp add: digits_val_snoc digit_val_char_of)
  qed
qed

lemma not_is_digit_sign: "\<not> is_digit CHR ''-''" "\<not> is_digit CHR ''+''" "\<not> is_digit CHR '':''"
  by (simp_all add: is_digit_def)

subsection \<open>IP addresses\<close>

text \<open>
  \<^verbatim>\<open>netip.Addr\<close>: the zero address, four bytes, or sixteen bytes with an IPv6 zone.
  \<open>AsSlice\<close> forgets the zone and is empty for the zero address.
\<close>

datatype netip_addr = ZeroAddr | Addr4 "byte list" | Addr6 "byte list" string

fun Is6 :: "netip_addr \<Rightarrow> bool" where
  "Is6 (Addr6 bs z) = True"
| "Is6 _ = False"

fun AsSlice :: "netip_addr \<Rightarrow> byte list" where
  "AsSlice ZeroAddr = []"
| "AsSlice (Addr4 bs) = bs"
| "AsSlice (Addr6 bs z) = bs"

fun addr_wf :: "netip_addr \<Rightarrow> bool" where
  "addr_wf ZeroAddr = True"
| "addr_wf (Addr4 bs) = (length bs = 4)"
| "addr_wf (Addr6 bs z) = (length bs = 16)"

text \<open>\<^verbatim>\<open>netip.AddrFromSlice\<close>, and \<^verbatim>\<open>As16\<close>, which maps an IPv4 address into IPv6 and panics on
  the zero address.\<close>

definition AddrFromSlice :: "byte list \<Rightarrow> netip_addr option" where
  "AddrFromSlice bs =
     (if length bs = 4 then Some (Addr4 bs) else if length bs = 16 then Some (Addr6 bs []) else None)"

fun Is4 :: "netip_addr \<Rightarrow> bool" where
  "Is4 (Addr4 bs) = True"
| "Is4 _ = False"

fun As16 :: "netip_addr \<Rightarrow> ('e, byte list) outcome" where
  "As16 ZeroAddr = Panic"
| "As16 (Addr4 bs) = Ok (replicate 10 0 @ [255, 255] @ bs)"
| "As16 (Addr6 bs z) = Ok bs"

lemma AddrFromSlice_wf: "AddrFromSlice bs = Some a \<Longrightarrow> addr_wf a \<and> AsSlice a = bs"
  by (auto simp: AddrFromSlice_def split: if_splits)

record addr_port =
  ap_addr :: netip_addr
  ap_port :: u16

subsection \<open>Codecs\<close>

text \<open>
  The contract of a wire format: on the messages in its domain the encoder succeeds and the
  decoder gives the message back.  A tagged codec also fixes the first byte of its messages.
\<close>

locale codec =
  fixes enc :: "'a \<Rightarrow> ('e, byte list) outcome"
    and dec :: "byte list \<Rightarrow> ('f, 'a) outcome"
    and dom :: "'a \<Rightarrow> bool"
  assumes round_trip: "dom x \<Longrightarrow> \<exists>bs. enc x = Ok bs \<and> dec bs = Ok x"
begin

lemma dec_enc: "\<lbrakk>dom x; enc x = Ok bs\<rbrakk> \<Longrightarrow> dec bs = Ok x"
  using round_trip by fastforce

lemma enc_inject: "\<lbrakk>dom x; dom y; enc x = enc y\<rbrakk> \<Longrightarrow> x = y"
  using round_trip by (metis outcome.inject(1))

end

locale tagged_codec = codec +
  fixes tag :: byte
  assumes dec_tag: "dec bs = Ok x \<Longrightarrow> bs \<noteq> [] \<and> hd bs = tag"
begin

lemma enc_tag: "\<lbrakk>dom x; enc x = Ok bs\<rbrakk> \<Longrightarrow> bs \<noteq> [] \<and> hd bs = tag"
  using dec_enc dec_tag by blast

end

end
