(* ===== verification/Tunnel_API.thy ===== *)
theory Tunnel_API
  imports Cfd_Prelude "HOL-Library.Multiset"
begin

text \<open>
  \<^verbatim>\<open>cmd/cloudflared/main.go\<close> and \<^verbatim>\<open>cmd/cloudflared/worker.go\<close>: the HTTP service that starts one
  worker process per quick tunnel, and the worker's command line.  The request handlers and the
  goroutine that waits for a worker process interleave at the critical sections of the source; a
  step of \<open>api_step\<close> is one such section.  A parsed JSON body is an argument (\<open>None\<close> when it does
  not parse; the texts of library errors and of durations are left out of messages); clocks, process identifiers and random identifiers are arguments of the steps.
\<close>

subsection \<open>Configuration\<close>

record appConfig =
  ListenAddr :: string
  QuickService :: string
  EdgeIPVersion :: string
  Protocol :: string
  MaxTunnels :: int
  TunnelTimeout :: duration
  LogLevel :: string
  AllowedOrigins :: string

text \<open>\<open>ev\<close> is \<^verbatim>\<open>os.Getenv\<close>, the empty string for an unset variable, and \<open>parse_dur\<close> is
  \<^verbatim>\<open>time.ParseDuration\<close>.\<close>

definition env :: "(string \<Rightarrow> string) \<Rightarrow> string \<Rightarrow> string \<Rightarrow> string" where
  "env ev key d = (if ev key \<noteq> [] then ev key else d)"

definition envInt :: "(string \<Rightarrow> string) \<Rightarrow> string \<Rightarrow> int \<Rightarrow> int" where
  "envInt ev key d = (if ev key \<noteq> [] then (case atoi (ev key) of Some n \<Rightarrow> n | None \<Rightarrow> d) else d)"

definition envDur ::
    "(string \<Rightarrow> duration option) \<Rightarrow> (string \<Rightarrow> string) \<Rightarrow> string \<Rightarrow> duration \<Rightarrow> duration" where
  "envDur parse_dur ev key d =
     (if ev key \<noteq> [] then (case parse_dur (ev key) of Some n \<Rightarrow> n | None \<Rightarrow> d) else d)"

definition loadConfig :: "(string \<Rightarrow> duration option) \<Rightarrow> (string \<Rightarrow> string) \<Rightarrow> appConfig" where
  "loadConfig parse_dur ev =
     \<lparr>ListenAddr = env ev ''LISTEN_ADDR'' '':8787'',
      QuickService = env ev ''QUICK_SERVICE_URL'' ''https://api.trycloudflare.com'',
      EdgeIPVersion = env ev ''EDGE_IP_VERSION'' ''4'',
      Protocol = env ev ''PROTOCOL'' ''quic'',
      MaxTunnels = envInt ev ''MAX_TUNNELS'' 100,
      TunnelTimeout = envDur parse_dur ev ''TUNNEL_TIMEOUT'' (30 * second_ns),
      LogLevel = env ev ''LOG_LEVEL'' ''info'',
      AllowedOrigins = env ev ''ALLOWED_ORIGINS'' ''*''\<rparr>"

subsection \<open>Requests\<close>

record quickTunnelRequest =
  rq_Host :: string
  rq_Port :: int
  rq_Protocol :: string
  rq_Proxy :: string

definition quoted :: "string \<Rightarrow> string" where
  "quoted s = CHR 0x27 # s @ [CHR 0x27]"

definition validate :: "quickTunnelRequest \<Rightarrow> string option" where
  "validate r =
     (if rq_Host r = [] then Some ''host is required''
      else if rq_Port r \<le> 0 \<or> rq_Port r > 65535 then Some ''port must be between 1 and 65535''
      else let p = to_lower (rq_Protocol r) in
        if p \<noteq> [] \<and> p \<noteq> ''quic'' \<and> p \<noteq> ''http2'' then Some (''protocol must be '' @ quoted ''quic'' @ '' or '' @ quoted ''http2'')
        else if rq_Proxy r \<noteq> []
          \<and> \<not> has_prefix (rq_Proxy r) ''http://'' \<and> \<not> has_prefix (rq_Proxy r) ''https://''
          \<and> \<not> has_prefix (rq_Proxy r) ''socks5://'' \<and> \<not> has_prefix (rq_Proxy r) ''socks5h://''
        then Some ''proxy must start with http://, https://, socks5://, or socks5h://''
        else None)"

text \<open>The protocol a started worker gets.\<close>

definition start_protocol :: "appConfig \<Rightarrow> quickTunnelRequest \<Rightarrow> string" where
  "start_protocol cfg r =
     (let p = to_lower (rq_Protocol r);
          p = (if p = [] then Protocol cfg else p)
      in if rq_Proxy r \<noteq> [] \<and> p = ''quic'' then ''http2'' else p)"

definition start_target :: "quickTunnelRequest \<Rightarrow> string" where
  "start_target r = rq_Host r @ '':'' @ int_to_string (rq_Port r)"

text \<open>\<open>split_host_port\<close> is \<^verbatim>\<open>net.SplitHostPort\<close>.\<close>

definition cbListenPort :: "(string \<Rightarrow> (string \<times> string) option) \<Rightarrow> string \<Rightarrow> string" where
  "cbListenPort split_host_port addr =
     (case split_host_port addr of None \<Rightarrow> '':8787'' | Some (h, p) \<Rightarrow> '':'' @ p)"

definition worker_command ::
    "(string \<Rightarrow> (string \<times> string) option) \<Rightarrow> appConfig \<Rightarrow> string \<Rightarrow> quickTunnelRequest \<Rightarrow> string list" where
  "worker_command shp cfg i r =
     [''--worker'', ''--id'', i, ''--target'', start_target r, ''--protocol'', start_protocol cfg r,
      ''--callback'', ''http://127.0.0.1'' @ cbListenPort shp (ListenAddr cfg) @ ''/internal/quick-url'',
      ''--rpc-timeout'', ''30s'']"

definition worker_env :: "string \<Rightarrow> quickTunnelRequest \<Rightarrow> string list" where
  "worker_env i r =
     [''QUICK_REQUEST_ID='' @ i]
     @ (if rq_Proxy r \<noteq> []
        then [''ALL_PROXY='' @ rq_Proxy r, ''NO_PROXY=127.0.0.1,localhost,::1'']
             @ (if \<not> has_prefix (rq_Proxy r) ''socks5''
                then [''HTTP_PROXY='' @ rq_Proxy r, ''HTTPS_PROXY='' @ rq_Proxy r] else [])
        else [])"

subsection \<open>The worker's command line\<close>

definition isWorkerMode :: "string list \<Rightarrow> bool" where
  "isWorkerMode args = list_ex (\<lambda>a. a = ''--worker'') (drop 1 args)"

fun arg_scan :: "string \<Rightarrow> string list \<Rightarrow> string" where
  "arg_scan flag (a # v # rest) = (if a = flag then v else arg_scan flag (v # rest))"
| "arg_scan flag _ = []"

definition arg :: "string list \<Rightarrow> string \<Rightarrow> string" where
  "arg args flag = arg_scan flag (drop 1 args)"

definition argOrEnv :: "string list \<Rightarrow> (string \<Rightarrow> string) \<Rightarrow> string \<Rightarrow> string \<Rightarrow> string" where
  "argOrEnv args ev flag key = (if arg args flag \<noteq> [] then arg args flag else ev key)"

record worker_params =
  wp_id :: string
  wp_target :: string
  wp_protocol :: string
  wp_callback :: string
  wp_edgeIPVersion :: string
  wp_quickService :: string

definition or_default :: "string \<Rightarrow> string \<Rightarrow> string" where
  "or_default s d = (if s = [] then d else s)"

definition worker_parameters :: "string list \<Rightarrow> (string \<Rightarrow> string) \<Rightarrow> worker_params" where
  "worker_parameters args ev =
     \<lparr>wp_id = or_default (argOrEnv args ev ''--id'' ''QUICK_REQUEST_ID'') ''unknown'',
      wp_target = or_default (argOrEnv args ev ''--target'' ''TUNNEL_TARGET'') ''127.0.0.1:8080'',
      wp_protocol = or_default (argOrEnv args ev ''--protocol'' ''TUNNEL_PROTOCOL'') ''quic'',
      wp_callback = argOrEnv args ev ''--callback'' ''TUNNEL_CALLBACK'',
      wp_edgeIPVersion = or_default (argOrEnv args ev ''--edge-ip-version'' ''EDGE_IP_VERSION'') ''4'',
      wp_quickService =
        or_default (argOrEnv args ev ''--quick-service'' ''QUICK_SERVICE_URL'') ''https://api.trycloudflare.com''\<rparr>"

definition worker_cli_args :: "worker_params \<Rightarrow> string list" where
  "worker_cli_args p =
     [''cloudflared'', ''tunnel'', ''--url'', wp_target p, ''--metrics'', ''127.0.0.1:0'',
      ''--protocol'', wp_protocol p, ''--edge-ip-version'', wp_edgeIPVersion p,
      ''--quick-service'', wp_quickService p, ''--no-autoupdate'']"

subsection \<open>CORS and routing\<close>

definition cors_origin :: "string \<Rightarrow> string \<Rightarrow> string option" where
  "cors_origin origins origin =
     (if origins = ''*'' then Some ''*''
      else if origins \<noteq> [] \<and> list_ex (\<lambda>x. trim_space x = origin) (split_on CHR '','' origins)
      then Some origin else None)"

datatype route =
    RHealth | RRoot | RStart | RStop | RList | RCallback | RNotFound

definition route_of :: "string \<Rightarrow> route" where
  "route_of path =
     (if path = ''/health'' then RHealth
      else if path = ''/'' then RRoot
      else if path = ''/tunnel/quick'' then RStart
      else if path = ''/tunnel/stop'' then RStop
      else if path = ''/tunnel/list'' then RList
      else if path = ''/internal/quick-url'' then RCallback
      else RNotFound)"

subsection \<open>Tunnels\<close>

datatype tunnelStatus =
    statusStarting | statusStarted | statusStopped | statusError | statusNotFound
  | statusTimeout | statusLimitReach

datatype proc_state = ProcNone | ProcAlive | ProcExited

text \<open>\<open>th_proc\<close> is the worker process and \<open>th_done\<close> whether the channel \<^verbatim>\<open>done\<close> is closed.\<close>

record tunnelHandle =
  th_id :: string
  th_target :: string
  th_proxy :: string
  th_protocol :: string
  th_status :: tunnelStatus
  th_url :: string
  th_err :: "string option"
  th_pid :: nat
  th_startedAt :: int
  th_proc :: proc_state
  th_done :: bool

record tunnelSnapshot =
  sn_ID :: string
  sn_URL :: string
  sn_Target :: string
  sn_Protocol :: string
  sn_Proxy :: string
  sn_Status :: tunnelStatus
  sn_Error :: string
  sn_PID :: nat
  sn_StartedAt :: int

definition snapshot :: "tunnelHandle \<Rightarrow> tunnelSnapshot" where
  "snapshot h =
     \<lparr>sn_ID = th_id h, sn_URL = th_url h, sn_Target = th_target h, sn_Protocol = th_protocol h,
      sn_Proxy = th_proxy h, sn_Status = th_status h,
      sn_Error = (case th_err h of None \<Rightarrow> [] | Some e \<Rightarrow> e),
      sn_PID = th_pid h, sn_StartedAt = th_startedAt h\<rparr>"

text \<open>
  The shared state: the heap of handles (by their identifier), the map \<^verbatim>\<open>running\<close> as the set of
  its keys, the channels of the URL hub, and where each handler in flight is: past the limit check,
  registered with the hub but not yet inserted, waiting for the worker, or waiting in the stop handler.
\<close>

record api_state =
  st_handles :: "string \<Rightarrow> tunnelHandle option"
  st_running :: "string list"
  st_hub :: "string \<Rightarrow> string list option"
  st_checked :: "quickTunnelRequest list"
  st_registered :: "(string \<times> quickTunnelRequest) list"
  st_waiting :: "string list"
  st_stopping :: "(string \<times> tunnelSnapshot) list"

definition api_init :: api_state where
  "api_init = \<lparr>st_handles = (\<lambda>_. None), st_running = [], st_hub = (\<lambda>_. None), st_checked = [],
     st_registered = [], st_waiting = [], st_stopping = []\<rparr>"

datatype api_response =
    RespError nat string
  | RespSnapshot nat tunnelSnapshot
  | RespNoContent

subsection \<open>The URL hub\<close>

definition hub_register :: "string \<Rightarrow> (string \<Rightarrow> string list option) \<Rightarrow> string \<Rightarrow> string list option" where
  "hub_register i hub = hub(i := Some [])"

definition hub_unregister :: "string \<Rightarrow> (string \<Rightarrow> string list option) \<Rightarrow> string \<Rightarrow> string list option" where
  "hub_unregister i hub = hub(i := None)"

text \<open>A push into a full channel (capacity one) or to an unknown identifier is dropped.\<close>

definition hub_push ::
    "string \<Rightarrow> string \<Rightarrow> (string \<Rightarrow> string list option) \<Rightarrow> string \<Rightarrow> string list option" where
  "hub_push i url hub =
     (case hub i of Some [] \<Rightarrow> hub(i := Some [url]) | _ \<Rightarrow> hub)"

subsection \<open>The start handler\<close>

text \<open>Up to the limit check: the parsed body, or an answer.\<close>

definition start_check ::
    "appConfig \<Rightarrow> bool \<Rightarrow> quickTunnelRequest option \<Rightarrow> api_state \<Rightarrow> api_response option \<times> api_state" where
  "start_check cfg post body s =
     (if \<not> post then (Some (RespError 405 ''method not allowed''), s)
      else case body of
        None \<Rightarrow> (Some (RespError 400 ''invalid JSON''), s)
      | Some r \<Rightarrow>
          (case validate r of
             Some e \<Rightarrow> (Some (RespError 400 e), s)
           | None \<Rightarrow>
               if int (length (st_running s)) \<ge> MaxTunnels cfg
               then (Some (RespError 503
                       (''max tunnels reached ('' @ int_to_string (MaxTunnels cfg) @ '')'')), s)
               else (None, s\<lparr>st_checked := r # st_checked s\<rparr>)))"

definition new_handle :: "appConfig \<Rightarrow> string \<Rightarrow> int \<Rightarrow> quickTunnelRequest \<Rightarrow> tunnelHandle" where
  "new_handle cfg i now r =
     \<lparr>th_id = i, th_target = start_target r, th_proxy = rq_Proxy r,
      th_protocol = start_protocol cfg r, th_status = statusStarting, th_url = [], th_err = None,
      th_pid = 0, th_startedAt = now, th_proc = ProcNone, th_done = False\<rparr>"

definition set_handle :: "string \<Rightarrow> (tunnelHandle \<Rightarrow> tunnelHandle) \<Rightarrow> api_state \<Rightarrow> api_state" where
  "set_handle i f s = s\<lparr>st_handles := (st_handles s)(i := map_option f (st_handles s i))\<rparr>"

definition delete_running :: "string \<Rightarrow> api_state \<Rightarrow> api_state" where
  "delete_running i s = s\<lparr>st_running := removeAll i (st_running s)\<rparr>"

text \<open>A fresh random identifier gets its channel of the hub, which the handler gives back however it ends.\<close>

definition start_register :: "string \<Rightarrow> quickTunnelRequest \<Rightarrow> api_state \<Rightarrow> api_state" where
  "start_register i r s =
     s\<lparr>st_checked := remove1 r (st_checked s), st_registered := (i, r) # st_registered s,
       st_hub := hub_register i (st_hub s)\<rparr>"

text \<open>\<^verbatim>\<open>os.Executable\<close> fails.\<close>

definition start_no_exe :: "string \<Rightarrow> quickTunnelRequest \<Rightarrow> api_state \<Rightarrow> api_response \<times> api_state" where
  "start_no_exe i r s =
     (RespError 500 ''cannot determine executable path'',
      s\<lparr>st_registered := remove1 (i, r) (st_registered s), st_hub := hub_unregister i (st_hub s)\<rparr>)"

text \<open>The handle is built and inserted into \<^verbatim>\<open>running\<close>.\<close>

definition start_insert ::
    "appConfig \<Rightarrow> string \<Rightarrow> int \<Rightarrow> quickTunnelRequest \<Rightarrow> api_state \<Rightarrow> api_state" where
  "start_insert cfg i now r s =
     s\<lparr>st_registered := remove1 (i, r) (st_registered s),
       st_handles := (st_handles s)(i := Some (new_handle cfg i now r)),
       st_running := i # removeAll i (st_running s)\<rparr>"

text \<open>\<^verbatim>\<open>cmd.Start\<close> fails, or gives a process; the deferred hub clean-up runs when the handler ends.\<close>

definition start_exec :: "string \<Rightarrow> string + nat \<Rightarrow> api_state \<Rightarrow> api_response option \<times> api_state" where
  "start_exec i res s =
     (case res of
        Inl e \<Rightarrow> (Some (RespError 500 (''failed to start tunnel: '' @ e)),
                 (delete_running i s)\<lparr>st_hub := hub_unregister i (st_hub s)\<rparr>)
      | Inr pid \<Rightarrow> (None, (set_handle i (\<lambda>h. h\<lparr>th_pid := pid, th_proc := ProcAlive\<rparr>) s)
                           \<lparr>st_waiting := i # st_waiting s\<rparr>))"

text \<open>The goroutine that waits for the process: \<open>res\<close> is the error of \<^verbatim>\<open>cmd.Wait\<close>.\<close>

definition proc_wait :: "string option \<Rightarrow> tunnelHandle \<Rightarrow> tunnelHandle" where
  "proc_wait res h =
     (case res of
        Some e \<Rightarrow> h\<lparr>th_err := Some e,
                    th_status := (if th_status h \<noteq> statusTimeout \<and> th_status h \<noteq> statusStopped
                                  then statusError else th_status h),
                    th_proc := ProcExited, th_done := True\<rparr>
      | None \<Rightarrow> h\<lparr>th_status := statusStopped, th_proc := ProcExited, th_done := True\<rparr>)"

text \<open>The handler ends: it no longer waits and its hub channel is unregistered.\<close>

definition end_start :: "string \<Rightarrow> api_state \<Rightarrow> api_state" where
  "end_start i s = s\<lparr>st_waiting := remove1 i (st_waiting s), st_hub := hub_unregister i (st_hub s)\<rparr>"

text \<open>The three branches of the handler's \<^verbatim>\<open>select\<close>.\<close>

definition wait_url :: "string \<Rightarrow> string \<Rightarrow> api_state \<Rightarrow> api_response option \<times> api_state" where
  "wait_url i url s =
     (let s1 = set_handle i (\<lambda>h. h\<lparr>th_url := url, th_status := statusStarted\<rparr>) s
      in (map_option (\<lambda>h. RespSnapshot 200
            ((snapshot h)\<lparr>sn_Status := statusStarted, sn_URL := url, sn_Error := []\<rparr>)) (st_handles s1 i),
          end_start i s1))"

definition wait_done :: "string \<Rightarrow> api_state \<Rightarrow> api_response option \<times> api_state" where
  "wait_done i s =
     (map_option (\<lambda>h. let snap = snapshot h in
          if sn_Error snap = [] then RespSnapshot 200 (snap\<lparr>sn_Status := statusStopped\<rparr>)
          else RespSnapshot 500 snap) (st_handles s i),
      end_start i (delete_running i s))"

definition wait_timeout :: "string \<Rightarrow> api_state \<Rightarrow> api_response option \<times> api_state" where
  "wait_timeout i s =
     (Some (RespError 504 ''timed out waiting for quick tunnel URL''),
      end_start i (delete_running i (set_handle i (\<lambda>h. h\<lparr>th_status := statusTimeout\<rparr>) s)))"

subsection \<open>The stop, callback and list handlers\<close>

definition stop_begin :: "bool \<Rightarrow> string option \<Rightarrow> api_state \<Rightarrow> api_response option \<times> api_state" where
  "stop_begin post body s =
     (if \<not> post then (Some (RespError 405 ''method not allowed''), s)
      else case body of
        None \<Rightarrow> (Some (RespError 400 ''invalid JSON''), s)
      | Some i \<Rightarrow>
          if i = [] then (Some (RespError 400 (''missing '' @ quoted ''id'' @ '' field'')), s)
          else if i \<notin> set (st_running s) then (Some (RespError 404 (''tunnel '' @ i @ '' not found'')), s)
          else (case st_handles s i of
                  None \<Rightarrow> (Some (RespError 404 (''tunnel '' @ i @ '' not found'')), s)
                | Some h \<Rightarrow>
                    (None, (set_handle i (\<lambda>h. h\<lparr>th_status := statusStopped\<rparr>) s)
                             \<lparr>st_stopping := (i, snapshot h) # st_stopping s\<rparr>)))"

text \<open>After the process is done, or five seconds later.\<close>

definition stop_end :: "string \<Rightarrow> tunnelSnapshot \<Rightarrow> api_state \<Rightarrow> api_response \<times> api_state" where
  "stop_end i snap s =
     (RespSnapshot 200 (snap\<lparr>sn_Status := statusStopped\<rparr>),
      (delete_running i s)\<lparr>st_stopping := remove1 (i, snap) (st_stopping s)\<rparr>)"

record workerCallback =
  cb_ID :: string
  cb_URL :: string
  cb_Status :: string
  cb_Error :: string

definition callback_handle :: "workerCallback \<Rightarrow> tunnelHandle \<Rightarrow> tunnelHandle" where
  "callback_handle cb h =
     (let h1 = (if cb_Status cb = ''error'' \<and> cb_Error cb \<noteq> []
                then h\<lparr>th_err := Some (cb_Error cb), th_status := statusError\<rparr> else h)
      in if cb_URL cb \<noteq> [] then h1\<lparr>th_url := cb_URL cb\<rparr> else h1)"

definition handleWorkerCallback ::
    "bool \<Rightarrow> workerCallback option \<Rightarrow> api_state \<Rightarrow> api_response \<times> api_state" where
  "handleWorkerCallback post body s =
     (if \<not> post then (RespError 405 ''method not allowed'', s)
      else case body of
        None \<Rightarrow> (RespError 400 ''invalid JSON'', s)
      | Some cb \<Rightarrow>
          if cb_ID cb = [] then (RespError 400 (''missing '' @ quoted ''id'' @ '' field''), s)
          else if cb_ID cb \<in> set (st_running s) then
            (RespNoContent,
             (set_handle (cb_ID cb) (callback_handle cb) s)
               \<lparr>st_hub := (if cb_URL cb \<noteq> [] then hub_push (cb_ID cb) (cb_URL cb) (st_hub s)
                          else st_hub s)\<rparr>)
          else (RespNoContent, s))"

text \<open>The list is sorted by start time; \<^verbatim>\<open>sort.Slice\<close> leaves the order of equal times open, here it
  is that of the map iteration \<open>st_running\<close>.\<close>

definition handleListTunnels :: "api_state \<Rightarrow> tunnelSnapshot list" where
  "handleListTunnels s =
     sort_key sn_StartedAt (map snapshot (List.map_filter (st_handles s) (st_running s)))"

text \<open>The shutdown sequence marks every running tunnel as stopped.\<close>

definition shutdown_mark :: "api_state \<Rightarrow> api_state" where
  "shutdown_mark s = foldl (\<lambda>s i. set_handle i (\<lambda>h. h\<lparr>th_status := statusStopped\<rparr>) s) s (st_running s)"

subsection \<open>Steps and reachable states\<close>

inductive api_step :: "appConfig \<Rightarrow> api_state \<Rightarrow> api_state \<Rightarrow> bool" for cfg where
  check: "start_check cfg post body s = (resp, s') \<Longrightarrow> api_step cfg s s'"
| register: "\<lbrakk>r \<in> set (st_checked s); st_handles s i = None; st_hub s i = None; i \<noteq> []\<rbrakk>
    \<Longrightarrow> api_step cfg s (start_register i r s)"
| no_exe: "\<lbrakk>(i, r) \<in> set (st_registered s); start_no_exe i r s = (resp', s')\<rbrakk> \<Longrightarrow> api_step cfg s s'"
| insert: "(i, r) \<in> set (st_registered s) \<Longrightarrow> api_step cfg s (start_insert cfg i now r s)"
| exec: "\<lbrakk>st_handles s i = Some h; st_hub s i \<noteq> None; th_proc h = ProcNone; start_exec i res s = (resp, s')\<rbrakk>
    \<Longrightarrow> api_step cfg s s'"
| exit: "\<lbrakk>st_handles s i = Some h; th_proc h = ProcAlive\<rbrakk>
    \<Longrightarrow> api_step cfg s (set_handle i (proc_wait res) s)"
| url: "\<lbrakk>i \<in> set (st_waiting s); st_hub s i = Some [url]; wait_url i url s = (resp, s')\<rbrakk>
    \<Longrightarrow> api_step cfg s s'"
| done_: "\<lbrakk>i \<in> set (st_waiting s); st_handles s i = Some h; th_done h; wait_done i s = (resp, s')\<rbrakk>
    \<Longrightarrow> api_step cfg s s'"
| timeout: "\<lbrakk>i \<in> set (st_waiting s); wait_timeout i s = (resp, s')\<rbrakk> \<Longrightarrow> api_step cfg s s'"
| stop_begin: "stop_begin post body' s = (resp, s') \<Longrightarrow> api_step cfg s s'"
| stop_end: "\<lbrakk>(i, snap) \<in> set (st_stopping s); stop_end i snap s = (resp', s')\<rbrakk> \<Longrightarrow> api_step cfg s s'"
| callback: "handleWorkerCallback post cb s = (resp', s') \<Longrightarrow> api_step cfg s s'"
| shutdown: "api_step cfg s (shutdown_mark s)"

text \<open>What every handle in the heap satisfies, and the invariant of the service.\<close>

definition handle_ok :: "string \<Rightarrow> tunnelHandle \<Rightarrow> bool" where
  "handle_ok i h =
     (th_id h = i \<and> (th_done h \<longleftrightarrow> th_proc h = ProcExited)
      \<and> (th_proxy h \<noteq> [] \<longrightarrow> th_protocol h \<noteq> ''quic''))"

definition handles_ok :: "api_state \<Rightarrow> bool" where
  "handles_ok s = (\<forall>i h. st_handles s i = Some h \<longrightarrow> handle_ok i h)"

definition waiting_ok :: "api_state \<Rightarrow> bool" where
  "waiting_ok s =
     (distinct (st_waiting s)
      \<and> (\<forall>i \<in> set (st_waiting s). st_hub s i \<noteq> None
           \<and> (\<exists>h. st_handles s i = Some h \<and> th_proc h \<noteq> ProcNone)))"

definition hub_ok :: "api_state \<Rightarrow> bool" where
  "hub_ok s =
     (\<forall>i q. st_hub s i = Some q \<longrightarrow> length q \<le> 1
        \<and> ((\<exists>r. (i, r) \<in> set (st_registered s))
           \<or> (\<exists>h. st_handles s i = Some h \<and> (i \<in> set (st_waiting s) \<or> th_proc h = ProcNone))))"

definition registered_ok :: "api_state \<Rightarrow> bool" where
  "registered_ok s =
     (distinct (map fst (st_registered s))
      \<and> (\<forall>i r. (i, r) \<in> set (st_registered s) \<longrightarrow> st_handles s i = None \<and> st_hub s i \<noteq> None))"

definition running_ok :: "api_state \<Rightarrow> bool" where
  "running_ok s = (distinct (st_running s) \<and> set (st_running s) \<subseteq> dom (st_handles s))"

definition api_inv :: "api_state \<Rightarrow> bool" where
  "api_inv s = (handles_ok s \<and> waiting_ok s \<and> hub_ok s \<and> registered_ok s \<and> running_ok s)"

lemmas api_inv_defs = api_inv_def handles_ok_def waiting_ok_def hub_ok_def registered_ok_def running_ok_def

lemma start_protocol_proxy: "rq_Proxy r \<noteq> [] \<Longrightarrow> start_protocol cfg r \<noteq> ''quic''"
  by (auto simp: start_protocol_def Let_def)

lemma set_handle_simps [simp]:
  "st_handles (set_handle i f s) = (st_handles s)(i := map_option f (st_handles s i))"
  "st_hub (set_handle i f s) = st_hub s" "st_waiting (set_handle i f s) = st_waiting s"
  "st_running (set_handle i f s) = st_running s" "st_checked (set_handle i f s) = st_checked s"
  "st_stopping (set_handle i f s) = st_stopping s" "st_registered (set_handle i f s) = st_registered s"
  by (simp_all add: set_handle_def)

lemma api_inv_set_handle:
  assumes "api_inv s"
    and "\<And>h. st_handles s i = Some h \<Longrightarrow> handle_ok i h \<Longrightarrow>
      handle_ok i (f h) \<and> (th_proc (f h) = ProcNone \<longrightarrow> th_proc h = ProcNone)
      \<and> (th_proc h = ProcNone \<longrightarrow> th_proc (f h) = ProcNone \<or> i \<in> set (st_waiting s))"
  shows "api_inv (set_handle i f s)"
proof -
  have inv: "handles_ok s" "waiting_ok s" "hub_ok s" "running_ok s" "registered_ok s"
    using assms(1) by (auto simp: api_inv_def)
  have H: "handles_ok (set_handle i f s)"
    using inv(1) assms(2) by (auto simp: handles_ok_def)
  have W: "waiting_ok (set_handle i f s)"
    unfolding waiting_ok_def
  proof (intro conjI ballI)
    show "distinct (st_waiting (set_handle i f s))" using inv(2) by (simp add: waiting_ok_def)
    fix j
    assume j: "j \<in> set (st_waiting (set_handle i f s))"
    then obtain h where h: "st_hub s j \<noteq> None" "st_handles s j = Some h" "th_proc h \<noteq> ProcNone"
      using inv(2) by (auto simp: waiting_ok_def)
    have "handle_ok j h" using inv(1) h(2) by (simp add: handles_ok_def)
    with h assms(2) [of h] show "st_hub (set_handle i f s) j \<noteq> None"
      "\<exists>h'. st_handles (set_handle i f s) j = Some h' \<and> th_proc h' \<noteq> ProcNone"
      by (cases "j = i"; auto)+
  qed
  have B: "hub_ok (set_handle i f s)"
    unfolding hub_ok_def
  proof (intro allI impI)
    fix j q
    assume b: "st_hub (set_handle i f s) j = Some q"
    show "length q \<le> 1 \<and> ((\<exists>r. (j, r) \<in> set (st_registered (set_handle i f s))) \<or> (\<exists>h'. st_handles (set_handle i f s) j = Some h'
        \<and> (j \<in> set (st_waiting (set_handle i f s)) \<or> th_proc h' = ProcNone)))"
    proof (cases "\<exists>r. (j, r) \<in> set (st_registered s)")
      case True
      then show ?thesis using b inv(3) by (auto simp: hub_ok_def)
    next
      case False
      with b obtain h where q: "length q \<le> 1" and h: "st_handles s j = Some h"
          "j \<in> set (st_waiting s) \<or> th_proc h = ProcNone"
        using inv(3) unfolding hub_ok_def by (metis set_handle_simps(2))
      have "handle_ok j h" using inv(1) h(1) by (simp add: handles_ok_def)
      with q h assms(2) [of h] show ?thesis by (cases "j = i") auto
    qed
  qed
  have R: "registered_ok (set_handle i f s)" using inv(5) by (auto simp: registered_ok_def)
  have "running_ok (set_handle i f s)" using inv(4) by (auto simp: running_ok_def)
  with H W B R show ?thesis by (simp add: api_inv_def)
qed

lemma api_inv_delete: "api_inv s \<Longrightarrow> api_inv (delete_running i s)"
  by (auto simp: api_inv_defs delete_running_def distinct_removeAll)

lemma api_inv_unregister:
  "\<lbrakk>api_inv s; st_handles s i \<noteq> None\<rbrakk> \<Longrightarrow> api_inv (s\<lparr>st_waiting := remove1 i (st_waiting s), st_hub := hub_unregister i (st_hub s)\<rparr>)"
  by (auto simp: api_inv_defs hub_unregister_def)

lemma api_inv_end_start: "\<lbrakk>api_inv s; st_handles s i \<noteq> None\<rbrakk> \<Longrightarrow> api_inv (end_start i s)"
  unfolding end_start_def by (rule api_inv_unregister)

lemma waiting_handle: "\<lbrakk>api_inv s; i \<in> set (st_waiting s)\<rbrakk> \<Longrightarrow> st_handles s i \<noteq> None"
  by (auto simp: api_inv_defs)

lemma delete_running_handles [simp]: "st_handles (delete_running i s) = st_handles s"
  by (simp add: delete_running_def)

lemma api_inv_frame [simp]:
  "api_inv (s\<lparr>st_checked := c\<rparr>) = api_inv s" "api_inv (s\<lparr>st_stopping := l\<rparr>) = api_inv s"
  by (simp_all add: api_inv_defs)

lemma removed_entry:
  "\<lbrakk>distinct (map fst xs); (i, r) \<in> set xs\<rbrakk> \<Longrightarrow> set (remove1 (i, r) xs) = {p \<in> set xs. fst p \<noteq> i}"
proof (induction xs)
  case (Cons x xs)
  show ?case
  proof (cases "x = (i, r)")
    case True
    then show ?thesis using Cons.prems(1) by force
  next
    case False
    then have "(i, r) \<in> set xs" using Cons.prems(2) by auto
    then have "i \<in> fst ` set xs" by force
    then have "fst x \<noteq> i" using Cons.prems(1) by auto
    then show ?thesis using Cons \<open>(i, r) \<in> set xs\<close> False by auto
  qed
qed simp

lemma distinct_fst_remove1: "distinct (map fst xs) \<Longrightarrow> distinct (map fst (remove1 x xs))"
proof (induction xs)
  case (Cons y ys)
  have "fst ` set (remove1 x ys) \<subseteq> fst ` set ys" using set_remove1_subset by (rule image_mono)
  then show ?case using Cons by auto
qed simp

lemma api_inv_register:
  assumes "api_inv s" and "st_handles s i = None" and "st_hub s i = None"
  shows "api_inv (start_register i r s)"
proof -
  have "i \<notin> fst ` set (st_registered s)" using assms by (auto simp: api_inv_defs)
  then show ?thesis
    using assms by (auto simp: api_inv_defs start_register_def hub_register_def)
qed

lemma api_inv_no_exe:
  assumes "api_inv s" and "(i, r) \<in> set (st_registered s)"
  shows "api_inv (snd (start_no_exe i r s))"
proof -
  have d: "distinct (map fst (st_registered s))" "st_handles s i = None" using assms by (auto simp: api_inv_defs)
  then have w: "i \<notin> set (st_waiting s)" using assms(1) by (auto simp: api_inv_defs)
  have rest: "set (remove1 (i, r) (st_registered s)) = {p \<in> set (st_registered s). fst p \<noteq> i}"
    using d(1) assms(2) by (rule removed_entry)
  have dist: "distinct (map fst (remove1 (i, r) (st_registered s)))"
    using d(1) by (rule distinct_fst_remove1)
  show ?thesis
    unfolding api_inv_def
  proof (intro conjI)
    show "handles_ok (snd (start_no_exe i r s))" "running_ok (snd (start_no_exe i r s))"
      using assms(1) by (simp_all add: api_inv_defs start_no_exe_def)
    show "waiting_ok (snd (start_no_exe i r s))"
      using assms(1) w by (auto simp: api_inv_defs start_no_exe_def hub_unregister_def)
    show "hub_ok (snd (start_no_exe i r s))"
      using assms(1) rest by (fastforce simp: api_inv_defs start_no_exe_def hub_unregister_def)
    show "registered_ok (snd (start_no_exe i r s))"
      using assms(1) rest dist by (fastforce simp: api_inv_defs start_no_exe_def hub_unregister_def)
  qed
qed

lemma api_inv_insert:
  assumes "api_inv s" and "(i, r) \<in> set (st_registered s)"
  shows "api_inv (start_insert cfg i now r s)"
proof -
  have d: "distinct (map fst (st_registered s))" "st_handles s i = None" using assms by (auto simp: api_inv_defs)
  then have n: "i \<notin> set (st_waiting s)" using assms(1) by (auto simp: api_inv_defs)
  have h: "handle_ok i (new_handle cfg i now r)"
    using start_protocol_proxy by (simp add: handle_ok_def new_handle_def)
  have rest: "set (remove1 (i, r) (st_registered s)) = {p \<in> set (st_registered s). fst p \<noteq> i}"
    using d(1) assms(2) by (rule removed_entry)
  have dist: "distinct (map fst (remove1 (i, r) (st_registered s)))"
    using d(1) by (rule distinct_fst_remove1)
  show ?thesis
    unfolding api_inv_def
  proof (intro conjI)
    show "handles_ok (start_insert cfg i now r s)"
      using assms h by (auto simp: api_inv_defs start_insert_def)
    show "waiting_ok (start_insert cfg i now r s)"
      using assms n by (auto simp: api_inv_defs start_insert_def)
    show "hub_ok (start_insert cfg i now r s)"
      unfolding hub_ok_def
    proof (intro allI impI)
      fix j q
      assume "st_hub (start_insert cfg i now r s) j = Some q"
      then have "st_hub s j = Some q" by (simp add: start_insert_def)
      then have "length q \<le> 1" "(\<exists>r. (j, r) \<in> set (st_registered s)) \<or> (\<exists>h. st_handles s j = Some h \<and> (j \<in> set (st_waiting s) \<or> th_proc h = ProcNone))"
        using assms(1) by (auto simp: api_inv_defs)
      then show "length q \<le> 1 \<and> ((\<exists>r'. (j, r') \<in> set (st_registered (start_insert cfg i now r s)))
          \<or> (\<exists>h. st_handles (start_insert cfg i now r s) j = Some h
               \<and> (j \<in> set (st_waiting (start_insert cfg i now r s)) \<or> th_proc h = ProcNone)))"
        using rest by (cases "j = i") (auto simp: start_insert_def new_handle_def)
    qed
    show "registered_ok (start_insert cfg i now r s)"
      using assms(1) rest dist by (fastforce simp: api_inv_defs start_insert_def)
    show "running_ok (start_insert cfg i now r s)"
      using assms by (auto simp: api_inv_defs start_insert_def distinct_removeAll)
  qed
qed

lemma api_inv_exec:
  assumes "api_inv s" and "st_handles s i = Some h" and "st_hub s i \<noteq> None" and "th_proc h = ProcNone"
  shows "api_inv (snd (start_exec i res s))"
proof (cases res)
  case (Inl e)
  have n: "i \<notin> set (st_waiting s)" using assms by (auto simp: api_inv_defs)
  have "api_inv (delete_running i s)" by (rule api_inv_delete [OF assms(1)])
  then show ?thesis
    using n Inl assms(2) by (auto simp: start_exec_def api_inv_defs hub_unregister_def delete_running_def)
next
  case (Inr pid)
  have n: "i \<notin> set (st_waiting s)" using assms by (auto simp: api_inv_defs)
  let ?s = "set_handle i (\<lambda>h. h\<lparr>th_pid := pid, th_proc := ProcAlive\<rparr>) s"
  have inv: "handles_ok s" "waiting_ok s" "hub_ok s" "running_ok s" "registered_ok s"
    using assms(1) by (auto simp: api_inv_def)
  have "handles_ok (?s\<lparr>st_waiting := i # st_waiting s\<rparr>)"
    using inv(1) assms(2,4) by (auto simp: handles_ok_def handle_ok_def)
  moreover have "waiting_ok (?s\<lparr>st_waiting := i # st_waiting s\<rparr>)"
    using inv(2) n assms(2,3) by (auto simp: waiting_ok_def)
  moreover have "hub_ok (?s\<lparr>st_waiting := i # st_waiting s\<rparr>)"
    using inv(3) assms(2) by (auto simp: hub_ok_def)
  moreover have "registered_ok (?s\<lparr>st_waiting := i # st_waiting s\<rparr>)"
    using inv(5) by (auto simp: registered_ok_def)
  moreover have "running_ok (?s\<lparr>st_waiting := i # st_waiting s\<rparr>)"
    using inv(4) by (auto simp: running_ok_def)
  ultimately show ?thesis using Inr by (simp add: start_exec_def api_inv_def)
qed

lemma api_inv_push:
  "api_inv s \<Longrightarrow> api_inv (s\<lparr>st_hub := hub_push i u (st_hub s)\<rparr>)"
  by (auto simp: api_inv_defs hub_push_def split: option.splits list.splits)

lemma api_inv_callback:
  assumes "api_inv s" and "handleWorkerCallback post cb s = (resp, s')"
  shows "api_inv s'"
proof -
  have c: "api_inv (set_handle i (callback_handle c) s)" for i c
    by (rule api_inv_set_handle [OF assms(1)]) (auto simp: handle_ok_def callback_handle_def Let_def)
  have k: "(set_handle i f s)\<lparr>st_hub := st_hub s\<rparr> = set_handle i f s" for i f
    by (simp add: set_handle_def)
  have u: "api_inv ((set_handle i (callback_handle c) s)\<lparr>st_hub := hub_push j u (st_hub s)\<rparr>)" for i c j u
    using api_inv_push [OF c [of i c], of j u] by simp
  show ?thesis
    using assms c u by (auto simp: handleWorkerCallback_def k split: option.splits if_splits)
qed

lemma api_inv_mark: "api_inv s \<Longrightarrow> api_inv (set_handle i (\<lambda>h. h\<lparr>th_status := t\<rparr>) s)"
  by (rule api_inv_set_handle) (auto simp: handle_ok_def)

lemma api_inv_shutdown: "api_inv s \<Longrightarrow> api_inv (shutdown_mark s)"
proof -
  have "api_inv t \<Longrightarrow> api_inv (foldl (\<lambda>s i. set_handle i (\<lambda>h. h\<lparr>th_status := statusStopped\<rparr>) s) t l)" for t l
  proof (induction l arbitrary: t)
    case (Cons i l)
    from Cons.IH [OF api_inv_mark [OF Cons.prems]] show ?case by simp
  qed simp
  then show "api_inv s \<Longrightarrow> ?thesis" by (simp add: shutdown_mark_def)
qed

lemma api_inv_step: "\<lbrakk>api_step cfg s s'; api_inv s\<rbrakk> \<Longrightarrow> api_inv s'"
proof (induction rule: api_step.induct)
  case (check post body s resp s')
  then show ?case by (auto simp: start_check_def split: if_splits option.splits)
next
  case (no_exe i r s resp' s')
  then show ?case using api_inv_no_exe [of s i r] by simp
next
  case (exec s i h res resp s')
  then show ?case using api_inv_exec [of s i h res] by simp
next
  case (exit s i h res)
  then show ?case
    by (intro api_inv_set_handle) (auto simp: handle_ok_def proc_wait_def split: option.splits)
next
  case (url i s u resp s')
  then show ?case
    using waiting_handle [of s i]
    by (auto simp: wait_url_def Let_def handle_ok_def intro!: api_inv_end_start api_inv_set_handle)
next
  case (done_ i s h resp s')
  then show ?case by (auto simp: wait_done_def intro!: api_inv_end_start api_inv_delete)
next
  case (timeout i s resp s')
  then show ?case
    using waiting_handle [of s i] by (auto simp: wait_timeout_def intro!: api_inv_end_start api_inv_delete api_inv_mark)
next
  case (stop_begin post body' s resp s')
  show ?case
    using stop_begin api_inv_mark by (auto simp: stop_begin_def split: if_splits option.splits)
next
  case (stop_end i snap s resp' s')
  then show ?case by (auto simp: stop_end_def api_inv_delete)
qed (auto intro: api_inv_register api_inv_insert api_inv_callback api_inv_shutdown)

lemma api_inv_init: "api_inv api_init"
  by (simp add: api_inv_defs api_init_def)

lemma api_inv_reachable: "(api_step cfg)\<^sup>*\<^sup>* api_init s \<Longrightarrow> api_inv s"
  by (induction rule: rtranclp_induct) (auto intro: api_inv_init api_inv_step)

subsection \<open>Properties\<close>

text \<open>C17. The service's invariant, over every interleaving of requests, callbacks and process exits:
  the entries of the running map are distinct and have a handle of their own identifier; every URL
  channel belongs to a start handler in flight and holds at most one URL, so no channel is left
  behind; every handler that is registered or waits has its channel, and no two share one.  The
  protocol text kept for a tunnel with a proxy is never the literal quic.  This is all that the code makes sure of:
  other texts of the configuration pass, among them auto (see below).\<close>

theorem api_invariant:
  assumes "(api_step cfg)\<^sup>*\<^sup>* api_init s"
  shows "distinct (st_running s) \<and> set (st_running s) \<subseteq> dom (st_handles s)
    \<and> distinct (map fst (st_registered s) @ st_waiting s)
    \<and> fst ` set (st_registered s) \<union> set (st_waiting s) \<subseteq> dom (st_hub s)
    \<and> (\<forall>i q. st_hub s i = Some q \<longrightarrow> length q \<le> 1
         \<and> ((\<exists>r. (i, r) \<in> set (st_registered s))
            \<or> (\<exists>h. st_handles s i = Some h \<and> (i \<in> set (st_waiting s) \<or> th_proc h = ProcNone))))
    \<and> (\<forall>i h. st_handles s i = Some h \<longrightarrow> th_id h = i \<and> (th_proxy h \<noteq> [] \<longrightarrow> th_protocol h \<noteq> ''quic''))"
proof -
  have inv: "api_inv s" by (rule api_inv_reachable [OF assms])
  have r: "\<And>i r. (i, r) \<in> set (st_registered s) \<Longrightarrow> st_handles s i = None \<and> st_hub s i \<noteq> None"
    using inv unfolding api_inv_def registered_ok_def by blast
  have w: "\<And>i. i \<in> set (st_waiting s) \<Longrightarrow> st_handles s i \<noteq> None \<and> st_hub s i \<noteq> None"
    using inv by (auto simp: api_inv_defs)
  have "distinct (map fst (st_registered s) @ st_waiting s)"
    using inv r w by (fastforce simp: api_inv_def registered_ok_def waiting_ok_def)
  moreover have "fst ` set (st_registered s) \<union> set (st_waiting s) \<subseteq> dom (st_hub s)"
    using r w by force
  ultimately show ?thesis
    using inv unfolding api_inv_def hub_ok_def running_ok_def handles_ok_def handle_ok_def by blast
qed

definition sample_cfg :: appConfig where
  "sample_cfg = loadConfig (\<lambda>_. None) (\<lambda>k. [])"

definition sample_rq :: quickTunnelRequest where
  "sample_rq = \<lparr>rq_Host = ''h'', rq_Port = 80, rq_Protocol = ''QUIC'', rq_Proxy = ''http://p''\<rparr>"

lemma sample_valid: "validate sample_rq = None"
  by code_simp

lemma register_insert:
  assumes "r \<in> set (st_checked s)" "st_handles s i = None" "st_hub s i = None" "i \<noteq> []"
  shows "(api_step cfg)\<^sup>*\<^sup>* s (start_insert cfg i now r (start_register i r s))"
proof -
  have "api_step cfg s (start_register i r s)" by (rule api_step.register) (use assms in auto)
  moreover have "api_step cfg (start_register i r s) (start_insert cfg i now r (start_register i r s))"
    by (rule api_step.insert) (simp add: start_register_def)
  ultimately show ?thesis by (rule converse_rtranclp_into_rtranclp [OF _ r_into_rtranclp])
qed

lemma sample_check:
  "int (length (st_running s)) < MaxTunnels cfg \<Longrightarrow>
     api_step cfg s (s\<lparr>st_checked := sample_rq # st_checked s\<rparr>)"
  by (rule api_step.check [of cfg True "Some sample_rq"]) (simp add: start_check_def sample_valid)

theorem api_invariant_witness:
  "\<exists>s. (api_step sample_cfg)\<^sup>*\<^sup>* api_init s \<and> st_running s = [''ab'']
     \<and> (\<exists>h. st_handles s ''ab'' = Some h \<and> th_protocol h \<noteq> ''quic'')"
proof -
  let ?s1 = "api_init\<lparr>st_checked := [sample_rq]\<rparr>"
  let ?s2 = "start_insert sample_cfg ''ab'' 0 sample_rq (start_register ''ab'' sample_rq ?s1)"
  have a: "api_step sample_cfg api_init ?s1"
    using sample_check [of api_init sample_cfg]
    by (simp add: sample_cfg_def loadConfig_def envInt_def api_init_def)
  have b: "(api_step sample_cfg)\<^sup>*\<^sup>* ?s1 ?s2"
    by (rule register_insert) (simp_all add: api_init_def)
  have st: "(api_step sample_cfg)\<^sup>*\<^sup>* api_init ?s2"
    using a b by (rule converse_rtranclp_into_rtranclp)
  have h: "st_handles ?s2 ''ab'' = Some (new_handle sample_cfg ''ab'' 0 sample_rq)"
    by (simp add: start_insert_def)
  have "th_proxy (new_handle sample_cfg ''ab'' 0 sample_rq) \<noteq> []"
    by (simp add: new_handle_def sample_rq_def)
  with api_invariant [OF st] h have "th_protocol (new_handle sample_cfg ''ab'' 0 sample_rq) \<noteq> ''quic''"
    by blast
  moreover have "st_running ?s2 = [''ab'']" by (simp add: start_insert_def start_register_def api_init_def)
  ultimately show ?thesis using st h by blast
qed

lemma checks_reachable:
  assumes "0 < MaxTunnels cfg"
  shows "(api_step cfg)\<^sup>*\<^sup>* api_init (api_init\<lparr>st_checked := replicate k sample_rq\<rparr>)"
proof (induction k)
  case 0
  have "api_init\<lparr>st_checked := []\<rparr> = api_init" by (simp add: api_init_def)
  then show ?case by simp
next
  case (Suc k)
  let ?s = "api_init\<lparr>st_checked := replicate k sample_rq\<rparr>"
  have "api_step cfg ?s (?s\<lparr>st_checked := sample_rq # st_checked ?s\<rparr>)"
    by (rule sample_check) (use assms in \<open>simp add: api_init_def\<close>)
  with Suc.IH show ?case by (simp add: rtranclp.rtrancl_into_rtrancl)
qed

lemma inserts_reachable:
  assumes "st_checked s = replicate k sample_rq" and "set (st_running s) \<subseteq> dom (st_handles s)"
    and "\<And>i. st_handles s i \<noteq> None \<or> st_hub s i \<noteq> None \<Longrightarrow> length i \<le> n"
  shows "\<exists>s'. (api_step cfg)\<^sup>*\<^sup>* s s' \<and> length (st_running s') = length (st_running s) + k"
  using assms
proof (induction k arbitrary: s n)
  case 0
  then show ?case by auto
next
  case (Suc k)
  let ?i = "replicate (Suc n) CHR ''a''"
  let ?s = "start_insert cfg ?i 0 sample_rq (start_register ?i sample_rq s)"
  have new: "st_handles s ?i = None" "st_hub s ?i = None" using Suc.prems(3) [of ?i] by fastforce+
  have nr: "?i \<notin> set (st_running s)" using new Suc.prems(2) by auto
  have st: "(api_step cfg)\<^sup>*\<^sup>* s ?s"
    by (rule register_insert) (use new Suc.prems(1) in auto)
  have l: "length (st_running ?s) = Suc (length (st_running s))"
    using nr by (simp add: start_insert_def start_register_def removeAll_id)
  have "\<exists>s'. (api_step cfg)\<^sup>*\<^sup>* ?s s' \<and> length (st_running s') = length (st_running ?s) + k"
  proof (rule Suc.IH)
    show "st_checked ?s = replicate k sample_rq" using Suc.prems(1) by (simp add: start_insert_def start_register_def)
    show "set (st_running ?s) \<subseteq> dom (st_handles ?s)"
      using Suc.prems(2) by (auto simp: start_insert_def start_register_def)
    show "length i \<le> Suc n" if "st_handles ?s i \<noteq> None \<or> st_hub ?s i \<noteq> None" for i
      using that Suc.prems(3) [of i] by (auto simp: start_insert_def start_register_def hub_register_def split: if_splits)
  qed
  then obtain s' where "(api_step cfg)\<^sup>*\<^sup>* ?s s'" "length (st_running s') = length (st_running ?s) + k"
    by blast
  then show ?case using st l by (intro exI [of _ s']) (simp add: rtranclp_trans)
qed

text \<open>A proxy does not keep a tunnel off QUIC when the service is configured with the protocol \<^verbatim>\<open>auto\<close>: the
  text is passed on, and the worker's selector may then take QUIC.\<close>

theorem proxied_tunnel_on_auto:
  assumes "0 < MaxTunnels cfg" and "Protocol cfg = ''auto''"
  shows "\<exists>s h. (api_step cfg)\<^sup>*\<^sup>* api_init s \<and> st_running s = [''a''] \<and> st_handles s ''a'' = Some h
    \<and> th_proxy h = ''http://p'' \<and> th_protocol h = ''auto''"
proof -
  let ?r = "sample_rq\<lparr>rq_Protocol := []\<rparr>" and ?s1 = "api_init\<lparr>st_checked := [sample_rq\<lparr>rq_Protocol := []\<rparr>]\<rparr>"
  let ?s = "start_insert cfg ''a'' 0 ?r (start_register ''a'' ?r ?s1)"
  have "validate ?r = None" by code_simp
  then have "api_step cfg api_init ?s1"
    using assms(1) by (intro api_step.check [of cfg True "Some ?r" _ None]) (simp add: start_check_def api_init_def)
  moreover have "(api_step cfg)\<^sup>*\<^sup>* ?s1 ?s" by (rule register_insert) (simp_all add: api_init_def)
  ultimately have "(api_step cfg)\<^sup>*\<^sup>* api_init ?s" by (rule converse_rtranclp_into_rtranclp)
  moreover have "st_running ?s = [''a'']" "st_handles ?s ''a'' = Some (new_handle cfg ''a'' 0 ?r)"
    by (simp_all add: start_insert_def start_register_def api_init_def)
  moreover have "th_proxy (new_handle cfg ''a'' 0 ?r) = ''http://p''" "th_protocol (new_handle cfg ''a'' 0 ?r) = ''auto''"
    by (simp_all add: new_handle_def start_protocol_def sample_rq_def assms(2) to_lower_def Let_def)
  ultimately show ?thesis by blast
qed

theorem proxied_tunnel_on_auto_witness:
  "\<exists>s h. (api_step (sample_cfg\<lparr>Protocol := ''auto''\<rparr>))\<^sup>*\<^sup>* api_init s \<and> st_handles s ''a'' = Some h \<and> th_protocol h = ''auto''"
proof -
  have "0 < MaxTunnels (sample_cfg\<lparr>Protocol := ''auto''\<rparr>)" by (simp add: sample_cfg_def loadConfig_def envInt_def)
  from proxied_tunnel_on_auto [OF this] show ?thesis by auto
qed

text \<open>C20. The tunnel limit is not a limit: the check and the insertion are separate critical
  sections, so with a positive MaxTunnels every number k of tunnels can run at the same time, by k
  requests that pass the check before the first is inserted.\<close>

theorem tunnel_limit_exceeded:
  assumes "0 < MaxTunnels cfg"
  shows "\<exists>s. (api_step cfg)\<^sup>*\<^sup>* api_init s \<and> length (st_running s) = k"
proof -
  let ?s = "api_init\<lparr>st_checked := replicate k sample_rq\<rparr>"
  obtain s' where "(api_step cfg)\<^sup>*\<^sup>* ?s s'" "length (st_running s') = length (st_running ?s) + k"
    using inserts_reachable [of ?s k 0 cfg] by (auto simp: api_init_def)
  then show ?thesis
    using checks_reachable [OF assms, of k]
    by (intro exI [of _ s']) (auto simp: api_init_def intro: rtranclp_trans)
qed

theorem tunnel_limit_exceeded_witness:
  "\<exists>s. (api_step (sample_cfg\<lparr>MaxTunnels := 1\<rparr>))\<^sup>*\<^sup>* api_init s \<and> length (st_running s) = 5"
  by (rule tunnel_limit_exceeded) simp

text \<open>The start handlers between the check and the insertion.\<close>

definition in_window :: "api_state \<Rightarrow> nat" where
  "in_window s = length (st_checked s) + length (st_registered s)"

definition serial_step :: "appConfig \<Rightarrow> api_state \<Rightarrow> api_state \<Rightarrow> bool" where
  "serial_step cfg s s' = (api_step cfg s s' \<and> in_window s' \<le> 1)"

lemma length_removeAll_le: "length (removeAll i xs) \<le> length xs"
  by (simp add: removeAll_filter_not_eq)

lemma shutdown_frame [simp]:
  "st_running (shutdown_mark s) = st_running s" "st_checked (shutdown_mark s) = st_checked s"
  "st_registered (shutdown_mark s) = st_registered s"
proof -
  have "st_running (foldl (\<lambda>s i. set_handle i (\<lambda>h. h\<lparr>th_status := statusStopped\<rparr>) s) t l) = st_running t
      \<and> st_checked (foldl (\<lambda>s i. set_handle i (\<lambda>h. h\<lparr>th_status := statusStopped\<rparr>) s) t l) = st_checked t
      \<and> st_registered (foldl (\<lambda>s i. set_handle i (\<lambda>h. h\<lparr>th_status := statusStopped\<rparr>) s) t l) = st_registered t" for t l
    by (induction l arbitrary: t) auto
  then show "st_running (shutdown_mark s) = st_running s" "st_checked (shutdown_mark s) = st_checked s"
    "st_registered (shutdown_mark s) = st_registered s"
    by (simp_all add: shutdown_mark_def)
qed

lemma length_remove1_in: "x \<in> set xs \<Longrightarrow> Suc (length (remove1 x xs)) = length xs"
  by (simp add: length_remove1) (metis Suc_pred length_pos_if_in_set)

text \<open>Running tunnels and handlers in the window: only the check adds to them.\<close>

lemma step_count:
  assumes "api_step cfg s s'"
  shows "length (st_running s') + in_window s' \<le> length (st_running s) + in_window s
    \<or> int (length (st_running s)) < MaxTunnels cfg \<and> st_running s' = st_running s"
  using assms
proof cases
  case (check post body resp)
  then show ?thesis by (auto simp: start_check_def split: if_splits option.splits)
next
  case (register r i)
  then show ?thesis using length_remove1_in [of r "st_checked s"] by (simp add: start_register_def in_window_def)
next
  case (no_exe i r resp)
  then show ?thesis using length_remove1_in [of "(i, r)" "st_registered s"] by (auto simp: start_no_exe_def in_window_def)
next
  case (insert i r now)
  then show ?thesis
    using length_remove1_in [of "(i, r)" "st_registered s"]
    by (simp add: start_insert_def in_window_def) (use length_removeAll_le [of i "st_running s"] in linarith)
next
  case (exec i h res resp)
  then show ?thesis
    using length_removeAll_le [of i "st_running s"]
    by (cases res) (auto simp: start_exec_def delete_running_def in_window_def)
next
  case (url i u resp)
  then show ?thesis by (auto simp: wait_url_def end_start_def Let_def in_window_def)
next
  case (done_ i h resp)
  then show ?thesis
    using length_removeAll_le [of i "st_running s"]
    by (auto simp: wait_done_def end_start_def delete_running_def in_window_def)
next
  case (timeout i resp)
  then show ?thesis
    using length_removeAll_le [of i "st_running s"]
    by (auto simp: wait_timeout_def end_start_def delete_running_def in_window_def)
next
  case (stop_begin post body resp)
  then show ?thesis by (auto simp: stop_begin_def in_window_def split: if_splits option.splits)
next
  case (stop_end i snap resp)
  then show ?thesis
    using length_removeAll_le [of i "st_running s"]
    by (auto simp: stop_end_def delete_running_def in_window_def)
next
  case (callback post cb resp)
  then show ?thesis by (auto simp: handleWorkerCallback_def in_window_def split: if_splits option.splits)
qed (simp_all add: in_window_def)

lemma serial_step_count:
  assumes "serial_step cfg s s'"
    and "in_window s \<le> 1 \<and> int (length (st_running s) + in_window s) \<le> MaxTunnels cfg"
  shows "in_window s' \<le> 1 \<and> int (length (st_running s') + in_window s') \<le> MaxTunnels cfg"
proof -
  have l: "api_step cfg s s'" "in_window s' \<le> 1" using assms(1) by (auto simp: serial_step_def)
  from step_count [OF l(1)] show ?thesis
  proof
    assume "length (st_running s') + in_window s' \<le> length (st_running s) + in_window s"
    with l(2) assms(2) show ?thesis by linarith
  next
    assume "int (length (st_running s)) < MaxTunnels cfg \<and> st_running s' = st_running s"
    with l(2) show ?thesis by auto
  qed
qed

text \<open>C23. With requests handled one at a time up to the insertion (never two start handlers between
  check and insertion), the number of running tunnels never exceeds MaxTunnels.\<close>

theorem tunnel_limit_serial:
  assumes "0 \<le> MaxTunnels cfg" and "(serial_step cfg)\<^sup>*\<^sup>* api_init s"
  shows "int (length (st_running s)) \<le> MaxTunnels cfg"
proof -
  from assms(2) have "in_window s \<le> 1 \<and> int (length (st_running s) + in_window s) \<le> MaxTunnels cfg"
  proof (induction rule: rtranclp_induct)
    case base
    then show ?case using assms(1) by (simp add: api_init_def in_window_def)
  next
    case (step y z)
    then show ?case using serial_step_count by blast
  qed
  then show ?thesis by simp
qed

theorem tunnel_limit_serial_witness:
  "\<exists>s. (serial_step sample_cfg)\<^sup>*\<^sup>* api_init s \<and> st_checked s \<noteq> [] \<and> int (length (st_running s)) \<le> 100"
proof -
  let ?s = "api_init\<lparr>st_checked := [sample_rq]\<rparr>"
  have m: "MaxTunnels sample_cfg = 100" by (simp add: sample_cfg_def loadConfig_def envInt_def)
  have "serial_step sample_cfg api_init ?s"
    using sample_check [of api_init sample_cfg] by (simp add: serial_step_def in_window_def m api_init_def)
  then have st: "(serial_step sample_cfg)\<^sup>*\<^sup>* api_init ?s" by blast
  have "int (length (st_running ?s)) \<le> 100" using tunnel_limit_serial [OF _ st] by (simp add: m)
  with st show ?thesis by auto
qed

definition settled :: "string \<Rightarrow> api_state \<Rightarrow> bool" where
  "settled i s = (i \<in> set (st_running s) \<and> st_handles s i \<noteq> None \<and> st_hub s i = None
     \<and> i \<notin> set (st_waiting s))"

definition no_stop :: "string \<Rightarrow> api_state \<Rightarrow> bool" where
  "no_stop i s = (\<forall>snap. (i, snap) \<notin> set (st_stopping s))"

lemma hub_push_other: "st_hub s i = None \<Longrightarrow> hub_push j u (st_hub s) i = None"
  by (auto simp: hub_push_def split: option.splits list.splits)

lemma shutdown_frame2 [simp]:
  "st_hub (shutdown_mark s) = st_hub s" "st_waiting (shutdown_mark s) = st_waiting s"
  "st_handles (shutdown_mark s) i = None \<longleftrightarrow> st_handles s i = None"
proof -
  have "st_hub (foldl (\<lambda>s i. set_handle i (\<lambda>h. h\<lparr>th_status := statusStopped\<rparr>) s) t l) = st_hub t
      \<and> st_waiting (foldl (\<lambda>s i. set_handle i (\<lambda>h. h\<lparr>th_status := statusStopped\<rparr>) s) t l) = st_waiting t
      \<and> (st_handles (foldl (\<lambda>s i. set_handle i (\<lambda>h. h\<lparr>th_status := statusStopped\<rparr>) s) t l) i = None
          \<longleftrightarrow> st_handles t i = None)" for t l
    by (induction l arbitrary: t) auto
  then show "st_hub (shutdown_mark s) = st_hub s" "st_waiting (shutdown_mark s) = st_waiting s"
    "st_handles (shutdown_mark s) i = None \<longleftrightarrow> st_handles s i = None"
    by (simp_all add: shutdown_mark_def)
qed

lemma settled_step:
  assumes "api_step cfg s s'" and "settled i s" and "no_stop i s"
  shows "settled i s'"
  using assms(1)
proof cases
  case (check post body resp)
  then show ?thesis using assms(2) by (auto simp: start_check_def settled_def split: if_splits option.splits)
next
  case (register r j)
  then show ?thesis using assms(2) by (auto simp: start_register_def settled_def hub_register_def)
next
  case (no_exe j r resp)
  then show ?thesis using assms(2) by (auto simp: start_no_exe_def settled_def hub_unregister_def)
next
  case (insert j r now)
  then show ?thesis using assms(2) by (auto simp: start_insert_def settled_def)
next
  case (exec j h res resp)
  then show ?thesis
    using assms(2)
    by (auto simp: start_exec_def settled_def delete_running_def hub_unregister_def split: sum.splits)
next
  case (exit j h res)
  then show ?thesis using assms(2) by (auto simp: settled_def)
next
  case (url j u resp)
  then show ?thesis
    using assms(2) by (auto simp: wait_url_def settled_def end_start_def hub_unregister_def Let_def
        dest: notin_set_remove1)
next
  case (done_ j h resp)
  then show ?thesis
    using assms(2) by (auto simp: wait_done_def settled_def end_start_def hub_unregister_def
        delete_running_def dest: notin_set_remove1)
next
  case (timeout j resp)
  then show ?thesis
    using assms(2) by (auto simp: wait_timeout_def settled_def end_start_def hub_unregister_def
        delete_running_def dest: notin_set_remove1)
next
  case (stop_begin post body' resp)
  then show ?thesis
    using assms(2) by (auto simp: stop_begin_def settled_def split: if_splits option.splits)
next
  case (stop_end j snap resp)
  then show ?thesis
    using assms(2,3) by (auto simp: stop_end_def settled_def delete_running_def no_stop_def)
next
  case (callback post cb resp)
  then show ?thesis
    using assms(2) hub_push_other [of s i]
    by (auto simp: handleWorkerCallback_def settled_def split: if_splits option.splits)
next
  case shutdown
  then show ?thesis using assms(2) by (simp add: settled_def)
qed

text \<open>A tunnel whose start request was answered stays in the running map, and so counts against
  the limit, until a stop request names it: no step other than the end of a stop handler removes
  it, in particular not the exit of its worker process.\<close>

theorem dead_tunnel_stays:
  assumes "(\<lambda>s s'. api_step cfg s s' \<and> no_stop i s)\<^sup>*\<^sup>* s s'" and "settled i s"
  shows "i \<in> set (st_running s')"
proof -
  from assms have "settled i s'"
    by (induction rule: rtranclp_induct) (auto intro: settled_step)
  then show ?thesis by (simp add: settled_def)
qed

definition sample_started :: api_state where
  "sample_started = api_init\<lparr>st_running := [''a''],
     st_handles := [''a'' \<mapsto> (new_handle sample_cfg ''a'' 0 sample_rq)\<lparr>th_proc := ProcAlive\<rparr>]\<rparr>"

theorem dead_tunnel_stays_witness:
  "\<exists>s. (\<lambda>s s'. api_step sample_cfg s s' \<and> no_stop ''a'' s)\<^sup>*\<^sup>* sample_started s
     \<and> ''a'' \<in> set (st_running s) \<and> (\<exists>h. st_handles s ''a'' = Some h \<and> th_proc h = ProcExited)"
proof -
  let ?s = "set_handle ''a'' (proc_wait None) sample_started"
  have "api_step sample_cfg sample_started ?s"
    by (rule api_step.exit [of _ _ "(new_handle sample_cfg ''a'' 0 sample_rq)\<lparr>th_proc := ProcAlive\<rparr>"])
       (simp_all add: sample_started_def api_init_def)
  moreover have "no_stop ''a'' sample_started" by (simp add: no_stop_def sample_started_def api_init_def)
  ultimately have st: "(\<lambda>s s'. api_step sample_cfg s s' \<and> no_stop ''a'' s)\<^sup>*\<^sup>* sample_started ?s"
    by (simp add: r_into_rtranclp)
  have "''a'' \<in> set (st_running ?s)"
    by (rule dead_tunnel_stays [OF st]) (simp add: settled_def sample_started_def api_init_def)
  moreover have "\<exists>h. st_handles ?s ''a'' = Some h \<and> th_proc h = ProcExited"
    by (simp add: sample_started_def proc_wait_def)
  ultimately show ?thesis using st by blast
qed

text \<open>The error a worker reports is lost: when the worker posts an error and then exits with an
  error, as the source makes it do, the answer to the start request carries the exit error and
  not the reported one.\<close>

theorem reported_error_lost:
  assumes "st_handles s i = Some h" and "i \<in> set (st_running s)" and "i \<noteq> []" and "ee \<noteq> []"
    and "cb = \<lparr>cb_ID = i, cb_URL = [], cb_Status = ''error'', cb_Error = msg\<rparr>"
  shows "let s1 = snd (handleWorkerCallback True (Some cb) s);
             s2 = set_handle i (proc_wait (Some ee)) s1
         in \<exists>snap. fst (wait_done i s2) = Some (RespSnapshot 500 snap) \<and> sn_Error snap = ee"
  using assms
  by (simp add: handleWorkerCallback_def proc_wait_def wait_done_def snapshot_def Let_def)

theorem reported_error_lost_witness:
  "let s1 = snd (handleWorkerCallback True
             (Some \<lparr>cb_ID = ''a'', cb_URL = [], cb_Status = ''error'', cb_Error = ''no edge''\<rparr>) sample_started);
       s2 = set_handle ''a'' (proc_wait (Some ''exit status 1'')) s1
   in \<exists>snap. fst (wait_done ''a'' s2) = Some (RespSnapshot 500 snap) \<and> sn_Error snap = ''exit status 1''"
  by (rule reported_error_lost) (simp_all add: sample_started_def)

text \<open>A stop request that gives up after five seconds answers success and forgets the tunnel but
  does not kill the worker: from every state with a running tunnel whose process is alive, two
  steps of the stop handler lead to a state where the process is alive, its handle says stopped
  and no list shows it.\<close>

theorem stop_leaves_process:
  assumes "i \<in> set (st_running s)" and "st_handles s i = Some h" and "th_proc h = ProcAlive" and "i \<noteq> []"
  shows "\<exists>s'. (api_step cfg)\<^sup>*\<^sup>* s s' \<and> i \<notin> set (st_running s')
    \<and> (\<exists>h'. st_handles s' i = Some h' \<and> th_proc h' = ProcAlive \<and> th_status h' = statusStopped)"
proof -
  let ?s1 = "snd (stop_begin True (Some i) s)"
  let ?s2 = "snd (stop_end i (snapshot h) ?s1)"
  have b: "api_step cfg s ?s1" by (rule api_step.stop_begin [of True "Some i" _ "fst (stop_begin True (Some i) s)"]) simp
  have m: "(i, snapshot h) \<in> set (st_stopping ?s1)" using assms by (simp add: stop_begin_def)
  have e: "api_step cfg ?s1 ?s2"
    by (rule api_step.stop_end [OF m, of "fst (stop_end i (snapshot h) ?s1)"]) simp
  have "i \<notin> set (st_running ?s2)" by (simp add: stop_end_def delete_running_def)
  moreover have "\<exists>h'. st_handles ?s2 i = Some h' \<and> th_proc h' = ProcAlive \<and> th_status h' = statusStopped"
    using assms by (simp add: stop_end_def delete_running_def stop_begin_def)
  moreover have "(api_step cfg)\<^sup>*\<^sup>* s ?s2"
    using b e by (rule converse_rtranclp_into_rtranclp [OF _ r_into_rtranclp])
  ultimately show ?thesis by blast
qed

theorem stop_leaves_process_witness:
  "\<exists>s'. (api_step sample_cfg)\<^sup>*\<^sup>* sample_started s' \<and> ''a'' \<notin> set (st_running s')
    \<and> (\<exists>h'. st_handles s' ''a'' = Some h' \<and> th_proc h' = ProcAlive \<and> th_status h' = statusStopped)"
  by (rule stop_leaves_process [of _ _ "(new_handle sample_cfg ''a'' 0 sample_rq)\<lparr>th_proc := ProcAlive\<rparr>"])
     (simp_all add: sample_started_def new_handle_def)

text \<open>The list of tunnels holds a snapshot of every running tunnel, each once, oldest first.\<close>

theorem list_sorted_complete:
  "sorted (map sn_StartedAt (handleListTunnels s))
   \<and> mset (handleListTunnels s) = mset (map snapshot (List.map_filter (st_handles s) (st_running s)))"
  by (simp add: handleListTunnels_def)

lemma quick_protocol:
  assumes "validate r = None" and "Protocol cfg = ''quic'' \<or> Protocol cfg = ''http2''"
  shows "start_protocol cfg r = ''quic'' \<and> rq_Proxy r = [] \<or> start_protocol cfg r = ''http2''"
  using assms by (auto simp: start_protocol_def validate_def Let_def split: if_splits)

lemma target_not_flag: "start_target r \<noteq> CHR ''-'' # CHR ''-'' # f" if "CHR '':'' \<notin> set f"
proof
  assume e: "start_target r = CHR ''-'' # CHR ''-'' # f"
  have "CHR '':'' \<in> set (start_target r)" by (simp add: start_target_def)
  with e that show False by simp
qed

text \<open>The command line the service writes is the one the worker reads: for a validated request
  and a hexadecimal identifier, the worker process starts in worker mode with that identifier,
  target host:port, callback, and a protocol that is quic or http2, and http2 whenever a proxy is
  set.\<close>

theorem worker_gets_request:
  assumes "validate r = None" and "Protocol cfg = ''quic'' \<or> Protocol cfg = ''http2''"
    and "i \<noteq> []" and "hd i \<noteq> CHR ''-''"
  shows "let args = exe # worker_command shp cfg i r; p = worker_parameters args ev
    in isWorkerMode args \<and> wp_id p = i \<and> wp_target p = start_target r
       \<and> wp_callback p = ''http://127.0.0.1'' @ cbListenPort shp (ListenAddr cfg) @ ''/internal/quick-url''
       \<and> (wp_protocol p = ''quic'' \<and> rq_Proxy r = [] \<or> wp_protocol p = ''http2'')"
proof -
  have i: "i \<noteq> CHR ''-'' # f" for f using assms(3,4) by auto
  have t: "start_target r \<noteq> ''--protocol''" "start_target r \<noteq> ''--callback''" "start_target r \<noteq> []"
    using target_not_flag [of "''protocol''" r] target_not_flag [of "''callback''" r]
    by (auto simp: start_target_def)
  show ?thesis
    using quick_protocol [OF assms(1,2)] i assms(3) t
    by (elim disjE) (simp_all add: worker_command_def worker_parameters_def isWorkerMode_def arg_def
        argOrEnv_def or_default_def Let_def)
qed

theorem worker_gets_request_witness:
  "wp_protocol (worker_parameters (''x'' # worker_command (\<lambda>_. None) sample_cfg ''ab'' sample_rq) (\<lambda>_. [])) = ''http2''"
proof -
  have "Protocol sample_cfg = ''quic''" by (simp add: sample_cfg_def loadConfig_def env_def)
  then have "let args = ''x'' # worker_command (\<lambda>_. None) sample_cfg ''ab'' sample_rq;
        p = worker_parameters args (\<lambda>_. [])
      in isWorkerMode args \<and> wp_id p = ''ab'' \<and> wp_target p = start_target sample_rq
       \<and> wp_callback p = ''http://127.0.0.1'' @ cbListenPort (\<lambda>_. None) (ListenAddr sample_cfg) @ ''/internal/quick-url''
       \<and> (wp_protocol p = ''quic'' \<and> rq_Proxy sample_rq = [] \<or> wp_protocol p = ''http2'')"
    by (intro worker_gets_request) (simp_all add: sample_valid)
  then show ?thesis by (simp add: Let_def sample_rq_def)
qed

end
