(* ===== verification/Datagram_V3.thy ===== *)
theory Datagram_V3
  imports Cfd_Prelude
begin

text \<open>
  \<^verbatim>\<open>quic/v3/request.go\<close>, \<^verbatim>\<open>quic/v3/datagram.go\<close> and \<^verbatim>\<open>quic/v3/datagram_errors.go\<close>: the request
  identifiers and the four datagrams of the version 3 protocol with their binary formats.
  A received datagram is a byte list whose capacity is its length (the QUIC library allocates
  received datagrams exactly), so slicing past the end is the run-time panic \<open>Panic\<close>.
\<close>

subsection \<open>Errors\<close>

datatype v3_err =
    ErrInvalidDatagramType
  | ErrDatagramHeaderTooSmall
  | ErrDatagramPayloadTooLarge
  | ErrDatagramPayloadHeaderTooSmall
  | ErrDatagramPayloadInvalidSize
  | ErrDatagramResponseMsgInvalidSize
  | ErrDatagramResponseInvalidSize
  | ErrDatagramResponseMsgTooLargeMaximum
  | ErrDatagramResponseMsgTooLargeDatagram
  | ErrDatagramICMPPayloadTooLarge
  | ErrDatagramICMPPayloadMissing
  | ErrInvalidRequestIDLen
  | ErrInvalidPayloadDestLen
  | ErrInvalidSliceLen nat
  | MarshalErr v3_err
  | UnmarshalErr v3_err

definition wrapMarshalErr :: "v3_err \<Rightarrow> v3_err" where
  "wrapMarshalErr e = MarshalErr e"

definition wrapUnmarshalErr :: "v3_err \<Rightarrow> v3_err" where
  "wrapUnmarshalErr e = UnmarshalErr e"

definition map_err :: "('e \<Rightarrow> 'f) \<Rightarrow> ('e, 'a) outcome \<Rightarrow> ('f, 'a) outcome" where
  "map_err f m = (case m of Ok x \<Rightarrow> Ok x | Err e \<Rightarrow> Err (f e) | Panic \<Rightarrow> Panic)"

lemma map_err_simps [simp]:
  "map_err f (Ok x) = Ok x" "map_err f (Err e) = Err (f e)" "map_err f Panic = Panic"
  by (simp_all add: map_err_def)

subsection \<open>Request identifiers\<close>

datatype RequestID = RequestID (rid_hi: u64) (rid_lo: u64)

definition datagramRequestIdLen :: nat where
  "datagramRequestIdLen = 16"

definition RequestIDFromSlice :: "byte list \<Rightarrow> (v3_err, RequestID) outcome" where
  "RequestIDFromSlice data =
     (if length data \<noteq> datagramRequestIdLen then Err ErrInvalidRequestIDLen
      else Ok (RequestID (get_u64 (take 8 data)) (get_u64 (drop 8 data))))"

definition Compare :: "RequestID \<Rightarrow> RequestID \<Rightarrow> int" where
  "Compare a b =
     (if rid_hi a < rid_hi b then -1
      else if rid_hi b < rid_hi a then 1
      else if rid_lo a < rid_lo b then -1
      else if rid_lo b < rid_lo a then 1
      else 0)"

definition Less :: "RequestID \<Rightarrow> RequestID \<Rightarrow> bool" where
  "Less a b = (Compare a b = -1)"

text \<open>The bytes written into a destination of at least 16 bytes.\<close>

definition request_id_bytes :: "RequestID \<Rightarrow> byte list" where
  "request_id_bytes i = put_u64 (rid_hi i) @ put_u64 (rid_lo i)"

definition MarshalBinaryTo :: "RequestID \<Rightarrow> byte list \<Rightarrow> (v3_err, byte list) outcome" where
  "MarshalBinaryTo i dest =
     (if length dest < datagramRequestIdLen then Err ErrInvalidPayloadDestLen
      else Ok (request_id_bytes i @ drop datagramRequestIdLen dest))"

definition RequestID_UnmarshalBinary :: "byte list \<Rightarrow> (v3_err, RequestID) outcome" where
  "RequestID_UnmarshalBinary data =
     (if length data \<noteq> 16 then Err (ErrInvalidSliceLen (length data))
      else Ok (RequestID (get_u64 (take 8 data)) (get_u64 (drop 8 data))))"

lemma length_request_id_bytes [simp]: "length (request_id_bytes i) = 16"
  by (simp add: request_id_bytes_def)

lemma RequestIDFromSlice_bytes [simp, codec_simps]: "RequestIDFromSlice (request_id_bytes i) = Ok i"
  by (simp add: RequestIDFromSlice_def request_id_bytes_def datagramRequestIdLen_def)

lemma RequestIDFromSlice_Ok:
  "RequestIDFromSlice bs = Ok i \<Longrightarrow> length bs = 16 \<and> request_id_bytes i = bs"
  by (auto simp: RequestIDFromSlice_def request_id_bytes_def datagramRequestIdLen_def put_get_u64
      split: if_splits)

text \<open>\<open>Less\<close> is the strict part of a linear order, that of the 128-bit number.\<close>

definition rid_value :: "RequestID \<Rightarrow> nat" where
  "rid_value i = unat (rid_hi i) * 2 ^ 64 + unat (rid_lo i)"

lemma rid_value_less_iff:
  "rid_value a < rid_value b \<longleftrightarrow>
     rid_hi a < rid_hi b \<or> (rid_hi a = rid_hi b \<and> rid_lo a < rid_lo b)"
proof -
  have la: "unat (rid_lo a) < 2 ^ 64" and lb: "unat (rid_lo b) < 2 ^ 64"
    using unsigned_less [of "rid_lo a", where ?'a = nat] unsigned_less [of "rid_lo b", where ?'a = nat]
    by simp_all
  show ?thesis
  proof (cases "unat (rid_hi a)" "unat (rid_hi b)" rule: linorder_cases)
    case less
    then have "Suc (unat (rid_hi a)) * 2 ^ 64 \<le> unat (rid_hi b) * 2 ^ 64"
      by (intro mult_right_mono) auto
    then show ?thesis using less la by (simp add: rid_value_def word_less_nat_alt)
  next
    case equal
    then have "rid_hi a = rid_hi b" by (simp add: word_unat_eq_iff)
    then show ?thesis by (simp add: rid_value_def word_less_nat_alt)
  next
    case greater
    then have "Suc (unat (rid_hi b)) * 2 ^ 64 \<le> unat (rid_hi a) * 2 ^ 64"
      by (intro mult_right_mono) auto
    then show ?thesis using greater lb by (auto simp: rid_value_def word_less_nat_alt)
  qed
qed

lemma rid_value_eq_iff: "rid_value a = rid_value b \<longleftrightarrow> a = b"
proof
  assume e: "rid_value a = rid_value b"
  have n: "\<not> rid_value a < rid_value b" "\<not> rid_value b < rid_value a" using e by simp_all
  have "rid_hi a = rid_hi b" and "rid_lo a = rid_lo b"
    using n unfolding rid_value_less_iff by auto
  then show "a = b" by (simp add: RequestID.expand)
qed simp

lemma Compare_value:
  "Compare a b = (if rid_value a < rid_value b then -1 else if rid_value b < rid_value a then 1 else 0)"
  unfolding rid_value_less_iff by (auto simp: Compare_def)

instantiation RequestID :: linorder
begin

definition less_eq_RequestID :: "RequestID \<Rightarrow> RequestID \<Rightarrow> bool" where
  "less_eq_RequestID a b = (Compare a b \<noteq> 1)"

definition less_RequestID :: "RequestID \<Rightarrow> RequestID \<Rightarrow> bool" where
  "less_RequestID a b = Less a b"

instance
  by standard
     (auto simp: less_eq_RequestID_def less_RequestID_def Less_def Compare_value rid_value_eq_iff
       split: if_splits)

end

subsection \<open>Datagram types\<close>

definition UDPSessionRegistrationType :: byte where "UDPSessionRegistrationType = 0"
definition UDPSessionPayloadType :: byte where "UDPSessionPayloadType = 1"
definition ICMPType :: byte where "ICMPType = 2"
definition UDPSessionRegistrationResponseType :: byte where "UDPSessionRegistrationResponseType = 3"

lemmas v3_type_defs = UDPSessionRegistrationType_def UDPSessionPayloadType_def ICMPType_def
  UDPSessionRegistrationResponseType_def

definition maxDatagramPayloadLen :: nat where
  "maxDatagramPayloadLen = 1280"

definition ParseDatagramType :: "byte list \<Rightarrow> (v3_err, byte) outcome" where
  "ParseDatagramType data = (case data of [] \<Rightarrow> Err ErrDatagramHeaderTooSmall | b # _ \<Rightarrow> Ok b)"

subsection \<open>Session registration\<close>

record UDPSessionRegistrationDatagram =
  reg_RequestID :: RequestID
  reg_Dest :: addr_port
  reg_Traced :: bool
  reg_IdleDurationHint :: duration
  reg_Payload :: "byte list"

definition sessionRegistrationFlagsIPMask :: byte where "sessionRegistrationFlagsIPMask = 1"
definition sessionRegistrationFlagsTracedMask :: byte where "sessionRegistrationFlagsTracedMask = 2"
definition sessionRegistrationFlagsBundledMask :: byte where "sessionRegistrationFlagsBundledMask = 4"

lemmas v3_flag_defs = sessionRegistrationFlagsIPMask_def sessionRegistrationFlagsTracedMask_def
  sessionRegistrationFlagsBundledMask_def

definition sessionRegistrationIPv4DatagramHeaderLen :: nat where
  "sessionRegistrationIPv4DatagramHeaderLen = 1 + 1 + 2 + 2 + datagramRequestIdLen + 4"

definition sessionRegistrationIPv6DatagramHeaderLen :: nat where
  "sessionRegistrationIPv6DatagramHeaderLen = sessionRegistrationIPv4DatagramHeaderLen + 12"

lemmas v3_len_defs = sessionRegistrationIPv4DatagramHeaderLen_def
  sessionRegistrationIPv6DatagramHeaderLen_def datagramRequestIdLen_def maxDatagramPayloadLen_def

lemma v3_lens [simp]:
  "sessionRegistrationIPv4DatagramHeaderLen = 26"
  "sessionRegistrationIPv6DatagramHeaderLen = 38"
  by (simp_all add: v3_len_defs)

text \<open>
  \<^verbatim>\<open>uint16(d.Seconds())\<close>: the conversion of a float that does not fit is left to the
  implementation by the Go specification and is the argument \<open>cvt\<close>.
\<close>

definition idle_seconds :: "(duration \<Rightarrow> u16) \<Rightarrow> duration \<Rightarrow> u16" where
  "idle_seconds cvt d =
     (if - second_ns < d \<and> d < 65536 * second_ns then word_of_int (if d < 0 then 0 else d div second_ns)
      else cvt d)"

definition copy_padded :: "nat \<Rightarrow> byte list \<Rightarrow> byte list" where
  "copy_padded n bs = take n (bs @ replicate n 0)"

definition registration_flags :: "UDPSessionRegistrationDatagram \<Rightarrow> byte" where
  "registration_flags s =
     (if reg_Traced s then sessionRegistrationFlagsTracedMask else 0)
     OR (if reg_Payload s \<noteq> [] then sessionRegistrationFlagsBundledMask else 0)
     OR (if Is6 (ap_addr (reg_Dest s)) then sessionRegistrationFlagsIPMask else 0)"

definition Registration_MarshalBinary ::
    "(duration \<Rightarrow> u16) \<Rightarrow> UDPSessionRegistrationDatagram \<Rightarrow> (v3_err, byte list) outcome" where
  "Registration_MarshalBinary cvt s =
     (let ipv6 = Is6 (ap_addr (reg_Dest s));
          maxPayloadLen = maxDatagramPayloadLen +
            (if ipv6 then sessionRegistrationIPv6DatagramHeaderLen
             else sessionRegistrationIPv4DatagramHeaderLen)
      in if length (reg_Payload s) > maxPayloadLen then Err (wrapMarshalErr ErrDatagramPayloadTooLarge)
         else Ok ([UDPSessionRegistrationType, registration_flags s]
                  @ put_u16 (ap_port (reg_Dest s))
                  @ put_u16 (idle_seconds cvt (reg_IdleDurationHint s))
                  @ request_id_bytes (reg_RequestID s)
                  @ copy_padded (if ipv6 then 16 else 4) (AsSlice (ap_addr (reg_Dest s)))
                  @ reg_Payload s))"

definition flag_set :: "byte \<Rightarrow> byte \<Rightarrow> bool" where
  "flag_set b m = (b AND m = m)"

definition registration_header_size :: "byte \<Rightarrow> nat" where
  "registration_header_size flags =
     (if flag_set flags sessionRegistrationFlagsIPMask then sessionRegistrationIPv6DatagramHeaderLen
      else sessionRegistrationIPv4DatagramHeaderLen)"

definition registration_dest :: "byte \<Rightarrow> byte list \<Rightarrow> (v3_err, netip_addr) outcome" where
  "registration_dest flags data =
     (if flag_set flags sessionRegistrationFlagsIPMask
      then obind (go_slice 22 38 data) (\<lambda>bs. Ok (Addr6 bs []))
      else obind (go_slice 22 26 data) (\<lambda>bs. Ok (Addr4 bs)))"

definition registration_payload :: "byte \<Rightarrow> byte list \<Rightarrow> byte list" where
  "registration_payload flags data =
     (if flag_set flags sessionRegistrationFlagsBundledMask
         \<and> registration_header_size flags \<le> length data
         \<and> drop (registration_header_size flags) data \<noteq> []
      then drop (registration_header_size flags) data else [])"

definition Registration_UnmarshalBinary ::
    "byte list \<Rightarrow> (v3_err, UDPSessionRegistrationDatagram) outcome" where
  "Registration_UnmarshalBinary data =
     obind (ParseDatagramType data) (\<lambda>datagramType.
     if datagramType \<noteq> UDPSessionRegistrationType then Err (wrapUnmarshalErr ErrInvalidDatagramType)
     else
     obind (go_slice 6 22 data) (\<lambda>id_bytes.
     obind (map_err wrapUnmarshalErr (RequestIDFromSlice id_bytes)) (\<lambda>requestID.
     obind (go_index data 1) (\<lambda>flags.
     obind (go_slice 2 4 data) (\<lambda>port_bytes.
     obind (registration_dest flags data) (\<lambda>addr.
     obind (go_slice 4 6 data) (\<lambda>idle_bytes.
     Ok \<lparr>reg_RequestID = requestID,
         reg_Dest = \<lparr>ap_addr = addr, ap_port = get_u16 port_bytes\<rparr>,
         reg_Traced = flag_set flags sessionRegistrationFlagsTracedMask,
         reg_IdleDurationHint = uint (get_u16 idle_bytes) * second_ns,
         reg_Payload = registration_payload flags data\<rparr>)))))))"

text \<open>The flags byte keeps its three bits apart.\<close>

lemma registration_flags_set:
  "flag_set (registration_flags s) sessionRegistrationFlagsTracedMask = reg_Traced s"
  "flag_set (registration_flags s) sessionRegistrationFlagsBundledMask = (reg_Payload s \<noteq> [])"
  "flag_set (registration_flags s) sessionRegistrationFlagsIPMask = Is6 (ap_addr (reg_Dest s))"
  by (simp_all add: flag_set_def registration_flags_def v3_flag_defs)

lemma length_copy_padded [simp]: "length (copy_padded n bs) = n"
  by (simp add: copy_padded_def)

lemma copy_padded_full: "length bs = n \<Longrightarrow> copy_padded n bs = bs"
  by (simp add: copy_padded_def)

lemma put_get_slices:
  assumes "length a = 2" "length b = 2" "length c = 16"
  shows "go_slice 6 22 (t # f # a @ b @ c @ r) = Ok c"
    and "go_index (t # f # a @ b @ c @ r) 1 = Ok f"
    and "go_slice 2 4 (t # f # a @ b @ c @ r) = Ok a"
    and "go_slice 4 6 (t # f # a @ b @ c @ r) = Ok b"
    and "go_slice 22 (22 + length d) (t # f # a @ b @ c @ d @ r) = Ok d"
    and "drop 22 (t # f # a @ b @ c @ r) = r"
  using assms by (simp_all add: go_slice_def go_index_def)

lemma drop_header:
  assumes "length a = 2" "length b = 2" "length c = 16"
  shows "drop (22 + length d) (t # f # a @ b @ c @ d @ r) = r"
proof -
  define h where "h = t # f # a @ b @ c"
  have "length h = 22" using assms by (simp add: h_def)
  then have "drop (22 + length d) (h @ d @ r) = r" by simp
  then show ?thesis by (simp add: h_def)
qed

text \<open>The messages the client sends: a plain destination of a real address, a hint of whole
  seconds below 2^16 and a payload that fits.\<close>

definition registration_dom :: "UDPSessionRegistrationDatagram \<Rightarrow> bool" where
  "registration_dom s =
     (addr_wf (ap_addr (reg_Dest s))
      \<and> (case ap_addr (reg_Dest s) of ZeroAddr \<Rightarrow> False | Addr4 bs \<Rightarrow> True | Addr6 bs z \<Rightarrow> z = [])
      \<and> 0 \<le> reg_IdleDurationHint s \<and> reg_IdleDurationHint s < 65536 * second_ns
      \<and> reg_IdleDurationHint s mod second_ns = 0
      \<and> length (reg_Payload s) \<le> maxDatagramPayloadLen)"

lemma idle_round_trip:
  assumes "0 \<le> d" "d < 65536 * second_ns" "d mod second_ns = 0"
  shows "uint (get_u16 (put_u16 (idle_seconds cvt d))) * second_ns = d"
proof -
  have "d div second_ns < 65536" using assms by (simp add: second_ns_def)
  moreover have "0 \<le> d div second_ns" using assms by (simp add: second_ns_def)
  ultimately have "uint (word_of_int (d div second_ns) :: u16) = d div second_ns"
    by (simp add: uint_word_of_int)
  then show ?thesis
    using assms mult_div_mod_eq [of second_ns d] by (simp add: idle_seconds_def second_ns_def)
qed

lemma registration_decode:
  assumes "length d = (if flag_set f sessionRegistrationFlagsIPMask then 16 else 4)"
  shows "Registration_UnmarshalBinary
      (UDPSessionRegistrationType # f # put_u16 p @ put_u16 i @ request_id_bytes rid @ d @ r)
    = Ok \<lparr>reg_RequestID = rid,
         reg_Dest = \<lparr>ap_addr = (if flag_set f sessionRegistrationFlagsIPMask then Addr6 d [] else Addr4 d),
                     ap_port = p\<rparr>,
         reg_Traced = flag_set f sessionRegistrationFlagsTracedMask,
         reg_IdleDurationHint = uint i * second_ns,
         reg_Payload = (if flag_set f sessionRegistrationFlagsBundledMask then r else [])\<rparr>"
proof -
  let ?m = "UDPSessionRegistrationType # f # put_u16 p @ put_u16 i @ request_id_bytes rid @ d @ r"
  note L = length_put(1) length_put(1) length_request_id_bytes
  have e: "go_slice 6 22 ?m = Ok (request_id_bytes rid)" "go_index ?m 1 = Ok f"
    "go_slice 2 4 ?m = Ok (put_u16 p)" "go_slice 4 6 ?m = Ok (put_u16 i)"
    by (simp_all add: go_slice_def go_index_def)
  have a: "go_slice 22 (22 + length d) ?m = Ok d" by (rule put_get_slices(5) [OF L])
  have t: "drop (22 + length d) ?m = r" by (rule drop_header [OF L])
  have t': "ParseDatagramType ?m = Ok UDPSessionRegistrationType" by (simp add: ParseDatagramType_def)
  have h: "registration_header_size f = 22 + length d"
    using assms by (simp add: registration_header_size_def)
  have ad: "registration_dest f ?m
      = Ok (if flag_set f sessionRegistrationFlagsIPMask then Addr6 d [] else Addr4 d)"
  proof (cases "flag_set f sessionRegistrationFlagsIPMask")
    case True
    with assms a have g: "go_slice 22 38 ?m = Ok d" by simp
    show ?thesis using True by (simp only: registration_dest_def if_True obind.simps g)
  next
    case False
    with assms a have g: "go_slice 22 26 ?m = Ok d" by simp
    show ?thesis using False by (simp only: registration_dest_def if_False obind.simps g)
  qed
  have pl: "registration_payload f ?m = (if flag_set f sessionRegistrationFlagsBundledMask then r else [])"
    by (simp only: registration_payload_def h t) (simp add: assms)
  show ?thesis
    by (simp only: Registration_UnmarshalBinary_def t' e ad pl obind.simps map_err_simps
        RequestIDFromSlice_bytes get_put_u16) simp
qed

lemma registration_round_trip:
  assumes "registration_dom s"
  shows "\<exists>bs. Registration_MarshalBinary cvt s = Ok bs \<and> Registration_UnmarshalBinary bs = Ok s"
proof -
  let ?a = "ap_addr (reg_Dest s)"
  let ?d = "copy_padded (if Is6 ?a then 16 else 4) (AsSlice ?a)"
  have len: "\<not> length (reg_Payload s) > maxDatagramPayloadLen + k" for k
    using assms by (simp add: registration_dom_def)
  have d: "length ?d = (if flag_set (registration_flags s) sessionRegistrationFlagsIPMask then 16 else 4)"
    by (simp add: registration_flags_set)
  have a: "(if Is6 ?a then Addr6 ?d [] else Addr4 ?d) = ?a"
    using assms by (cases ?a) (simp_all add: registration_dom_def copy_padded_full)
  have i: "uint (idle_seconds cvt (reg_IdleDurationHint s)) * second_ns = reg_IdleDurationHint s"
    using idle_round_trip assms by (simp add: registration_dom_def)
  have "Registration_MarshalBinary cvt s = Ok (UDPSessionRegistrationType # registration_flags s
      # put_u16 (ap_port (reg_Dest s)) @ put_u16 (idle_seconds cvt (reg_IdleDurationHint s))
      @ request_id_bytes (reg_RequestID s) @ ?d @ reg_Payload s)"
    using len by (simp add: Registration_MarshalBinary_def Let_def)
  then show ?thesis
    using registration_decode [OF d, of "ap_port (reg_Dest s)"
        "idle_seconds cvt (reg_IdleDurationHint s)" "reg_RequestID s" "reg_Payload s"] a i
    by (simp add: registration_flags_set)
qed

lemma Registration_UnmarshalBinary_tag:
  "Registration_UnmarshalBinary bs = Ok x \<Longrightarrow> bs \<noteq> [] \<and> hd bs = UDPSessionRegistrationType"
  by (cases bs) (auto simp: Registration_UnmarshalBinary_def ParseDatagramType_def split: if_splits)

text \<open>When decoding panics: the datagram is of the registration type and shorter than the
  header its flags announce.\<close>

lemma registration_panic_iff:
  "Registration_UnmarshalBinary data = Panic \<longleftrightarrow>
     data \<noteq> [] \<and> hd data = UDPSessionRegistrationType \<and>
     length data < (if 22 \<le> length data \<and> flag_set (data ! 1) sessionRegistrationFlagsIPMask then 38 else 26)"
proof (cases "data \<noteq> [] \<and> hd data = UDPSessionRegistrationType")
  case False
  then show ?thesis
    by (cases data) (auto simp: Registration_UnmarshalBinary_def ParseDatagramType_def)
next
  case True
  then have t: "ParseDatagramType data = Ok UDPSessionRegistrationType"
    by (cases data) (simp_all add: ParseDatagramType_def)
  show ?thesis
  proof (cases "22 \<le> length data")
    case False
    then show ?thesis
      using True by (simp add: Registration_UnmarshalBinary_def t go_slice_def)
  next
    case True
    then have s: "go_slice 6 22 data = Ok (take 16 (drop 6 data))"
      "go_slice 2 4 data = Ok (take 2 (drop 2 data))"
      "go_slice 4 6 data = Ok (take 2 (drop 4 data))" "go_index data (Suc 0) = Ok (data ! Suc 0)"
      by (simp_all add: go_slice_def go_index_def)
    have r: "\<exists>i. RequestIDFromSlice (take 16 (drop 6 data)) = Ok i"
      using True by (simp add: RequestIDFromSlice_def datagramRequestIdLen_def)
    show ?thesis
      using True \<open>data \<noteq> [] \<and> hd data = UDPSessionRegistrationType\<close> r
      by (auto simp: Registration_UnmarshalBinary_def t s registration_dest_def go_slice_def)
  qed
qed

subsection \<open>Session payload\<close>

record UDPSessionPayloadDatagram =
  pay_RequestID :: RequestID
  pay_Payload :: "byte list"

definition DatagramPayloadHeaderLen :: nat where
  "DatagramPayloadHeaderLen = 1 + datagramRequestIdLen"

definition maxPayloadPlusHeaderLen :: nat where
  "maxPayloadPlusHeaderLen = maxDatagramPayloadLen + DatagramPayloadHeaderLen"

lemma payload_lens [simp]: "DatagramPayloadHeaderLen = 17" "maxPayloadPlusHeaderLen = 1297"
  by (simp_all add: DatagramPayloadHeaderLen_def maxPayloadPlusHeaderLen_def datagramRequestIdLen_def
      maxDatagramPayloadLen_def)

text \<open>The destination after the call: the header is written over its first 17 bytes.\<close>

definition MarshalPayloadHeaderTo :: "RequestID \<Rightarrow> byte list \<Rightarrow> (v3_err, byte list) outcome" where
  "MarshalPayloadHeaderTo requestID payload =
     (if length payload < DatagramPayloadHeaderLen
      then Err (wrapMarshalErr ErrDatagramPayloadHeaderTooSmall)
      else obind (MarshalBinaryTo requestID (take 16 (drop 1 payload)))
             (\<lambda>bs. Ok (UDPSessionPayloadType # bs @ drop DatagramPayloadHeaderLen payload)))"

definition Payload_UnmarshalBinary :: "byte list \<Rightarrow> (v3_err, UDPSessionPayloadDatagram) outcome" where
  "Payload_UnmarshalBinary data =
     obind (ParseDatagramType data) (\<lambda>datagramType.
     if datagramType \<noteq> UDPSessionPayloadType then Err (wrapUnmarshalErr ErrInvalidDatagramType)
     else if length data < DatagramPayloadHeaderLen \<or> length data > maxPayloadPlusHeaderLen
     then Err (wrapUnmarshalErr ErrDatagramPayloadInvalidSize)
     else obind (go_slice 1 DatagramPayloadHeaderLen data) (\<lambda>id_bytes.
          obind (map_err wrapUnmarshalErr (RequestIDFromSlice id_bytes)) (\<lambda>requestID.
          Ok \<lparr>pay_RequestID = requestID, pay_Payload = drop DatagramPayloadHeaderLen data\<rparr>)))"

lemma MarshalPayloadHeaderTo_Ok:
  assumes "17 \<le> length buf"
  shows "MarshalPayloadHeaderTo i buf
    = Ok (UDPSessionPayloadType # request_id_bytes i @ drop 17 buf)"
  using assms by (simp add: MarshalPayloadHeaderTo_def MarshalBinaryTo_def datagramRequestIdLen_def)

lemma Payload_UnmarshalBinary_header:
  assumes "length p \<le> 1280"
  shows "Payload_UnmarshalBinary (UDPSessionPayloadType # request_id_bytes i @ p)
    = Ok \<lparr>pay_RequestID = i, pay_Payload = p\<rparr>"
  using assms by (simp add: Payload_UnmarshalBinary_def ParseDatagramType_def go_slice_def)

lemma Payload_UnmarshalBinary_Ok:
  assumes "Payload_UnmarshalBinary data = Ok s"
  shows "data = UDPSessionPayloadType # request_id_bytes (pay_RequestID s) @ pay_Payload s
    \<and> length (pay_Payload s) \<le> 1280"
proof (cases data)
  case Nil
  then show ?thesis using assms by (simp add: Payload_UnmarshalBinary_def ParseDatagramType_def)
next
  case (Cons b r)
  then have l: "16 \<le> length r" "length r \<le> 1296" and b: "b = UDPSessionPayloadType"
    using assms by (auto simp: Payload_UnmarshalBinary_def ParseDatagramType_def split: if_splits)
  then obtain i where i: "RequestIDFromSlice (take 16 r) = Ok i"
      and s: "s = \<lparr>pay_RequestID = i, pay_Payload = drop 16 r\<rparr>"
    using assms Cons
    by (cases "RequestIDFromSlice (take 16 r)")
       (auto simp: Payload_UnmarshalBinary_def ParseDatagramType_def go_slice_def)
  then show ?thesis
    using l b Cons RequestIDFromSlice_Ok [OF i] by simp
qed

lemma Payload_UnmarshalBinary_no_panic: "Payload_UnmarshalBinary data \<noteq> Panic"
  by (auto simp: Payload_UnmarshalBinary_def ParseDatagramType_def go_slice_def RequestIDFromSlice_def
      datagramRequestIdLen_def split: list.splits)

subsection \<open>Session registration response\<close>

text \<open>\<^verbatim>\<open>SessionRegistrationResp\<close> is a byte; the named responses are constants.\<close>

type_synonym SessionRegistrationResp = byte

definition ResponseOk :: SessionRegistrationResp where "ResponseOk = 0x00"
definition ResponseDestinationUnreachable :: SessionRegistrationResp where
  "ResponseDestinationUnreachable = 0x01"
definition ResponseUnableToBindSocket :: SessionRegistrationResp where
  "ResponseUnableToBindSocket = 0x02"
definition ResponseTooManyActiveFlows :: SessionRegistrationResp where
  "ResponseTooManyActiveFlows = 0x03"
definition ResponseErrorWithMsg :: SessionRegistrationResp where "ResponseErrorWithMsg = 0xff"

record UDPSessionRegistrationResponseDatagram =
  resp_RequestID :: RequestID
  resp_ResponseType :: SessionRegistrationResp
  resp_ErrorMsg :: "byte list"

definition datagramSessionRegistrationResponseLen :: nat where
  "datagramSessionRegistrationResponseLen = 1 + 1 + datagramRequestIdLen + 2"

definition maxResponseErrorMessageLen :: nat where
  "maxResponseErrorMessageLen = maxDatagramPayloadLen - datagramSessionRegistrationResponseLen"

lemma response_lens [simp]:
  "datagramSessionRegistrationResponseLen = 20" "maxResponseErrorMessageLen = 1260"
  by (simp_all add: datagramSessionRegistrationResponseLen_def maxResponseErrorMessageLen_def
      datagramRequestIdLen_def maxDatagramPayloadLen_def)

definition Response_MarshalBinary ::
    "UDPSessionRegistrationResponseDatagram \<Rightarrow> (v3_err, byte list) outcome" where
  "Response_MarshalBinary s =
     (if length (resp_ErrorMsg s) > maxResponseErrorMessageLen
      then Err (wrapMarshalErr ErrDatagramResponseMsgInvalidSize)
      else let errMsgLen = (word_of_nat (length (resp_ErrorMsg s)) :: u16)
           in Ok ([UDPSessionRegistrationResponseType, resp_ResponseType s]
                  @ request_id_bytes (resp_RequestID s)
                  @ (if errMsgLen > 0 then put_u16 errMsgLen @ resp_ErrorMsg s else [0, 0])))"

definition Response_UnmarshalBinary ::
    "byte list \<Rightarrow> (v3_err, UDPSessionRegistrationResponseDatagram) outcome" where
  "Response_UnmarshalBinary data =
     obind (map_err wrapUnmarshalErr (ParseDatagramType data)) (\<lambda>datagramType.
     if datagramType \<noteq> UDPSessionRegistrationResponseType
     then Err (wrapUnmarshalErr ErrInvalidDatagramType)
     else if length data < datagramSessionRegistrationResponseLen
     then Err (wrapUnmarshalErr ErrDatagramResponseInvalidSize)
     else obind (go_index data 1) (\<lambda>respType.
     obind (go_slice 2 18 data) (\<lambda>id_bytes.
     obind (map_err wrapUnmarshalErr (RequestIDFromSlice id_bytes)) (\<lambda>requestID.
     obind (go_slice 18 20 data) (\<lambda>len_bytes.
     let errMsgLen = unat (get_u16 len_bytes) in
     if errMsgLen > maxResponseErrorMessageLen
     then Err (wrapUnmarshalErr ErrDatagramResponseMsgTooLargeMaximum)
     else if length (drop 20 data) < errMsgLen
     then Err (wrapUnmarshalErr ErrDatagramResponseMsgTooLargeDatagram)
     else Ok \<lparr>resp_RequestID = requestID, resp_ResponseType = respType,
              resp_ErrorMsg = (if errMsgLen > 0 then drop 20 data else [])\<rparr>)))))"

lemma Response_UnmarshalBinary_bytes:
  assumes "unat n \<le> 1260"
  shows "Response_UnmarshalBinary
      (UDPSessionRegistrationResponseType # t # request_id_bytes i @ put_u16 n @ m)
    = (if length m < unat n then Err (wrapUnmarshalErr ErrDatagramResponseMsgTooLargeDatagram)
       else Ok \<lparr>resp_RequestID = i, resp_ResponseType = t,
               resp_ErrorMsg = (if unat n > 0 then m else [])\<rparr>)"
  using assms
  by (simp add: Response_UnmarshalBinary_def ParseDatagramType_def go_slice_def go_index_def Let_def)

definition response_dom :: "UDPSessionRegistrationResponseDatagram \<Rightarrow> bool" where
  "response_dom s = (length (resp_ErrorMsg s) \<le> maxResponseErrorMessageLen)"

lemma Response_round_trip:
  assumes "response_dom s"
  shows "\<exists>bs. Response_MarshalBinary s = Ok bs \<and> Response_UnmarshalBinary bs = Ok s"
proof -
  let ?n = "word_of_nat (length (resp_ErrorMsg s)) :: u16"
  have l: "length (resp_ErrorMsg s) \<le> 1260" using assms by (simp add: response_dom_def)
  then have u: "unat ?n = length (resp_ErrorMsg s)" by (simp add: unat_of_nat)
  have z: "(0::u16) < ?n \<longleftrightarrow> resp_ErrorMsg s \<noteq> []" using u by (simp add: word_less_nat_alt)
  have p0: "put_u16 0 = [0, 0]" by (simp add: put_u16_def numeral_2_eq_2)
  have "Response_MarshalBinary s = Ok (UDPSessionRegistrationResponseType # resp_ResponseType s
      # request_id_bytes (resp_RequestID s) @ put_u16 ?n @ resp_ErrorMsg s)"
    using l z p0 by (auto simp: Response_MarshalBinary_def Let_def)
  then show ?thesis
    using Response_UnmarshalBinary_bytes [of ?n "resp_ResponseType s" "resp_RequestID s" "resp_ErrorMsg s"]
      u l by simp
qed

lemma Response_UnmarshalBinary_tag:
  "Response_UnmarshalBinary bs = Ok x \<Longrightarrow> bs \<noteq> [] \<and> hd bs = UDPSessionRegistrationResponseType"
  by (cases bs) (auto simp: Response_UnmarshalBinary_def ParseDatagramType_def split: if_splits)

subsection \<open>ICMP\<close>

record ICMPDatagram =
  icmp_Payload :: "byte list"

definition maxICMPPayloadLen :: nat where
  "maxICMPPayloadLen = maxDatagramPayloadLen"

definition ICMP_MarshalBinary :: "ICMPDatagram \<Rightarrow> (v3_err, byte list) outcome" where
  "ICMP_MarshalBinary d =
     (if length (icmp_Payload d) > maxICMPPayloadLen
      then Err (wrapMarshalErr ErrDatagramICMPPayloadTooLarge)
      else if length (icmp_Payload d) = 0 then Err (wrapMarshalErr ErrDatagramICMPPayloadMissing)
      else Ok (ICMPType # icmp_Payload d))"

definition ICMP_UnmarshalBinary :: "byte list \<Rightarrow> (v3_err, ICMPDatagram) outcome" where
  "ICMP_UnmarshalBinary data =
     obind (map_err wrapUnmarshalErr (ParseDatagramType data)) (\<lambda>datagramType.
     if datagramType \<noteq> ICMPType then Err (wrapUnmarshalErr ErrInvalidDatagramType)
     else if length (drop 1 data) > maxDatagramPayloadLen
     then Err (wrapUnmarshalErr ErrDatagramICMPPayloadTooLarge)
     else if length (drop 1 data) = 0 then Err (wrapUnmarshalErr ErrDatagramICMPPayloadMissing)
     else Ok \<lparr>icmp_Payload = drop 1 data\<rparr>)"

definition icmp_dom :: "ICMPDatagram \<Rightarrow> bool" where
  "icmp_dom d = (icmp_Payload d \<noteq> [] \<and> length (icmp_Payload d) \<le> maxDatagramPayloadLen)"

lemma ICMP_round_trip:
  "icmp_dom d \<Longrightarrow> \<exists>bs. ICMP_MarshalBinary d = Ok bs \<and> ICMP_UnmarshalBinary bs = Ok d"
  by (simp add: icmp_dom_def ICMP_MarshalBinary_def ICMP_UnmarshalBinary_def ParseDatagramType_def
      maxICMPPayloadLen_def)

lemma ICMP_UnmarshalBinary_tag:
  "ICMP_UnmarshalBinary bs = Ok x \<Longrightarrow> bs \<noteq> [] \<and> hd bs = ICMPType"
  by (cases bs) (auto simp: ICMP_UnmarshalBinary_def ParseDatagramType_def split: if_splits)

subsection \<open>The datagrams are tagged codecs\<close>

interpretation reg: tagged_codec "Registration_MarshalBinary cvt" Registration_UnmarshalBinary
    registration_dom UDPSessionRegistrationType for cvt
  by unfold_locales (use registration_round_trip Registration_UnmarshalBinary_tag in auto)

interpretation resp: tagged_codec Response_MarshalBinary Response_UnmarshalBinary response_dom
    UDPSessionRegistrationResponseType
  by unfold_locales (use Response_round_trip Response_UnmarshalBinary_tag in auto)

interpretation icmp: tagged_codec ICMP_MarshalBinary ICMP_UnmarshalBinary icmp_dom ICMPType
  by unfold_locales (use ICMP_round_trip ICMP_UnmarshalBinary_tag in auto)

subsection \<open>Properties\<close>

text \<open>C1. Registration round trip: a registration datagram to a real IPv4 or zone-less IPv6
  destination, with an idle hint of whole seconds below 2^16 and at most 1280 bundled bytes, is
  encoded without error whatever the platform's float conversion does out of range, and decoding
  the bytes gives the datagram back.\<close>

theorem registration_codec:
  assumes "registration_dom s"
  shows "\<exists>bs. Registration_MarshalBinary cvt s = Ok bs \<and> Registration_UnmarshalBinary bs = Ok s"
  using assms by (rule reg.round_trip)

definition sample_registration :: UDPSessionRegistrationDatagram where
  "sample_registration = \<lparr>reg_RequestID = RequestID 7 9,
     reg_Dest = \<lparr>ap_addr = Addr4 [10, 0, 0, 1], ap_port = 53\<rparr>, reg_Traced = True,
     reg_IdleDurationHint = 5 * second_ns, reg_Payload = [1, 2]\<rparr>"

theorem registration_codec_witness:
  "\<exists>bs. Registration_MarshalBinary (\<lambda>d. 0) sample_registration = Ok bs
     \<and> Registration_UnmarshalBinary bs = Ok sample_registration"
  by (rule registration_codec)
     (simp add: sample_registration_def registration_dom_def second_ns_def maxDatagramPayloadLen_def)

text \<open>C2. Decoding a registration panics exactly on a datagram of the registration type that is
  shorter than the fixed header its own flags announce (26 bytes, or 38 with the IPv6 flag); the
  decoder has no length check before it slices, so such a datagram from the peer ends the
  process.\<close>

theorem registration_decode_panics_iff:
  "Registration_UnmarshalBinary data = Panic \<longleftrightarrow>
     data \<noteq> [] \<and> hd data = UDPSessionRegistrationType
     \<and> length data < (if 22 \<le> length data \<and> flag_set (data ! 1) sessionRegistrationFlagsIPMask
                      then sessionRegistrationIPv6DatagramHeaderLen
                      else sessionRegistrationIPv4DatagramHeaderLen)"
  by (simp add: registration_panic_iff)

text \<open>C4. The payload decoder accepts exactly the well-formed datagrams: it never panics and it
  returns s exactly when the bytes are the payload type, the sixteen bytes of the request
  identifier and a payload of at most 1280 bytes.\<close>

theorem payload_decode_exact:
  "Payload_UnmarshalBinary data \<noteq> Panic \<and>
   (Payload_UnmarshalBinary data = Ok s \<longleftrightarrow>
      data = UDPSessionPayloadType # request_id_bytes (pay_RequestID s) @ pay_Payload s
      \<and> length (pay_Payload s) \<le> maxDatagramPayloadLen)"
  using Payload_UnmarshalBinary_no_panic Payload_UnmarshalBinary_Ok [of data s]
    Payload_UnmarshalBinary_header [of "pay_Payload s" "pay_RequestID s"]
  by (auto simp: maxDatagramPayloadLen_def)

text \<open>In-place framing of origin data: writing the header for a request into a buffer whose
  tail from byte 17 holds a packet of at most 1280 bytes gives a datagram that decodes to that
  request and that packet.\<close>

theorem payload_header_framing:
  assumes "length h = DatagramPayloadHeaderLen" and "length p \<le> maxDatagramPayloadLen"
  shows "\<exists>d. MarshalPayloadHeaderTo i (h @ p) = Ok d \<and> length d = length (h @ p)
    \<and> Payload_UnmarshalBinary d = Ok \<lparr>pay_RequestID = i, pay_Payload = p\<rparr>"
  using assms
  by (simp add: MarshalPayloadHeaderTo_Ok Payload_UnmarshalBinary_header maxDatagramPayloadLen_def)

theorem payload_header_framing_witness:
  "\<exists>d. MarshalPayloadHeaderTo (RequestID 1 2) (replicate 17 0 @ [5]) = Ok d
     \<and> Payload_UnmarshalBinary d = Ok \<lparr>pay_RequestID = RequestID 1 2, pay_Payload = [5]\<rparr>"
  using payload_header_framing [of "replicate 17 0" "[5]" "RequestID 1 2"]
  by (auto simp: maxDatagramPayloadLen_def)

text \<open>C35. Registration responses: every response whose error message has at most 1260 bytes
  survives encoding and decoding, and a longer message is refused by the encoder.\<close>

theorem response_codec:
  "if length (resp_ErrorMsg s) \<le> maxResponseErrorMessageLen
   then \<exists>bs. Response_MarshalBinary s = Ok bs \<and> length bs = 20 + length (resp_ErrorMsg s)
          \<and> Response_UnmarshalBinary bs = Ok s
   else Response_MarshalBinary s = Err (MarshalErr ErrDatagramResponseMsgInvalidSize)"
proof (cases "response_dom s")
  case True
  then obtain bs where bs: "Response_MarshalBinary s = Ok bs" "Response_UnmarshalBinary bs = Ok s"
    using resp.round_trip by blast
  have u: "unat (word_of_nat (length (resp_ErrorMsg s)) :: u16) = length (resp_ErrorMsg s)"
    using True by (simp add: response_dom_def unat_of_nat)
  then have "length bs = 20 + length (resp_ErrorMsg s)"
    using bs(1) True
    by (auto simp: Response_MarshalBinary_def response_dom_def Let_def word_less_nat_alt
        split: if_splits)
  with bs True show ?thesis by (simp add: response_dom_def)
next
  case False
  then show ?thesis
    by (simp add: response_dom_def Response_MarshalBinary_def wrapMarshalErr_def)
qed

text \<open>The response decoder checks the declared length of the error message but does not use
  it: with a declared length between 1 and 1260 the message returned is everything after the
  header, however much longer than declared.\<close>

theorem response_decode_ignores_length:
  assumes "0 < unat n" and "unat n \<le> maxResponseErrorMessageLen" and "unat n \<le> length m"
  shows "Response_UnmarshalBinary
      (UDPSessionRegistrationResponseType # t # request_id_bytes i @ put_u16 n @ m)
    = Ok \<lparr>resp_RequestID = i, resp_ResponseType = t, resp_ErrorMsg = m\<rparr>"
  using assms Response_UnmarshalBinary_bytes [of n t i m] by simp

theorem response_decode_ignores_length_witness:
  "Response_UnmarshalBinary
      (UDPSessionRegistrationResponseType # 255 # request_id_bytes (RequestID 0 1) @ put_u16 1 @ [65, 66])
    = Ok \<lparr>resp_RequestID = RequestID 0 1, resp_ResponseType = 255, resp_ErrorMsg = [65, 66]\<rparr>"
  by (rule response_decode_ignores_length) simp_all

text \<open>Request identifiers are ordered as 128-bit numbers: Compare is negative, positive or
  zero exactly as the high-word-first values compare, it is zero only for equal identifiers and
  it changes sign when the arguments are swapped.\<close>

theorem request_id_compare:
  "Compare a b = (if rid_value a < rid_value b then -1 else if rid_value b < rid_value a then 1 else 0)
   \<and> (Compare a b = 0 \<longleftrightarrow> a = b) \<and> Compare b a = - Compare a b"
  using rid_value_eq_iff [of a b] by (auto simp: Compare_value split: if_splits)

end
