(* ===== verification/Session_V3.thy ===== *)
theory Session_V3
  imports Datagram_V3 "HOL-Library.Sublist"
begin

text \<open>
  \<^verbatim>\<open>quic/v3/session.go\<close>: one UDP session.  The goroutines of a session (the read loop, the write
  loop, the close watcher, and the callers of Write, Migrate, ResetIdleTimer and Close) share the
  state \<open>session\<close>; an iteration of a loop or a channel operation is one atomic event, and
  \<open>session_event\<close> gives the state after it, or \<open>None\<close> when the event cannot happen in that
  state (a receive from an empty channel, a loop that has ended).  The results of the socket and of
  the QUIC connection are arguments of the events.
\<close>

subsection \<open>State\<close>

datatype sess_err =
    SessionCloseErr
  | SessionIdleErr duration
  | ContextErr nat
  | NetErrClosed
  | IoEOF
  | IoErrUnexpectedEOF
  | OsErrDeadlineExceeded
  | OtherIOErr nat

datatype watcher = NotServing | Watching int | Returned sess_err

text \<open>
  \<open>sn_ctx\<close> is the connection context the watcher observes, \<open>sn_ctxSends\<close> the migrations blocked on
  the unbuffered context channel, \<open>sn_unblocked\<close> those whose send was received and that still have
  to mark the session active.  \<open>sn_watcher\<close> holds the deadline of the idle timer.  The last fields
  are what the session did to the outside: datagrams handed to connections, payloads handed to
  the origin socket, closes of the socket, metric counters.
\<close>

record session =
  sn_id :: RequestID
  sn_closeAfterIdle :: duration
  sn_eyeball :: byte
  sn_writeChan :: "byte list list"
  sn_activeAtChan :: "int list"
  sn_errChan :: "sess_err list"
  sn_closeWrite :: bool
  sn_ctxSends :: "nat list"
  sn_unblocked :: nat
  sn_ctx :: nat
  sn_reading :: bool
  sn_writing :: bool
  sn_watcher :: watcher
  sn_sent :: "(byte \<times> byte list) list"
  sn_originWrites :: "byte list list"
  sn_originCloses :: nat
  sn_dropped :: nat
  sn_migrated :: nat

definition defaultCloseIdleAfter :: duration where
  "defaultCloseIdleAfter = 210 * second_ns"

definition maxOriginUDPPacketSize :: nat where
  "maxOriginUDPPacketSize = 1500"

definition writeChanCapacity :: nat where
  "writeChanCapacity = 512"

definition errChanCapacity :: nat where
  "errChanCapacity = 3"

definition isConnectionClosed :: "sess_err \<Rightarrow> bool" where
  "isConnectionClosed e = (e = NetErrClosed \<or> e = IoEOF \<or> e = IoErrUnexpectedEOF)"

definition idle_after :: "duration \<Rightarrow> duration" where
  "idle_after d = (if d = 0 then defaultCloseIdleAfter else d)"

definition NewSession :: "RequestID \<Rightarrow> duration \<Rightarrow> byte \<Rightarrow> session" where
  "NewSession i idle eyeball =
     \<lparr>sn_id = i, sn_closeAfterIdle = idle, sn_eyeball = eyeball, sn_writeChan = [],
      sn_activeAtChan = [], sn_errChan = [], sn_closeWrite = False, sn_ctxSends = [],
      sn_unblocked = 0, sn_ctx = 0, sn_reading = False, sn_writing = False,
      sn_watcher = NotServing, sn_sent = [], sn_originWrites = [],
      sn_originCloses = 0, sn_dropped = 0, sn_migrated = 0\<rparr>"

subsection \<open>Operations\<close>

text \<open>Serve starts the two loops and the watcher, whose idle timer is armed at time \<open>now\<close>.\<close>

definition Serve :: "nat \<Rightarrow> int \<Rightarrow> session \<Rightarrow> session" where
  "Serve ctx now s = s\<lparr>sn_ctx := ctx, sn_reading := True, sn_writing := True,
     sn_watcher := Watching (now + idle_after (sn_closeAfterIdle s))\<rparr>"

definition markActive :: "int \<Rightarrow> session \<Rightarrow> session" where
  "markActive now s = (if sn_activeAtChan s = [] then s\<lparr>sn_activeAtChan := [now]\<rparr> else s)"

definition ResetIdleTimer :: "int \<Rightarrow> session \<Rightarrow> session" where
  "ResetIdleTimer now s = markActive now s"

definition closeSession :: "sess_err \<Rightarrow> session \<Rightarrow> session" where
  "closeSession e s =
     (if length (sn_errChan s) < errChanCapacity then s\<lparr>sn_errChan := sn_errChan s @ [e]\<rparr> else s)"

text \<open>\<^verbatim>\<open>closeFn\<close> is wrapped in \<^verbatim>\<open>sync.OnceValue\<close>: only the first call runs it.\<close>

definition closeFn :: "session \<Rightarrow> session" where
  "closeFn s = (closeSession SessionCloseErr s)\<lparr>sn_closeWrite := True,
                 sn_originCloses := sn_originCloses s + 1\<rparr>"

definition Close :: "session \<Rightarrow> session" where
  "Close s = (if sn_closeWrite s then s else closeFn s)"

definition Write :: "byte list \<Rightarrow> session \<Rightarrow> session" where
  "Write payload s =
     (if length (sn_writeChan s) < writeChanCapacity
      then s\<lparr>sn_writeChan := sn_writeChan s @ [payload]\<rparr>
      else s\<lparr>sn_dropped := sn_dropped s + 1\<rparr>)"

definition finish_migration :: "int \<Rightarrow> session \<Rightarrow> session" where
  "finish_migration now s = (markActive now s)\<lparr>sn_migrated := sn_migrated s + 1\<rparr>"

definition Migrate :: "byte \<Rightarrow> nat \<Rightarrow> int \<Rightarrow> session \<Rightarrow> session" where
  "Migrate eyeball ctx now s =
     (if sn_eyeball s \<noteq> eyeball
      then s\<lparr>sn_eyeball := eyeball, sn_ctxSends := sn_ctxSends s @ [ctx]\<rparr>
      else finish_migration now s)"

text \<open>One iteration of the read loop: the result of the socket read, then that of the send.\<close>

text \<open>A read gives an error, a negative count, or that many bytes.\<close>

datatype read_result = ReadErr sess_err | ReadNegative | ReadBytes "byte list"

definition read_header :: "session \<Rightarrow> byte list" where
  "read_header s = (case MarshalPayloadHeaderTo (sn_id s) (replicate DatagramPayloadHeaderLen 0) of
      Ok h \<Rightarrow> h | _ \<Rightarrow> replicate DatagramPayloadHeaderLen 0)"

definition readLoop :: "read_result \<Rightarrow> sess_err option \<Rightarrow> int \<Rightarrow> session \<Rightarrow> session" where
  "readLoop r send_result now s =
     (case r of
        ReadErr e \<Rightarrow> (closeSession e s)\<lparr>sn_reading := False\<rparr>
      | ReadNegative \<Rightarrow> s\<lparr>sn_dropped := sn_dropped s + 1\<rparr>
      | ReadBytes bs \<Rightarrow>
          if length bs > maxDatagramPayloadLen then s\<lparr>sn_dropped := sn_dropped s + 1\<rparr>
          else let s' = s\<lparr>sn_sent := sn_sent s @ [(sn_eyeball s, read_header s @ bs)]\<rparr>
               in case send_result of
                    Some e \<Rightarrow> (closeSession e s')\<lparr>sn_reading := False\<rparr>
                  | None \<Rightarrow> markActive now s')"

text \<open>One iteration of the write loop: the closed signal, or a payload and the result of the
  write to the origin, an error or the number of bytes written.\<close>

definition writeLoop :: "sess_err + int \<Rightarrow> int \<Rightarrow> session \<Rightarrow> session" where
  "writeLoop r now s =
     (case sn_writeChan s of
        [] \<Rightarrow> s
      | payload # rest \<Rightarrow>
          let s' = s\<lparr>sn_writeChan := rest, sn_originWrites := sn_originWrites s @ [payload]\<rparr>
          in case r of
               Inl e \<Rightarrow> if e = OsErrDeadlineExceeded then s'\<lparr>sn_dropped := sn_dropped s + 1\<rparr>
                        else (closeSession e s')\<lparr>sn_writing := False\<rparr>
             | Inr n \<Rightarrow> if n < int (length payload) then s'\<lparr>sn_dropped := sn_dropped s + 1\<rparr>
                        else markActive now s')"

text \<open>The watcher returns a reason and its deferred \<^verbatim>\<open>Close\<close> runs.\<close>

definition watcher_return :: "sess_err \<Rightarrow> session \<Rightarrow> session" where
  "watcher_return e s = Close (s\<lparr>sn_watcher := Returned e\<rparr>)"

datatype session_ev =
    EvServe nat int
  | EvWrite "byte list"
  | EvMigrate byte nat int
  | EvMigrateEnd int
  | EvReset int
  | EvClose
  | EvRead read_result "sess_err option" int
  | EvWriteLoop "sess_err + int" int
  | EvWriteLoopClosed
  | EvCtxDone
  | EvNewContext
  | EvErr
  | EvTimer int
  | EvActive int

text \<open>The five cases of the watcher's \<^verbatim>\<open>select\<close>.\<close>

definition waitForCloseCondition :: "session_ev \<Rightarrow> session \<Rightarrow> session option" where
  "waitForCloseCondition ev s =
     (case sn_watcher s of
        NotServing \<Rightarrow> None
      | Returned e \<Rightarrow> None
      | Watching deadline \<Rightarrow>
          (case ev of
             EvCtxDone \<Rightarrow> Some (watcher_return (ContextErr (sn_ctx s)) s)
           | EvNewContext \<Rightarrow>
               (case sn_ctxSends s of
                  [] \<Rightarrow> None
                | c # cs \<Rightarrow> Some (s\<lparr>sn_ctxSends := cs, sn_ctx := c, sn_unblocked := sn_unblocked s + 1\<rparr>))
           | EvErr \<Rightarrow>
               (case sn_errChan s of
                  [] \<Rightarrow> None
                | e # es \<Rightarrow> Some (watcher_return e (s\<lparr>sn_errChan := es\<rparr>)))
           | EvTimer now \<Rightarrow>
               (if deadline \<le> now
                then Some (watcher_return (SessionIdleErr (idle_after (sn_closeAfterIdle s))) s)
                else None)
           | EvActive now \<Rightarrow>
               (case sn_activeAtChan s of
                  [] \<Rightarrow> None
                | t # ts \<Rightarrow> Some (s\<lparr>sn_activeAtChan := ts,
                    sn_watcher := Watching (now + idle_after (sn_closeAfterIdle s))\<rparr>))
           | _ \<Rightarrow> None))"

fun session_event :: "session_ev \<Rightarrow> session \<Rightarrow> session option" where
  "session_event (EvServe c now) s =
     (if sn_watcher s = NotServing then Some (Serve c now s) else None)"
| "session_event (EvWrite p) s = Some (Write p s)"
| "session_event (EvMigrate e c now) s = Some (Migrate e c now s)"
| "session_event (EvMigrateEnd now) s =
     (if sn_unblocked s = 0 then None
      else Some (finish_migration now (s\<lparr>sn_unblocked := sn_unblocked s - 1\<rparr>)))"
| "session_event (EvReset now) s = Some (ResetIdleTimer now s)"
| "session_event EvClose s = Some (Close s)"
| "session_event (EvRead r e now) s = (if sn_reading s then Some (readLoop r e now s) else None)"
| "session_event (EvWriteLoop r now) s =
     (if sn_writing s \<and> sn_writeChan s \<noteq> [] then Some (writeLoop r now s) else None)"
| "session_event EvWriteLoopClosed s =
     (if sn_writing s \<and> sn_closeWrite s then Some (s\<lparr>sn_writing := False\<rparr>) else None)"
| "session_event ev s = waitForCloseCondition ev s"

fun session_run :: "session_ev list \<Rightarrow> session \<Rightarrow> session option" where
  "session_run [] s = Some s"
| "session_run (ev # evs) s =
     (case session_event ev s of None \<Rightarrow> None | Some s' \<Rightarrow> session_run evs s')"

lemma session_run_append:
  "session_run (xs @ ys) s = (case session_run xs s of None \<Rightarrow> None | Some t \<Rightarrow> session_run ys t)"
  by (induction xs arbitrary: s) (auto split: option.splits)

subsection \<open>Invariant\<close>

text \<open>Every datagram handed to a connection decodes to this session and at most 1280 bytes.\<close>

definition sent_ok :: "RequestID \<Rightarrow> byte list \<Rightarrow> bool" where
  "sent_ok i d = (\<exists>p. length p \<le> maxDatagramPayloadLen
     \<and> Payload_UnmarshalBinary d = Ok \<lparr>pay_RequestID = i, pay_Payload = p\<rparr>)"

definition session_inv :: "session \<Rightarrow> bool" where
  "session_inv s =
     (length (sn_writeChan s) \<le> writeChanCapacity
      \<and> length (sn_errChan s) \<le> errChanCapacity
      \<and> length (sn_activeAtChan s) \<le> 1
      \<and> sn_originCloses s = (if sn_closeWrite s then 1 else 0)
      \<and> (case sn_watcher s of
           Returned e \<Rightarrow> sn_closeWrite s
         | _ \<Rightarrow> sn_closeWrite s \<longrightarrow> sn_errChan s \<noteq> [])
      \<and> list_all (\<lambda>d. sent_ok (sn_id s) (snd d)) (sn_sent s))"

lemma session_inv_closeSession: "session_inv s \<Longrightarrow> session_inv (closeSession e s)"
  by (auto simp: session_inv_def closeSession_def errChanCapacity_def split: watcher.splits)

lemma session_inv_markActive: "session_inv s \<Longrightarrow> session_inv (markActive now s)"
  by (auto simp: session_inv_def markActive_def split: watcher.splits)

lemma session_inv_frame:
  "session_inv s \<Longrightarrow> session_inv (s\<lparr>sn_dropped := n\<rparr>)"
  "session_inv s \<Longrightarrow> session_inv (s\<lparr>sn_reading := b\<rparr>)"
  "session_inv s \<Longrightarrow> session_inv (s\<lparr>sn_writing := b\<rparr>)"
  "session_inv s \<Longrightarrow> session_inv (s\<lparr>sn_migrated := n\<rparr>)"
  "session_inv s \<Longrightarrow> session_inv (s\<lparr>sn_unblocked := n\<rparr>)"
  "session_inv s \<Longrightarrow> session_inv (s\<lparr>sn_eyeball := e, sn_ctxSends := cs\<rparr>)"
  by (auto simp: session_inv_def split: watcher.splits)

lemmas session_inv_steps = session_inv_closeSession session_inv_markActive session_inv_frame

lemma read_header_eq: "read_header s = UDPSessionPayloadType # request_id_bytes (sn_id s)"
  by (simp add: read_header_def MarshalPayloadHeaderTo_Ok)

lemma sent_ok_read: "length bs \<le> maxDatagramPayloadLen \<Longrightarrow> sent_ok (sn_id s) (read_header s @ bs)"
  by (auto simp: sent_ok_def read_header_eq Payload_UnmarshalBinary_header maxDatagramPayloadLen_def)

lemma session_inv_Close: "session_inv s \<Longrightarrow> session_inv (Close s)"
  by (auto simp: session_inv_def Close_def closeFn_def closeSession_def errChanCapacity_def
      split: watcher.splits)

lemma session_inv_watcher_return:
  assumes "length (sn_writeChan s) \<le> writeChanCapacity" "length (sn_errChan s) \<le> errChanCapacity"
    "length (sn_activeAtChan s) \<le> 1" "sn_originCloses s = (if sn_closeWrite s then 1 else 0)"
    "list_all (\<lambda>d. sent_ok (sn_id s) (snd d)) (sn_sent s)"
  shows "session_inv (watcher_return e s)"
  using assms by (auto simp: session_inv_def watcher_return_def Close_def closeFn_def closeSession_def
      errChanCapacity_def)

lemma session_inv_Write: "session_inv s \<Longrightarrow> session_inv (Write p s)"
  by (auto simp: session_inv_def Write_def split: watcher.splits)

lemma session_inv_readLoop: "session_inv s \<Longrightarrow> session_inv (readLoop r e now s)"
proof (cases r)
  case (ReadBytes bs)
  assume s: "session_inv s"
  let ?s = "s\<lparr>sn_sent := sn_sent s @ [(sn_eyeball s, read_header s @ bs)]\<rparr>"
  show ?thesis
  proof (cases "length bs > maxDatagramPayloadLen")
    case True
    with s ReadBytes show ?thesis by (simp add: readLoop_def session_inv_steps)
  next
    case False
    then have "session_inv ?s"
      using s sent_ok_read [of bs s] by (auto simp: session_inv_def split: watcher.splits)
    with False ReadBytes show ?thesis
      by (simp add: readLoop_def Let_def session_inv_steps split: option.split)
  qed
qed (simp_all add: readLoop_def session_inv_steps)

lemma session_inv_writeLoop: "session_inv s \<Longrightarrow> session_inv (writeLoop r now s)"
proof (cases "sn_writeChan s")
  case (Cons p ps)
  assume s: "session_inv s"
  let ?s = "s\<lparr>sn_writeChan := ps, sn_originWrites := sn_originWrites s @ [p]\<rparr>"
  have "session_inv ?s" using s Cons by (auto simp: session_inv_def split: watcher.splits)
  with Cons show ?thesis
    by (simp add: writeLoop_def Let_def session_inv_steps split: sum.split)
qed (simp add: writeLoop_def)

lemma session_inv_Migrate: "session_inv s \<Longrightarrow> session_inv (Migrate e c now s)"
  by (simp add: Migrate_def finish_migration_def session_inv_steps)

lemma session_inv_Serve: "\<lbrakk>session_inv s; sn_watcher s = NotServing\<rbrakk> \<Longrightarrow> session_inv (Serve c now s)"
  by (simp add: session_inv_def Serve_def)

lemma session_inv_wait:
  assumes "session_inv s" and "waitForCloseCondition ev s = Some s'"
  shows "session_inv s'"
proof -
  obtain d where d: "sn_watcher s = Watching d"
    using assms(2) by (cases "sn_watcher s") (auto simp: waitForCloseCondition_def)
  note defs = waitForCloseCondition_def d
  show ?thesis
  proof (cases ev)
    case EvCtxDone
    with assms(2) d have e: "s' = watcher_return (ContextErr (sn_ctx s)) s"
      by (auto simp: defs)
    show ?thesis
      unfolding e by (rule session_inv_watcher_return) (use assms(1) in \<open>auto simp: session_inv_def\<close>)
  next
    case EvNewContext
    with assms d show ?thesis
      by (auto simp: defs session_inv_def split: list.splits)
  next
    case EvErr
    with assms(2) d obtain e es where e: "sn_errChan s = e # es"
      "s' = watcher_return e (s\<lparr>sn_errChan := es\<rparr>)"
      by (auto simp: defs split: list.splits)
    show ?thesis
      unfolding e(2) by (rule session_inv_watcher_return) (use assms(1) e(1) in \<open>auto simp: session_inv_def\<close>)
  next
    case (EvTimer t)
    with assms(2) d have e: "s' = watcher_return (SessionIdleErr (idle_after (sn_closeAfterIdle s))) s"
      by (auto simp: defs split: if_splits)
    show ?thesis
      unfolding e by (rule session_inv_watcher_return) (use assms(1) in \<open>auto simp: session_inv_def\<close>)
  next
    case (EvActive t)
    with assms d show ?thesis
      by (auto simp: defs session_inv_def split: list.splits)
  qed (use assms(2) d in \<open>auto simp: defs\<close>)
qed

lemma session_inv_event:
  assumes "session_inv s" and "session_event ev s = Some s'"
  shows "session_inv s'"
  using assms
  by (cases ev)
     (auto simp: ResetIdleTimer_def finish_migration_def session_inv_steps session_inv_Close
       session_inv_Write session_inv_Serve session_inv_readLoop session_inv_writeLoop session_inv_Migrate
       split: if_splits intro: session_inv_wait)

lemma session_inv_New: "session_inv (NewSession i idle eb)"
  by (simp add: session_inv_def NewSession_def writeChanCapacity_def errChanCapacity_def)

lemma session_run_inv: "\<lbrakk>session_inv s; session_run evs s = Some s'\<rbrakk> \<Longrightarrow> session_inv s'"
  by (induction evs arbitrary: s) (auto split: option.splits intro: session_inv_event)

text \<open>The session identifier never changes.\<close>

lemma sn_id_ops [simp]:
  "sn_id (markActive now s) = sn_id s" "sn_id (closeSession e s) = sn_id s"
  "sn_id (Serve c now s) = sn_id s" "sn_id (Close s) = sn_id s" "sn_id (Write p s) = sn_id s" "sn_id (watcher_return e s) = sn_id s"
  "sn_id (finish_migration now s) = sn_id s" "sn_id (Migrate e' c now s) = sn_id s"
  "sn_id (readLoop r e'' now s) = sn_id s" "sn_id (writeLoop r' now s) = sn_id s"
  by (simp_all add: markActive_def closeSession_def Close_def closeFn_def Write_def Serve_def
      watcher_return_def finish_migration_def Migrate_def readLoop_def writeLoop_def Let_def
      split: read_result.splits list.splits sum.splits option.splits)

lemma sn_id_event: "session_event ev s = Some s' \<Longrightarrow> sn_id s' = sn_id s"
  by (cases ev)
     (auto simp: ResetIdleTimer_def waitForCloseCondition_def
       split: if_splits watcher.splits list.splits)

lemma sn_id_run: "session_run evs s = Some s' \<Longrightarrow> sn_id s' = sn_id s"
  by (induction evs arbitrary: s) (auto split: option.splits dest: sn_id_event)

subsection \<open>The order of payloads to the origin\<close>

fun ev_writes :: "session_ev \<Rightarrow> byte list list" where
  "ev_writes (EvWrite p) = [p]"
| "ev_writes _ = []"

definition to_origin :: "session \<Rightarrow> byte list list" where
  "to_origin s = sn_originWrites s @ sn_writeChan s"

lemma to_origin_ops [simp]:
  "to_origin (markActive now s) = to_origin s" "to_origin (closeSession e s) = to_origin s"
  "to_origin (Serve c now s) = to_origin s" "to_origin (Close s) = to_origin s" "to_origin (watcher_return e s) = to_origin s"
  "to_origin (finish_migration now s) = to_origin s" "to_origin (Migrate e' c now s) = to_origin s"
  "to_origin (readLoop r e'' now s) = to_origin s" "to_origin (writeLoop r' now s) = to_origin s"
  by (simp_all add: to_origin_def Serve_def markActive_def closeSession_def Close_def closeFn_def
      watcher_return_def finish_migration_def Migrate_def readLoop_def writeLoop_def Let_def
      split: read_result.splits list.splits sum.splits option.splits)

lemma to_origin_frame [simp]:
  "to_origin (s\<lparr>sn_unblocked := n\<rparr>) = to_origin s" "to_origin (s\<lparr>sn_writing := b\<rparr>) = to_origin s"
  "to_origin (s\<lparr>sn_errChan := es\<rparr>) = to_origin s"
  "to_origin (s\<lparr>sn_activeAtChan := ts, sn_watcher := w\<rparr>) = to_origin s"
  "to_origin (s\<lparr>sn_ctxSends := cs, sn_ctx := c\<rparr>) = to_origin s"
  by (simp_all add: to_origin_def)

lemma to_origin_event:
  assumes "session_event ev s = Some s'"
  shows "to_origin s' = to_origin s @ ev_writes ev \<or> to_origin s' = to_origin s"
proof (cases ev)
  case (EvWrite p)
  then show ?thesis using assms by (auto simp: Write_def to_origin_def split: if_splits)
qed (use assms in \<open>auto simp: ResetIdleTimer_def waitForCloseCondition_def
       split: if_splits watcher.splits list.splits\<close>)

lemma to_origin_run:
  "session_run evs s = Some s' \<Longrightarrow>
     \<exists>ps. subseq ps (concat (map ev_writes evs)) \<and> to_origin s' = to_origin s @ ps"
proof (induction evs arbitrary: s)
  case (Cons ev evs)
  then obtain s1 where s1: "session_event ev s = Some s1" "session_run evs s1 = Some s'"
    by (auto split: option.splits)
  then obtain ps where ps: "subseq ps (concat (map ev_writes evs))" "to_origin s' = to_origin s1 @ ps"
    using Cons.IH by blast
  show ?case
    using to_origin_event [OF s1(1)] ps list_emb_append_mono [of "(=)" "ev_writes ev" "ev_writes ev"]
    by (auto intro: exI [of _ "ev_writes ev @ ps"] exI [of _ ps] list_emb_append2)
qed simp

subsection \<open>After the watcher has returned\<close>

lemma returned_stays:
  assumes "session_event ev s = Some s'" and "sn_watcher s = Returned e"
  shows "sn_watcher s' = Returned e \<and> (\<exists>cs. sn_ctxSends s' = sn_ctxSends s @ cs)"
  using assms
  by (cases ev)
     (auto simp: ResetIdleTimer_def waitForCloseCondition_def markActive_def closeSession_def
       Close_def closeFn_def Write_def finish_migration_def Migrate_def readLoop_def writeLoop_def
       Let_def split: if_splits read_result.splits list.splits sum.splits option.splits)

lemma returned_run:
  "\<lbrakk>session_run evs s = Some s'; sn_watcher s = Returned e\<rbrakk> \<Longrightarrow>
     sn_watcher s' = Returned e \<and> (\<exists>cs. sn_ctxSends s' = sn_ctxSends s @ cs)"
proof (induction evs arbitrary: s)
  case (Cons ev evs)
  then obtain s1 where s1: "session_event ev s = Some s1" "session_run evs s1 = Some s'"
    by (auto split: option.splits)
  from returned_stays [OF s1(1) Cons.prems(2)] Cons.IH [OF s1(2)] show ?case
    by fastforce
qed simp

subsection \<open>Properties\<close>

text \<open>C7. Session invariant, over every interleaving of the session's goroutines and callers: the
  write channel holds at most 512 payloads and the error channel at most 3 errors; the origin
  socket is closed at most once and exactly when Close has run; Serve returns only after closing
  the session; a closed session whose watcher still runs always has an error queued, so Serve can
  return; and every datagram handed to a connection decodes to this session's identifier and at
  most 1280 origin bytes, so oversized reads never reach the edge.\<close>

theorem session_safety:
  assumes "session_run evs (NewSession i idle eb) = Some s"
  shows "length (sn_writeChan s) \<le> writeChanCapacity \<and> length (sn_errChan s) \<le> errChanCapacity
    \<and> sn_originCloses s = (if sn_closeWrite s then 1 else 0)
    \<and> (case sn_watcher s of
         NotServing \<Rightarrow> True
       | Returned e \<Rightarrow> sn_closeWrite s
       | Watching d \<Rightarrow> \<not> sn_closeWrite s \<or> waitForCloseCondition EvErr s \<noteq> None)
    \<and> list_all (\<lambda>d. sent_ok i (snd d)) (sn_sent s)"
proof -
  have inv: "session_inv s" by (rule session_run_inv [OF session_inv_New assms])
  have "sn_id s = i" using sn_id_run [OF assms] by (simp add: NewSession_def Serve_def)
  with inv show ?thesis
    by (auto simp: session_inv_def waitForCloseCondition_def split: watcher.splits list.splits)
qed

theorem session_safety_witness:
  "\<exists>s. session_run [EvServe 7 0, EvWrite [1], EvWriteLoop (Inr 1) 2, EvRead (ReadBytes [9, 9]) None 3, EvClose, EvErr]
       (NewSession (RequestID 0 1) 0 2) = Some s
     \<and> sn_watcher s = Returned SessionCloseErr \<and> sn_originCloses s = 1"
proof -
  let ?evs = "[EvServe 7 0, EvWrite [1], EvWriteLoop (Inr 1) 2, EvRead (ReadBytes [9, 9]) None 3, EvClose, EvErr]"
  have "\<exists>s. session_run ?evs (NewSession (RequestID 0 1) 0 2) = Some s
      \<and> sn_watcher s = Returned SessionCloseErr"
    by (simp add: NewSession_def Serve_def Write_def writeLoop_def readLoop_def Close_def closeFn_def
        closeSession_def waitForCloseCondition_def watcher_return_def markActive_def Let_def
        writeChanCapacity_def errChanCapacity_def maxDatagramPayloadLen_def)
  then obtain s where s: "session_run ?evs (NewSession (RequestID 0 1) 0 2) = Some s"
      and r: "sn_watcher s = Returned SessionCloseErr"
    by blast
  from session_safety [OF s] s r show ?thesis by auto
qed

text \<open>C38. Payload order: whatever the interleaving, the payloads written to the origin followed by
  those still queued form a subsequence, in order, of the payloads passed to Write: nothing is
  duplicated, invented or reordered.\<close>

theorem session_writes_in_order:
  assumes "session_run evs (NewSession i idle eb) = Some s"
  shows "subseq (sn_originWrites s @ sn_writeChan s) (concat (map ev_writes evs))"
  using to_origin_run [OF assms] by (auto simp: to_origin_def NewSession_def)

theorem session_writes_in_order_witness:
  "\<exists>s. session_run [EvServe 7 0, EvWrite [1], EvWrite [2], EvWriteLoop (Inr 1) 2] (NewSession (RequestID 0 1) 0 2) = Some s
     \<and> subseq (sn_originWrites s @ sn_writeChan s) [[1], [2]]"
proof -
  let ?evs = "[EvServe 7 0, EvWrite [1], EvWrite [2], EvWriteLoop (Inr 1) 2]"
  obtain s where s: "session_run ?evs (NewSession (RequestID 0 1) 0 2) = Some s"
    by (simp add: NewSession_def Serve_def Write_def writeLoop_def markActive_def Let_def writeChanCapacity_def)
  from session_writes_in_order [OF s] s show ?thesis by simp
qed

text \<open>Migration races with the end of a session: once the watcher has returned, a Migrate from
  a different connection blocks on the context channel for ever, in every continuation, because
  only the watcher receives from it.\<close>

theorem migrate_after_return_blocks:
  assumes "sn_watcher s = Returned e" and "sn_eyeball s \<noteq> eb"
    and "session_run evs (Migrate eb ctx now s) = Some s'"
  shows "\<exists>cs. sn_ctxSends s' = sn_ctxSends s @ ctx # cs"
proof -
  have "sn_watcher (Migrate eb ctx now s) = Returned e"
    and "sn_ctxSends (Migrate eb ctx now s) = sn_ctxSends s @ [ctx]"
    using assms by (simp_all add: Migrate_def)
  with returned_run [OF assms(3)] show ?thesis by auto
qed

theorem migrate_after_return_blocks_witness:
  "\<exists>s. session_run [EvServe 7 0, EvClose, EvErr, EvMigrate 9 8 1, EvReset 2] (NewSession (RequestID 0 1) 0 2) = Some s
     \<and> sn_ctxSends s \<noteq> []"
proof -
  obtain s where s: "session_run [EvServe 7 0, EvClose, EvErr] (NewSession (RequestID 0 1) 0 2) = Some s"
      "sn_watcher s = Returned SessionCloseErr" "sn_eyeball s = 2" "sn_activeAtChan s = []"
    by (simp add: NewSession_def Serve_def Close_def closeFn_def closeSession_def waitForCloseCondition_def
        watcher_return_def errChanCapacity_def)
  obtain t where t: "session_run [EvReset 2] (Migrate 9 8 1 s) = Some t"
    by simp
  have "\<exists>cs. sn_ctxSends t = sn_ctxSends s @ 8 # cs"
    by (rule migrate_after_return_blocks [OF s(2) _ t]) (simp add: s(3))
  moreover have "session_run [EvServe 7 0, EvClose, EvErr, EvMigrate 9 8 1, EvReset 2]
      (NewSession (RequestID 0 1) 0 2) = Some t"
    using session_run_append [of "[EvServe 7 0, EvClose, EvErr]" "[EvMigrate 9 8 1, EvReset 2]"] s(1) t
    by simp
  ultimately show ?thesis by auto
qed

end
