(* ===== verification/Flow_Limiter.thy ===== *)
theory Flow_Limiter
  imports Cfd_Prelude
begin

text \<open>
  \<^verbatim>\<open>flow/limiter.go\<close>: the limiter of active flows shared by the UDP session manager.
  The record holds the two 64-bit counters and the \<^verbatim>\<open>unlimited\<close> switch; every method runs
  under the limiter's mutex and so is one atomic step.  The Prometheus counter of dropped
  registrations is not part of the state.  The locale \<open>slot_limiter\<close> is the contract the
  session manager relies on; it is interpreted on the model at the end of the theory.
\<close>

subsection \<open>The limiter of the source\<close>

record flowLimiter =
  activeFlowsCounter :: u64
  maxActiveFlows :: u64
  unlimited :: bool

datatype limiter_error = ErrTooManyActiveFlows

definition isUnlimited :: "u64 \<Rightarrow> bool" where
  "isUnlimited value = (value = 0)"

definition NewLimiter :: "u64 \<Rightarrow> flowLimiter" where
  "NewLimiter n = \<lparr>activeFlowsCounter = 0, maxActiveFlows = n, unlimited = isUnlimited n\<rparr>"

definition Acquire :: "flowLimiter \<Rightarrow> limiter_error + flowLimiter" where
  "Acquire s =
     (if \<not> unlimited s \<and> maxActiveFlows s \<le> activeFlowsCounter s then Inl ErrTooManyActiveFlows
      else Inr (s\<lparr>activeFlowsCounter := activeFlowsCounter s + 1\<rparr>))"

definition Release :: "flowLimiter \<Rightarrow> flowLimiter" where
  "Release s =
     (if activeFlowsCounter s \<le> 0 then s
      else s\<lparr>activeFlowsCounter := activeFlowsCounter s - 1\<rparr>)"

definition SetLimit :: "u64 \<Rightarrow> flowLimiter \<Rightarrow> flowLimiter" where
  "SetLimit n s = s\<lparr>maxActiveFlows := n, unlimited := isUnlimited n\<rparr>"

subsection \<open>The contract of a limiter of slots\<close>

text \<open>
  \<open>active\<close> is the number of slots taken, \<open>limit\<close> the configured maximum (\<open>None\<close> when there is
  none) and \<open>top\<close> the largest count the provider can represent.
\<close>

locale slot_limiter =
  fixes acquire :: "'l \<Rightarrow> 'e + 'l"
    and release :: "'l \<Rightarrow> 'l"
    and active :: "'l \<Rightarrow> nat"
    and limit :: "'l \<Rightarrow> nat option"
    and wf :: "'l \<Rightarrow> bool"
    and top :: nat
  assumes acquire_full:
      "wf l \<Longrightarrow> (\<exists>e. acquire l = Inl e) \<longleftrightarrow> (\<exists>n. limit l = Some n \<and> n \<le> active l)"
    and acquire_active:
      "\<lbrakk>wf l; acquire l = Inr l'; active l < top\<rbrakk> \<Longrightarrow> active l' = Suc (active l)"
    and acquire_frame: "\<lbrakk>wf l; acquire l = Inr l'\<rbrakk> \<Longrightarrow> wf l' \<and> limit l' = limit l"
    and release_active: "wf l \<Longrightarrow> active (release l) = active l - 1"
    and release_frame: "wf l \<Longrightarrow> wf (release l) \<and> limit (release l) = limit l"
    and limit_top: "\<lbrakk>wf l; limit l = Some n\<rbrakk> \<Longrightarrow> n \<le> top"
begin

definition within :: "'l \<Rightarrow> bool" where
  "within l \<longleftrightarrow> wf l \<and> (\<forall>n. limit l = Some n \<longrightarrow> active l \<le> n)"

lemma acquire_below:
  assumes "wf l" and "acquire l = Inr l'" and "limit l = Some n"
  shows "active l < n" and "active l' = Suc (active l)"
proof -
  have "\<not> (\<exists>e. acquire l = Inl e)" using assms(2) by simp
  then show "active l < n"
    using acquire_full [OF assms(1)] assms(3) by auto
  then show "active l' = Suc (active l)"
    using acquire_active [OF assms(1,2)] limit_top [OF assms(1,3)] by simp
qed

lemma within_acquire: "\<lbrakk>within l; acquire l = Inr l'\<rbrakk> \<Longrightarrow> within l'"
  unfolding within_def using acquire_below acquire_frame by (metis Suc_leI)

lemma within_release: "within l \<Longrightarrow> within (release l)"
  unfolding within_def using release_active release_frame by (metis diff_le_self le_trans)

fun acquire_times :: "nat \<Rightarrow> 'l \<Rightarrow> 'l option" where
  "acquire_times 0 l = Some l"
| "acquire_times (Suc k) l =
     (case acquire l of Inl e \<Rightarrow> None | Inr l' \<Rightarrow> acquire_times k l')"

lemma acquire_times_limited:
  assumes "within l" and "limit l = Some n"
  shows "(acquire_times k l \<noteq> None) \<longleftrightarrow> active l + k \<le> n"
  using assms
proof (induction k arbitrary: l)
  case 0
  then show ?case by (simp add: within_def)
next
  case (Suc k)
  have w: "wf l" using Suc.prems by (simp add: within_def)
  show ?case
  proof (cases "acquire l")
    case (Inl e)
    then have "n \<le> active l" using acquire_full [OF w] Suc.prems(2) by auto
    with Inl show ?thesis by simp
  next
    case (Inr l')
    have "active l' = Suc (active l)" using acquire_below [OF w Inr Suc.prems(2)] by simp
    moreover have "limit l' = Some n" using acquire_frame [OF w Inr] Suc.prems(2) by simp
    moreover have "within l'" using within_acquire [OF Suc.prems(1) Inr] .
    ultimately show ?thesis using Suc.IH [of l'] Inr by simp
  qed
qed

end

subsection \<open>The model satisfies the contract\<close>

definition limiter_active :: "flowLimiter \<Rightarrow> nat" where
  "limiter_active s = unat (activeFlowsCounter s)"

definition limiter_limit :: "flowLimiter \<Rightarrow> nat option" where
  "limiter_limit s = (if unlimited s then None else Some (unat (maxActiveFlows s)))"

definition limiter_wf :: "flowLimiter \<Rightarrow> bool" where
  "limiter_wf s = (unlimited s = isUnlimited (maxActiveFlows s))"

definition limiter_top :: nat where
  "limiter_top = 2 ^ 64 - 1"

lemmas limiter_defs = limiter_active_def limiter_limit_def limiter_wf_def limiter_top_def
  isUnlimited_def Acquire_def Release_def SetLimit_def NewLimiter_def

lemma u64_le_top: "unat (w :: u64) \<le> limiter_top"
  using unsigned_less [of w, where ?'a = nat] by (simp add: limiter_top_def)

lemma unat_u64_inc: "unat (w :: u64) < limiter_top \<Longrightarrow> unat (w + 1) = Suc (unat w)"
  by (simp add: limiter_top_def unat_word_ariths(1))

lemma unat_u64_dec: "unat ((w :: u64) - 1) = (if w = 0 then limiter_top else unat w - 1)"
  by (simp add: unat_minus_one limiter_top_def unsigned_minus_1_eq_mask mask_eq_exp_minus_1)

lemma Acquire_active:
  "\<lbrakk>Acquire l = Inr l'; limiter_active l < limiter_top\<rbrakk> \<Longrightarrow> limiter_active l' = Suc (limiter_active l)"
  using unat_u64_inc [of "activeFlowsCounter l"]
  by (auto simp: Acquire_def limiter_active_def split: if_splits)

lemma Release_active: "limiter_active (Release l) = limiter_active l - 1"
  by (auto simp: Release_def limiter_active_def unat_u64_dec word_le_nat_alt)

interpretation fl: slot_limiter Acquire Release limiter_active limiter_limit limiter_wf limiter_top
proof
  fix l l' :: flowLimiter and n
  show "(\<exists>e. Acquire l = Inl e) \<longleftrightarrow> (\<exists>n. limiter_limit l = Some n \<and> n \<le> limiter_active l)"
    by (simp add: limiter_defs word_le_nat_alt)
  show "\<lbrakk>Acquire l = Inr l'; limiter_active l < limiter_top\<rbrakk> \<Longrightarrow> limiter_active l' = Suc (limiter_active l)"
    by (rule Acquire_active)
  show "limiter_active (Release l) = limiter_active l - 1"
    by (rule Release_active)
  show "\<lbrakk>limiter_wf l; Acquire l = Inr l'\<rbrakk> \<Longrightarrow> limiter_wf l' \<and> limiter_limit l' = limiter_limit l"
    by (auto simp: limiter_defs split: if_splits)
  show "limiter_wf l \<Longrightarrow> limiter_wf (Release l) \<and> limiter_limit (Release l) = limiter_limit l"
    by (simp add: limiter_defs)
  show "limiter_limit l = Some n \<Longrightarrow> n \<le> limiter_top"
    using u64_le_top by (auto simp: limiter_limit_def split: if_splits)
qed

subsection \<open>Traces of calls and their specification\<close>

datatype limiter_op = OpAcquire | OpRelease | OpSetLimit u64

fun limiter_step :: "flowLimiter \<Rightarrow> limiter_op \<Rightarrow> flowLimiter" where
  "limiter_step s OpAcquire = (case Acquire s of Inl e \<Rightarrow> s | Inr s' \<Rightarrow> s')"
| "limiter_step s OpRelease = Release s"
| "limiter_step s (OpSetLimit n) = SetLimit n s"

definition limiter_run :: "u64 \<Rightarrow> limiter_op list \<Rightarrow> flowLimiter" where
  "limiter_run n ops = foldl limiter_step (NewLimiter n) ops"

text \<open>The abstract limiter: a natural number of slots and an optional bound.\<close>

fun spec_step :: "nat \<times> nat option \<Rightarrow> limiter_op \<Rightarrow> nat \<times> nat option" where
  "spec_step (k, b) OpAcquire =
     (case b of None \<Rightarrow> (Suc k, b) | Some n \<Rightarrow> (if k < n then (Suc k, b) else (k, b)))"
| "spec_step (k, b) OpRelease = (k - 1, b)"
| "spec_step (k, b) (OpSetLimit n) = (k, if n = 0 then None else Some (unat n))"

definition limiter_abs :: "flowLimiter \<Rightarrow> nat \<times> nat option" where
  "limiter_abs s = (limiter_active s, limiter_limit s)"

lemma limiter_step_wf: "limiter_wf s \<Longrightarrow> limiter_wf (limiter_step s op)"
  by (cases op) (auto simp: limiter_defs)

lemma limiter_step_refines:
  assumes "limiter_wf s" and "limiter_active s < limiter_top"
  shows "limiter_abs (limiter_step s op) = spec_step (limiter_abs s) op"
proof (cases op)
  case OpAcquire
  show ?thesis
  proof (cases "Acquire s")
    case (Inl e)
    then obtain n where "limiter_limit s = Some n" "n \<le> limiter_active s"
      using fl.acquire_full [OF assms(1)] by auto
    then show ?thesis using Inl OpAcquire by (simp add: limiter_abs_def)
  next
    case (Inr s')
    have a: "limiter_active s' = Suc (limiter_active s)" using Acquire_active [OF Inr assms(2)] .
    have f: "limiter_limit s' = limiter_limit s" using fl.acquire_frame [OF assms(1) Inr] by simp
    show ?thesis
      using Inr OpAcquire a f fl.acquire_below(1) [OF assms(1) Inr]
      by (auto simp: limiter_abs_def split: option.splits)
  qed
next
  case OpRelease
  then show ?thesis
    using Release_active fl.release_frame [OF assms(1)] by (simp add: limiter_abs_def)
next
  case (OpSetLimit n)
  then show ?thesis by (simp add: limiter_abs_def limiter_defs)
qed

lemma spec_step_count: "fst (spec_step s op) \<le> Suc (fst s)"
  by (cases s; cases op) (auto split: option.splits)

lemma limiter_run_snoc: "limiter_run n (ops @ [op]) = limiter_step (limiter_run n ops) op"
  by (simp add: limiter_run_def)

lemma limiter_run_wf: "limiter_wf (limiter_run n ops)"
  by (induction ops rule: rev_induct)
     (simp_all add: limiter_run_snoc limiter_step_wf, simp add: limiter_run_def limiter_defs)

text \<open>C31. Refinement of the flow limiter: on any sequence of fewer than 2^64 - 1 calls of
  Acquire, Release and SetLimit, the limiter built by NewLimiter holds exactly the slot count and
  the bound of the abstract limiter, so 64-bit wrap-around is never visible: an acquisition is
  granted exactly below the current bound, a release never goes below zero and a changed limit
  takes effect at once.\<close>

theorem limiter_refines_spec:
  assumes "length ops < 2 ^ 64 - 1"
  shows "limiter_abs (limiter_run n ops)
    = foldl spec_step (0, if n = 0 then None else Some (unat n)) ops"
proof -
  have "limiter_abs (limiter_run n ops) = foldl spec_step (0, if n = 0 then None else Some (unat n)) ops
      \<and> limiter_active (limiter_run n ops) \<le> length ops"
    using assms
  proof (induction ops rule: rev_induct)
    case Nil
    then show ?case by (simp add: limiter_run_def limiter_abs_def limiter_defs)
  next
    case (snoc op ops)
    let ?s = "limiter_run n ops"
    have IH: "limiter_active ?s \<le> length ops" using snoc by simp
    then have "limiter_active ?s < limiter_top" using snoc.prems by (simp add: limiter_top_def)
    then have r: "limiter_abs (limiter_step ?s op) = spec_step (limiter_abs ?s) op"
      using limiter_step_refines limiter_run_wf by blast
    have "limiter_active (limiter_step ?s op) \<le> Suc (limiter_active ?s)"
      using spec_step_count [of "limiter_abs ?s" op] unfolding r [symmetric]
      by (simp add: limiter_abs_def)
    with r IH snoc show ?case by (simp add: limiter_run_snoc)
  qed
  then show ?thesis by simp
qed

theorem limiter_refines_spec_witness:
  "limiter_abs (limiter_run 1 [OpAcquire, OpAcquire, OpRelease, OpSetLimit 0, OpAcquire, OpAcquire])
    = (2, None)"
  by (subst limiter_refines_spec) simp_all

text \<open>Admission bound: k acquisitions in a row on a limiter that holds no more flows than its
  non-zero limit all succeed exactly when the slots already taken plus k stay within the limit.\<close>

theorem acquire_exactly_to_limit:
  assumes "limiter_wf s" and "\<not> unlimited s" and "activeFlowsCounter s \<le> maxActiveFlows s"
  shows "(fl.acquire_times k s \<noteq> None)
    \<longleftrightarrow> unat (activeFlowsCounter s) + k \<le> unat (maxActiveFlows s)"
proof -
  have "fl.within s" and "limiter_limit s = Some (unat (maxActiveFlows s))"
    using assms by (auto simp: fl.within_def limiter_limit_def limiter_active_def word_le_nat_alt)
  then show ?thesis
    using fl.acquire_times_limited by (simp add: limiter_active_def)
qed

theorem acquire_exactly_to_limit_witness:
  "fl.acquire_times 2 (NewLimiter 2) \<noteq> None \<and> fl.acquire_times 3 (NewLimiter 2) = None"
  using acquire_exactly_to_limit [of "NewLimiter 2" 2] acquire_exactly_to_limit [of "NewLimiter 2" 3]
  by (simp add: limiter_defs)

end
