(* ===== verification/Session_Manager_V3.thy ===== *)
theory Session_Manager_V3
  imports Session_V3 Flow_Limiter
begin

text \<open>
  \<^verbatim>\<open>quic/v3/manager.go\<close>: the table of UDP sessions shared by all connections, guarded by a mutex
  (every method is one step) and by the flow limiter.  Dialling the origin is an argument of a
  registration.  The locale \<open>session_store\<close> is what the muxer relies on.
\<close>

subsection \<open>The manager of the source\<close>

datatype mgr_err =
    ErrSessionNotFound
  | ErrSessionBoundToOtherConn
  | ErrSessionAlreadyRegistered
  | ErrSessionRegistrationRateLimited
  | DialErr nat

record sessionManager =
  mg_sessions :: "RequestID \<Rightarrow> session option"
  mg_limiter :: flowLimiter

definition NewSessionManager :: "flowLimiter \<Rightarrow> sessionManager" where
  "NewSessionManager l = \<lparr>mg_sessions = (\<lambda>_. None), mg_limiter = l\<rparr>"

type_synonym dialer = "addr_port \<Rightarrow> nat option"

text \<open>\<open>dial dest\<close> is \<open>Some e\<close> when dialling the destination fails; \<open>conn\<close> is the connection index.\<close>

definition RegisterSession ::
    "dialer \<Rightarrow> UDPSessionRegistrationDatagram \<Rightarrow> byte \<Rightarrow> sessionManager
      \<Rightarrow> (mgr_err + session) \<times> sessionManager" where
  "RegisterSession dial request conn m =
     (case mg_sessions m (reg_RequestID request) of
        Some s \<Rightarrow>
          (if conn = sn_eyeball s then (Inl ErrSessionAlreadyRegistered, m)
           else (Inl ErrSessionBoundToOtherConn, m))
      | None \<Rightarrow>
          (case Acquire (mg_limiter m) of
             Inl e \<Rightarrow> (Inl ErrSessionRegistrationRateLimited, m)
           | Inr l \<Rightarrow>
               (case dial (reg_Dest request) of
                  Some e \<Rightarrow> (Inl (DialErr e), m\<lparr>mg_limiter := l\<rparr>)
                | None \<Rightarrow>
                    (let s = NewSession (reg_RequestID request) (reg_IdleDurationHint request) conn
                     in (Inr s, m\<lparr>mg_sessions := (mg_sessions m)(reg_RequestID request := Some s),
                                 mg_limiter := l\<rparr>)))))"

definition GetSession :: "RequestID \<Rightarrow> sessionManager \<Rightarrow> mgr_err + session" where
  "GetSession i m = (case mg_sessions m i of Some s \<Rightarrow> Inr s | None \<Rightarrow> Inl ErrSessionNotFound)"

text \<open>The session removed is returned, closed; it lives on in the goroutines that hold it.\<close>

definition UnregisterSession :: "RequestID \<Rightarrow> sessionManager \<Rightarrow> session option \<times> sessionManager" where
  "UnregisterSession i m =
     (map_option Close (mg_sessions m i),
      m\<lparr>mg_sessions := (mg_sessions m)(i := None), mg_limiter := Release (mg_limiter m)\<rparr>)"

text \<open>A method called on a session of the table changes the object the table points to.\<close>

definition update_session :: "RequestID \<Rightarrow> (session \<Rightarrow> session) \<Rightarrow> sessionManager \<Rightarrow> sessionManager" where
  "update_session i f m = m\<lparr>mg_sessions := (mg_sessions m)(i := map_option f (mg_sessions m i))\<rparr>"

subsection \<open>The contract of a session table\<close>

locale session_store =
  fixes lookup :: "'m \<Rightarrow> 'k \<Rightarrow> 's option"
    and reg :: "'r \<Rightarrow> 'm \<Rightarrow> ('e + 's) \<times> 'm"
    and key :: "'r \<Rightarrow> 'k"
    and unreg :: "'k \<Rightarrow> 'm \<Rightarrow> 'm"
  assumes reg_new: "reg r m = (Inr s, m') \<Longrightarrow> lookup m (key r) = None \<and> lookup m' = (lookup m)(key r := Some s)"
    and reg_fail: "reg r m = (Inl e, m') \<Longrightarrow> lookup m' = lookup m"
    and unreg_lookup: "lookup (unreg k m) = (lookup m)(k := None)"
begin

lemma registered_fails:
  assumes "lookup m (key r) \<noteq> None"
  shows "\<exists>e m'. reg r m = (Inl e, m') \<and> lookup m' = lookup m"
proof (cases "fst (reg r m)")
  case (Inl e)
  then have e: "reg r m = (Inl e, snd (reg r m))" by (simp add: prod_eq_iff)
  then show ?thesis using reg_fail [OF e] by blast
next
  case (Inr s)
  then have e: "reg r m = (Inr s, snd (reg r m))" by (simp add: prod_eq_iff)
  then show ?thesis using reg_new [OF e] assms by simp
qed

lemma reg_unreg:
  assumes "reg r m = (Inr s, m')"
  shows "lookup (unreg (key r) m') = lookup m"
  using reg_new [OF assms] unreg_lookup by (auto simp: fun_eq_iff)

lemma dom_reg: "reg r m = (Inr s, m') \<Longrightarrow> dom (lookup m') = insert (key r) (dom (lookup m))"
  using reg_new by fastforce

lemma dom_unreg: "dom (lookup (unreg k m)) = dom (lookup m) - {k}"
  by (auto simp: unreg_lookup split: if_splits)

lemma card_reg:
  assumes "reg r m = (Inr s, m')" and "finite (dom (lookup m))"
  shows "card (dom (lookup m')) = Suc (card (dom (lookup m)))"
  using reg_new [OF assms(1)] dom_reg [OF assms(1)] assms(2) by (simp add: domIff)

lemma card_unreg:
  assumes "lookup m k \<noteq> None" and "finite (dom (lookup m))"
  shows "Suc (card (dom (lookup (unreg k m)))) = card (dom (lookup m))"
  unfolding dom_unreg by (rule card.remove [symmetric]) (use assms in auto)

end

lemma RegisterSession_new:
  "RegisterSession dial r conn m = (Inr s, m') \<Longrightarrow>
     mg_sessions m (reg_RequestID r) = None
     \<and> s = NewSession (reg_RequestID r) (reg_IdleDurationHint r) conn
     \<and> mg_sessions m' = (mg_sessions m)(reg_RequestID r := Some s)
     \<and> Acquire (mg_limiter m) = Inr (mg_limiter m')"
  by (auto simp: RegisterSession_def Let_def split: option.splits if_splits sum.splits)

lemma RegisterSession_fail:
  "RegisterSession dial r conn m = (Inl e, m') \<Longrightarrow>
     mg_sessions m' = mg_sessions m
     \<and> ((\<exists>d. e = DialErr d) \<and> Acquire (mg_limiter m) = Inr (mg_limiter m')
        \<or> (\<nexists>d. e = DialErr d) \<and> m' = m)"
  by (auto simp: RegisterSession_def Let_def split: option.splits if_splits sum.splits)

interpretation sm: session_store mg_sessions "\<lambda>(dial, r, conn). RegisterSession dial r conn"
    "\<lambda>(dial, r, conn). reg_RequestID r" "\<lambda>i m. snd (UnregisterSession i m)"
  by unfold_locales
     (auto simp: UnregisterSession_def dest: RegisterSession_new RegisterSession_fail)

subsection \<open>Traces of calls\<close>

text \<open>
  The muxer unregisters a request identifier only from the handler whose registration succeeded,
  so an unregistration in a trace names a registered session; other calls act on the session
  objects only.
\<close>

datatype mgr_op =
    OpRegister dialer UDPSessionRegistrationDatagram byte
  | OpUnregister RequestID
  | OpOnSession RequestID "session \<Rightarrow> session"

fun mgr_step :: "mgr_op \<Rightarrow> sessionManager \<Rightarrow> sessionManager option" where
  "mgr_step (OpRegister dial r c) m = Some (snd (RegisterSession dial r c m))"
| "mgr_step (OpUnregister i) m =
     (if mg_sessions m i = None then None else Some (snd (UnregisterSession i m)))"
| "mgr_step (OpOnSession i f) m = Some (update_session i f m)"

fun dial_failed :: "mgr_op \<Rightarrow> sessionManager \<Rightarrow> nat" where
  "dial_failed (OpRegister dial r c) m =
     (case fst (RegisterSession dial r c m) of Inl (DialErr e) \<Rightarrow> 1 | _ \<Rightarrow> 0)"
| "dial_failed _ m = 0"

text \<open>The final manager and the number of registrations whose dial failed.\<close>

fun mgr_run :: "mgr_op list \<Rightarrow> sessionManager \<times> nat \<Rightarrow> (sessionManager \<times> nat) option" where
  "mgr_run [] mf = Some mf"
| "mgr_run (op # ops) (m, k) =
     (case mgr_step op m of None \<Rightarrow> None | Some m' \<Rightarrow> mgr_run ops (m', k + dial_failed op m))"

definition live :: "sessionManager \<Rightarrow> nat" where
  "live m = card (dom (mg_sessions m))"

definition mgr_inv :: "nat \<Rightarrow> sessionManager \<times> nat \<Rightarrow> bool" where
  "mgr_inv n mk =
     (finite (dom (mg_sessions (fst mk))) \<and> fl.within (mg_limiter (fst mk))
      \<and> limiter_limit (mg_limiter (fst mk)) = Some n
      \<and> limiter_active (mg_limiter (fst mk)) = live (fst mk) + snd mk)"

lemma mgr_inv_acquire:
  assumes "mgr_inv n (m, k)" and "Acquire (mg_limiter m) = Inr l"
  shows "fl.within l \<and> limiter_limit l = Some n \<and> limiter_active l = Suc (live m + k)"
proof -
  have w: "limiter_wf (mg_limiter m)" and wi: "fl.within (mg_limiter m)"
    and lim: "limiter_limit (mg_limiter m) = Some n"
    using assms(1) by (auto simp: mgr_inv_def fl.within_def)
  show ?thesis
    using fl.within_acquire [OF wi assms(2)] fl.acquire_frame [OF w assms(2)] lim
      fl.acquire_below(2) [OF w assms(2) lim] assms(1)
    by (simp add: mgr_inv_def)
qed

lemma mgr_inv_register:
  assumes "mgr_inv n (m, k)"
  shows "mgr_inv n (snd (RegisterSession dial r c m), k + dial_failed (OpRegister dial r c) m)"
proof (cases "RegisterSession dial r c m")
  case (Pair res m')
  have fin: "finite (dom (mg_sessions m))" using assms by (simp add: mgr_inv_def)
  show ?thesis
  proof (cases res)
    case (Inr s)
    with Pair have R: "RegisterSession dial r c m = (Inr s, m')" by simp
    note new = RegisterSession_new [OF R]
    have "live m' = Suc (live m)"
      using sm.card_reg [of "(dial, r, c)"] R fin by (simp add: live_def)
    then show ?thesis
      using new mgr_inv_acquire [OF assms] R fin Inr by (simp add: mgr_inv_def)
  next
    case (Inl e)
    with Pair have R: "RegisterSession dial r c m = (Inl e, m')" by simp
    note fail = RegisterSession_fail [OF R]
    have l: "live m' = live m" using fail by (simp add: live_def)
    show ?thesis
    proof (cases "\<exists>d. e = DialErr d")
      case True
      then show ?thesis
        using fail l R fin mgr_inv_acquire [OF assms] by (auto simp: mgr_inv_def)
    next
      case False
      then show ?thesis using fail R assms by (cases e) (auto simp: mgr_inv_def)
    qed
  qed
qed

lemma mgr_inv_unregister:
  assumes "mgr_inv n (m, k)" and "mg_sessions m i \<noteq> None"
  shows "mgr_inv n (snd (UnregisterSession i m), k)"
proof -
  let ?m = "snd (UnregisterSession i m)"
  have fin: "finite (dom (mg_sessions m))" using assms(1) by (simp add: mgr_inv_def)
  have "Suc (live ?m) = live m"
    using sm.card_unreg [OF assms(2) fin] by (simp add: live_def)
  moreover have "mg_limiter ?m = Release (mg_limiter m)" by (simp add: UnregisterSession_def)
  moreover have "finite (dom (mg_sessions ?m))" using fin sm.dom_unreg by simp
  ultimately show ?thesis
    using assms(1) fl.within_release fl.release_frame fl.release_active
    by (auto simp: mgr_inv_def fl.within_def)
qed

lemma mgr_inv_update: "mgr_inv n (m, k) \<Longrightarrow> mgr_inv n (update_session i f m, k)"
proof -
  have "dom (mg_sessions (update_session i f m)) = dom (mg_sessions m)"
    by (auto simp: update_session_def)
  then show "mgr_inv n (m, k) \<Longrightarrow> ?thesis"
    by (simp add: mgr_inv_def live_def) (simp add: update_session_def)
qed

lemma mgr_inv_step:
  assumes "mgr_inv n (m, k)" and "mgr_step op m = Some m'"
  shows "mgr_inv n (m', k + dial_failed op m)"
  using assms
  by (cases op) (auto simp: mgr_inv_update mgr_inv_unregister split: if_splits
      dest: mgr_inv_register simp del: dial_failed.simps(1))

lemma mgr_inv_run: "\<lbrakk>mgr_inv n mk; mgr_run ops mk = Some mk'\<rbrakk> \<Longrightarrow> mgr_inv n mk'"
proof (induction ops mk rule: mgr_run.induct)
  case (2 op ops m k)
  from 2 show ?case by (auto split: option.splits dest: mgr_inv_step)
qed auto

lemma mgr_inv_New: "n \<noteq> 0 \<Longrightarrow> mgr_inv (unat n) (NewSessionManager (NewLimiter n), 0)"
  by (simp add: mgr_inv_def NewSessionManager_def fl.within_def live_def limiter_defs)

lemma mgr_run_New_inv:
  "\<lbrakk>n \<noteq> 0; mgr_run ops (NewSessionManager (NewLimiter n), 0) = Some (m, k)\<rbrakk>
    \<Longrightarrow> mgr_inv (unat n) (m, k)"
  using mgr_inv_run mgr_inv_New by blast

subsection \<open>Properties\<close>

text \<open>C10. Capacity of the session table: after any sequence of registrations, session updates and
  unregistrations of registered sessions on a manager with a flow limit n > 0, the live sessions
  plus the registrations whose dial failed never exceed n, and a registration of an identifier
  that is not in the table and whose dial works succeeds exactly while that sum is below n.\<close>

theorem manager_capacity:
  assumes "n \<noteq> 0" and "mgr_run ops (NewSessionManager (NewLimiter n), 0) = Some (m, failed)"
  shows "live m + failed \<le> unat n
    \<and> (mg_sessions m (reg_RequestID r) = None \<and> dial (reg_Dest r) = None \<longrightarrow>
        ((\<exists>s. fst (RegisterSession dial r c m) = Inr s) \<longleftrightarrow> live m + failed < unat n))"
proof -
  have inv: "mgr_inv (unat n) (m, failed)" by (rule mgr_run_New_inv [OF assms])
  then have w: "limiter_wf (mg_limiter m)" "limiter_limit (mg_limiter m) = Some (unat n)"
    "limiter_active (mg_limiter m) = live m + failed" "limiter_active (mg_limiter m) \<le> unat n"
    by (auto simp: mgr_inv_def fl.within_def)
  have a: "(\<exists>e. Acquire (mg_limiter m) = Inl e) \<longleftrightarrow> unat n \<le> live m + failed"
    using fl.acquire_full [OF w(1)] w by simp
  show ?thesis
    using a w by (cases "Acquire (mg_limiter m)") (auto simp: RegisterSession_def Let_def)
qed

definition sample_request :: "nat \<Rightarrow> UDPSessionRegistrationDatagram" where
  "sample_request k = \<lparr>reg_RequestID = RequestID 0 (word_of_nat k),
     reg_Dest = \<lparr>ap_addr = Addr4 [10, 0, 0, 1], ap_port = 53\<rparr>, reg_Traced = False,
     reg_IdleDurationHint = 0, reg_Payload = []\<rparr>"

theorem manager_capacity_witness:
  "\<exists>m k. mgr_run [OpRegister (\<lambda>_. None) (sample_request 1) 0] (NewSessionManager (NewLimiter 2), 0) = Some (m, k)
     \<and> live m + k \<le> unat (2 :: u64)
     \<and> ((\<exists>s. fst (RegisterSession (\<lambda>_. None) (sample_request 2) 0 m) = Inr s) \<longleftrightarrow> live m + k < unat (2 :: u64))"
proof -
  let ?op = "OpRegister (\<lambda>_. None) (sample_request 1) 0"
  obtain m k where r: "mgr_run [?op] (NewSessionManager (NewLimiter 2), 0) = Some (m, k)"
    by simp
  then have "mg_sessions m (reg_RequestID (sample_request 2)) = None"
    by (auto simp: RegisterSession_def NewSessionManager_def limiter_defs sample_request_def Let_def)
  with r manager_capacity [OF _ r, of "sample_request 2" "\<lambda>_. None" 0] show ?thesis by auto
qed

lemma failed_dials_run:
  assumes "mgr_run (map (\<lambda>r. OpRegister (\<lambda>_. Some e) r c) rs) (m, k) = Some (m', k')"
    and "mg_sessions m = (\<lambda>_. None)" and "mgr_inv n (m, k)"
  shows "mg_sessions m' = (\<lambda>_. None) \<and> k' = min n (k + length rs)"
  using assms
proof (induction rs arbitrary: m k)
  case Nil
  then show ?case by (auto simp: mgr_inv_def live_def fl.within_def)
next
  case (Cons r rs)
  let ?m = "snd (RegisterSession (\<lambda>_. Some e) r c m)"
  let ?d = "dial_failed (OpRegister (\<lambda>_. Some e) r c) m"
  have inv: "mgr_inv n (?m, k + ?d)" by (rule mgr_inv_register [OF Cons.prems(3)])
  have s: "mg_sessions ?m = (\<lambda>_. None)"
    using Cons.prems(2) by (auto simp: RegisterSession_def split: sum.split)
  have IH: "mg_sessions m' = (\<lambda>_. None) \<and> k' = min n (k + ?d + length rs)"
    using Cons.IH [OF _ s inv] Cons.prems(1) by simp
  have w: "limiter_wf (mg_limiter m)" "limiter_limit (mg_limiter m) = Some n"
    "limiter_active (mg_limiter m) = k" "k \<le> n"
    using Cons.prems(2,3) by (auto simp: mgr_inv_def fl.within_def live_def)
  have "(\<exists>x. Acquire (mg_limiter m) = Inl x) \<longleftrightarrow> n \<le> k"
    using fl.acquire_full [OF w(1)] w(2,3) by simp
  then have "?d = (if k < n then 1 else 0)"
    using Cons.prems(2) by (cases "Acquire (mg_limiter m)") (auto simp: RegisterSession_def)
  with IH w(4) show ?case by auto
qed

lemma failed_dials_run_some: "\<exists>mk. mgr_run (map (\<lambda>r. OpRegister dial r c) rs) mk0 = Some mk"
  by (induction rs arbitrary: mk0) (auto split: prod.splits)

text \<open>C40. A failed dial keeps its slot of the flow limiter for ever: after as many registrations with
  a failing dial as the limit n, the table is empty and yet every registration, whatever its
  destination, is rejected as rate limited.\<close>

theorem failed_dials_exhaust_limiter:
  assumes "n \<noteq> 0" and "unat n \<le> length rs"
  shows "\<exists>m k. mgr_run (map (\<lambda>r. OpRegister (\<lambda>_. Some e) r c) rs) (NewSessionManager (NewLimiter n), 0) = Some (m, k)
    \<and> live m = 0 \<and> RegisterSession dial r c' m = (Inl ErrSessionRegistrationRateLimited, m)"
proof -
  obtain m k where r: "mgr_run (map (\<lambda>r. OpRegister (\<lambda>_. Some e) r c) rs)
      (NewSessionManager (NewLimiter n), 0) = Some (m, k)"
    using failed_dials_run_some by (metis surj_pair)
  have s: "mg_sessions m = (\<lambda>_. None)" and k: "k = unat n"
    using failed_dials_run [OF r _ mgr_inv_New [OF assms(1)]] assms(2)
    by (auto simp: NewSessionManager_def)
  have inv: "mgr_inv (unat n) (m, k)" by (rule mgr_run_New_inv [OF assms(1) r])
  then have w: "limiter_wf (mg_limiter m)" "limiter_limit (mg_limiter m) = Some (unat n)"
    "limiter_active (mg_limiter m) = unat n"
    using s k by (auto simp: mgr_inv_def fl.within_def live_def)
  then obtain x where "Acquire (mg_limiter m) = Inl x" using fl.acquire_full [OF w(1)] by auto
  then show ?thesis using r s by (simp add: RegisterSession_def live_def)
qed

theorem failed_dials_exhaust_limiter_witness:
  "\<exists>m k. mgr_run (map (\<lambda>r. OpRegister (\<lambda>_. Some 1) r 0) [sample_request 1, sample_request 2])
       (NewSessionManager (NewLimiter 2), 0) = Some (m, k)
     \<and> live m = 0 \<and> RegisterSession (\<lambda>_. None) (sample_request 3) 0 m = (Inl ErrSessionRegistrationRateLimited, m)"
  by (rule failed_dials_exhaust_limiter) simp_all

end
