(* ===== verification/Packet.thy ===== *)
theory Packet
  imports Cfd_Prelude
begin

text \<open>
  \<^verbatim>\<open>packet/packet.go\<close>, \<^verbatim>\<open>packet/decoder.go\<close> and \<^verbatim>\<open>packet/encoder.go\<close>: IP and ICMP packets and
  their decoding.  The layer parsers of gopacket (\<open>parse4\<close>, \<open>parse6\<close>), the ICMP message parser and
  marshaller of x/net and the layer serializer are arguments; the choice of parser by IP version,
  the conversions, the pseudo header and the TTL-exceeded reply are the program's.
\<close>

subsection \<open>Packets\<close>

record IP =
  ip_Src :: netip_addr
  ip_Dst :: netip_addr
  ip_Protocol :: byte
  ip_TTL :: byte

datatype icmp_body = TimeExceeded "byte list" | OtherBody "byte list"

record icmp_message =
  msg_Type :: byte
  msg_Code :: byte
  msg_Body :: icmp_body

record ICMP =
  icmp_IP :: IP
  icmp_Message :: icmp_message

definition IPProtocolICMPv4 :: byte where "IPProtocolICMPv4 = 1"
definition IPProtocolICMPv6 :: byte where "IPProtocolICMPv6 = 58"
definition ICMPv4TypeTimeExceeded :: byte where "ICMPv4TypeTimeExceeded = 11"
definition ICMPv6TypeTimeExceeded :: byte where "ICMPv6TypeTimeExceeded = 3"
definition icmpTTLExceedInTransitCode :: byte where "icmpTTLExceedInTransitCode = 0"
definition DefaultTTL :: byte where "DefaultTTL = 255"

definition ipv4MinHeaderLen :: nat where "ipv4MinHeaderLen = 20"
definition ipv6HeaderLen :: nat where "ipv6HeaderLen = 40"
definition ipv4MinMTU :: nat where "ipv4MinMTU = 576"
definition ipv6MinMTU :: nat where "ipv6MinMTU = 1280"
definition icmpHeaderLen :: nat where "icmpHeaderLen = 8"
definition pseudoHeaderLen :: nat where "pseudoHeaderLen = 40"

lemmas packet_const_defs = ipv4MinHeaderLen_def ipv6HeaderLen_def ipv4MinMTU_def ipv6MinMTU_def
  icmpHeaderLen_def pseudoHeaderLen_def

datatype packet_err =
    PacketEmpty
  | IPv4TooShort nat
  | IPv6TooShort nat
  | UnknownIPVersion byte
  | BadSourceIP "byte list"
  | BadDestIP "byte list"
  | NoIPLayer
  | NotICMPLayers
  | LibraryErr nat

text \<open>A layer decoded by gopacket: an IP header, or an ICMP layer with contents and payload.\<close>

record ip_header =
  hdr_SrcIP :: "byte list"
  hdr_DstIP :: "byte list"
  hdr_Protocol :: byte
  hdr_TTL :: byte

datatype decoded_layer =
    LayerIPv4 ip_header
  | LayerIPv6 ip_header
  | LayerICMPv4 "byte list" "byte list"
  | LayerICMPv6 "byte list" "byte list"

definition newIPv4 :: "ip_header \<Rightarrow> packet_err + IP" where
  "newIPv4 h =
     (case AddrFromSlice (hdr_SrcIP h) of None \<Rightarrow> Inl (BadSourceIP (hdr_SrcIP h)) | Some src \<Rightarrow>
      case AddrFromSlice (hdr_DstIP h) of None \<Rightarrow> Inl (BadDestIP (hdr_DstIP h)) | Some dst \<Rightarrow>
      Inr \<lparr>ip_Src = src, ip_Dst = dst, ip_Protocol = hdr_Protocol h, ip_TTL = hdr_TTL h\<rparr>)"

definition newIPv6 :: "ip_header \<Rightarrow> packet_err + IP" where
  "newIPv6 h =
     (case AddrFromSlice (hdr_SrcIP h) of None \<Rightarrow> Inl (BadSourceIP (hdr_SrcIP h)) | Some src \<Rightarrow>
      case AddrFromSlice (hdr_DstIP h) of None \<Rightarrow> Inl (BadDestIP (hdr_DstIP h)) | Some dst \<Rightarrow>
      Inr \<lparr>ip_Src = src, ip_Dst = dst, ip_Protocol = hdr_Protocol h, ip_TTL = hdr_TTL h\<rparr>)"

subsection \<open>Decoding\<close>

definition FindIPVersion :: "byte list \<Rightarrow> (packet_err, byte) outcome" where
  "FindIPVersion p =
     (if length p = 0 then Err PacketEmpty
      else obind (go_index p 0) (\<lambda>b. Ok (drop_bit 4 b)))"

definition FindProtocol :: "byte list \<Rightarrow> (packet_err, byte) outcome" where
  "FindProtocol p =
     obind (FindIPVersion p) (\<lambda>version.
     if version = 4 then
       (if length p < ipv4MinHeaderLen then Err (IPv4TooShort (length p)) else go_index p 9)
     else if version = 6 then
       (if length p < ipv6HeaderLen then Err (IPv6TooShort (length p)) else go_index p 6)
     else Err (UnknownIPVersion version))"

type_synonym layer_parser = "byte list \<Rightarrow> packet_err + decoded_layer list"

definition decodeByVersion ::
    "layer_parser \<Rightarrow> layer_parser \<Rightarrow> byte list \<Rightarrow> (packet_err, decoded_layer list) outcome" where
  "decodeByVersion parse4 parse6 p =
     obind (FindIPVersion p) (\<lambda>version.
     case (if version = 4 then parse4 p
           else if version = 6 then parse6 p
           else Inl (UnknownIPVersion version)) of
       Inl e \<Rightarrow> Err e
     | Inr ls \<Rightarrow> Ok ls)"

text \<open>
  The parser decodes every layer of a kind into one object, so the header the program reads is the
  last one decoded.
\<close>

fun last_ipv4 :: "decoded_layer list \<Rightarrow> ip_header option" where
  "last_ipv4 [] = None"
| "last_ipv4 (l # ls) =
     (case last_ipv4 ls of Some h \<Rightarrow> Some h
      | None \<Rightarrow> (case l of LayerIPv4 h \<Rightarrow> Some h | _ \<Rightarrow> None))"

fun last_ipv6 :: "decoded_layer list \<Rightarrow> ip_header option" where
  "last_ipv6 [] = None"
| "last_ipv6 (l # ls) =
     (case last_ipv6 ls of Some h \<Rightarrow> Some h
      | None \<Rightarrow> (case l of LayerIPv6 h \<Rightarrow> Some h | _ \<Rightarrow> None))"

text \<open>A header never decoded before is the zero object.\<close>

definition zero_header :: ip_header where
  "zero_header = \<lparr>hdr_SrcIP = [], hdr_DstIP = [], hdr_Protocol = 0, hdr_TTL = 0\<rparr>"

definition header_of :: "ip_header option \<Rightarrow> ip_header" where
  "header_of h = (case h of Some x \<Rightarrow> x | None \<Rightarrow> zero_header)"

fun first_ip :: "decoded_layer list \<Rightarrow> decoded_layer list \<Rightarrow> packet_err + IP" where
  "first_ip ls [] = Inl NoIPLayer"
| "first_ip ls (LayerIPv4 h # r) = newIPv4 (header_of (last_ipv4 ls))"
| "first_ip ls (LayerIPv6 h # r) = newIPv6 (header_of (last_ipv6 ls))"
| "first_ip ls (_ # r) = first_ip ls r"

definition IPDecoder_Decode ::
    "layer_parser \<Rightarrow> layer_parser \<Rightarrow> byte list \<Rightarrow> (packet_err, IP) outcome" where
  "IPDecoder_Decode parse4 parse6 p =
     obind (decodeByVersion parse4 parse6 p) (\<lambda>ls.
       case first_ip ls ls of Inl e \<Rightarrow> Err e | Inr ip \<Rightarrow> Ok ip)"

type_synonym msg_parser = "byte \<Rightarrow> byte list \<Rightarrow> packet_err + icmp_message"

fun icmp_of :: "packet_err + IP \<Rightarrow> packet_err + icmp_message \<Rightarrow> packet_err + ICMP" where
  "icmp_of (Inl e) m = Inl e"
| "icmp_of (Inr ip) (Inl e) = Inl e"
| "icmp_of (Inr ip) (Inr m) = Inr \<lparr>icmp_IP = ip, icmp_Message = m\<rparr>"

text \<open>The contents and payload of an ICMP layer are those of the layer met (each parser decodes
  at most one ICMP layer, which ends the parse).\<close>

fun first_icmp :: "msg_parser \<Rightarrow> decoded_layer list \<Rightarrow> decoded_layer list \<Rightarrow> packet_err + ICMP" where
  "first_icmp parse ls [] = Inl NotICMPLayers"
| "first_icmp parse ls (LayerICMPv4 c p # r) =
     icmp_of (newIPv4 (header_of (last_ipv4 ls))) (parse IPProtocolICMPv4 (c @ p))"
| "first_icmp parse ls (LayerICMPv6 c p # r) =
     icmp_of (newIPv6 (header_of (last_ipv6 ls))) (parse IPProtocolICMPv6 (c @ p))"
| "first_icmp parse ls (_ # r) = first_icmp parse ls r"

definition ICMPDecoder_Decode ::
    "layer_parser \<Rightarrow> layer_parser \<Rightarrow> msg_parser \<Rightarrow> byte list \<Rightarrow> (packet_err, ICMP) outcome" where
  "ICMPDecoder_Decode parse4 parse6 parse p =
     obind (decodeByVersion parse4 parse6 p) (\<lambda>ls.
       case first_icmp parse ls ls of Inl e \<Rightarrow> Err e | Inr icmp \<Rightarrow> Ok icmp)"

subsection \<open>Encoding\<close>

datatype serial_layer =
    SerIPv4 "byte list" "byte list" byte byte
  | SerIPv6 "byte list" "byte list" byte byte
  | SerPayload "byte list"

definition isIPv4 :: "IP \<Rightarrow> bool" where
  "isIPv4 ip = Is4 (ip_Src ip)"

definition IP_EncodeLayers :: "IP \<Rightarrow> serial_layer list" where
  "IP_EncodeLayers ip =
     (if isIPv4 ip then [SerIPv4 (AsSlice (ip_Src ip)) (AsSlice (ip_Dst ip)) (ip_Protocol ip) (ip_TTL ip)]
      else [SerIPv6 (AsSlice (ip_Src ip)) (AsSlice (ip_Dst ip)) (ip_Protocol ip) (ip_TTL ip)])"

record PseudoHeader =
  ph_SrcIP :: "byte list"
  ph_DstIP :: "byte list"
  ph_UpperLayerPacketLength :: u32
  ph_NextHeader :: byte

definition PseudoHeader_Marshal :: "PseudoHeader \<Rightarrow> byte list" where
  "PseudoHeader_Marshal ph =
     ph_SrcIP ph @ ph_DstIP ph @ put_u32 (ph_UpperLayerPacketLength ph) @ [0, 0, 0] @ [ph_NextHeader ph]"

definition ICMP_EncodeLayers ::
    "(icmp_message \<Rightarrow> byte list option \<Rightarrow> packet_err + byte list) \<Rightarrow> ICMP
      \<Rightarrow> (packet_err, serial_layer list) outcome" where
  "ICMP_EncodeLayers marshal i =
     obind (if ip_Protocol (icmp_IP i) = IPProtocolICMPv6
            then obind (As16 (ip_Src (icmp_IP i))) (\<lambda>src.
                 obind (As16 (ip_Dst (icmp_IP i))) (\<lambda>dst.
                 Ok (Some (PseudoHeader_Marshal \<lparr>ph_SrcIP = src, ph_DstIP = dst,
                   ph_UpperLayerPacketLength = 0, ph_NextHeader = ip_Protocol (icmp_IP i)\<rparr>))))
            else Ok None) (\<lambda>psh.
     case marshal (icmp_Message i) psh of
       Inl e \<Rightarrow> Err e
     | Inr msg \<Rightarrow> Ok (IP_EncodeLayers (icmp_IP i) @ [SerPayload msg]))"

definition Encode ::
    "(serial_layer list \<Rightarrow> packet_err + byte list) \<Rightarrow> (packet_err, serial_layer list) outcome
      \<Rightarrow> (packet_err, byte list) outcome" where
  "Encode serialize layers =
     obind layers (\<lambda>ls. case serialize ls of Inl e \<Rightarrow> Err e | Inr bs \<Rightarrow> Ok bs)"

subsection \<open>The TTL-exceeded reply\<close>

definition originalDatagram :: "byte list \<Rightarrow> bool \<Rightarrow> byte list" where
  "originalDatagram data v4 =
     (let upperBound = (if v4 then ipv4MinMTU - ipv4MinHeaderLen - icmpHeaderLen
                        else ipv6MinMTU - ipv6HeaderLen - icmpHeaderLen);
          upperBound = (if upperBound > length data then length data else upperBound)
      in take upperBound data)"

definition NewICMPTTLExceedPacket :: "IP \<Rightarrow> byte list \<Rightarrow> netip_addr \<Rightarrow> ICMP" where
  "NewICMPTTLExceedPacket originalIP originalPacket routerIP =
     (let v4 = Is4 (ip_Dst originalIP) in
      \<lparr>icmp_IP = \<lparr>ip_Src = routerIP, ip_Dst = ip_Src originalIP,
                 ip_Protocol = (if v4 then IPProtocolICMPv4 else IPProtocolICMPv6),
                 ip_TTL = DefaultTTL\<rparr>,
       icmp_Message = \<lparr>msg_Type = (if v4 then ICMPv4TypeTimeExceeded else ICMPv6TypeTimeExceeded),
                      msg_Code = icmpTTLExceedInTransitCode,
                      msg_Body = TimeExceeded (originalDatagram originalPacket v4)\<rparr>\<rparr>)"

lemma FindIPVersion_no_panic: "FindIPVersion p \<noteq> Panic"
  by (simp add: FindIPVersion_def go_index_def)

lemma originalDatagram_length:
  "length (originalDatagram d v4) = min (length d) (if v4 then 548 else 1232)"
  by (simp add: originalDatagram_def Let_def packet_const_defs)

subsection \<open>Properties\<close>

text \<open>Classifying any byte sequence never indexes past its end: FindProtocol never panics, and
  it succeeds exactly on a complete fixed header of IP version 4 (20 bytes) or 6 (40 bytes), with
  the protocol byte of that header.\<close>

theorem find_protocol_total:
  "FindProtocol p \<noteq> Panic \<and>
   (FindProtocol p = Ok b \<longleftrightarrow>
      (drop_bit 4 (hd p) = 4 \<and> 20 \<le> length p \<and> b = p ! 9)
      \<or> (drop_bit 4 (hd p) = 6 \<and> 40 \<le> length p \<and> b = p ! 6))"
proof (cases p)
  case Nil
  then show ?thesis by (simp add: FindProtocol_def FindIPVersion_def)
next
  case (Cons x xs)
  then have "FindIPVersion p = Ok (drop_bit 4 x)" by (simp add: FindIPVersion_def go_index_def)
  then show ?thesis
    using Cons by (auto simp: FindProtocol_def packet_const_defs go_index_def)
qed

text \<open>The TTL-exceeded reply fits the minimum MTU of its IP version: its IP header, ICMP header
  and quoted bytes stay within 576 bytes for IPv4 and 1280 for IPv6, the quoted bytes are a prefix
  of the original packet, and it is addressed to the sender with the protocol and type of the
  original destination's version.\<close>

theorem ttl_exceeded_fits_min_mtu:
  "\<exists>q. msg_Body (icmp_Message (NewICMPTTLExceedPacket ip pkt router)) = TimeExceeded q
     \<and> q = take (length q) pkt
     \<and> (if Is4 (ip_Dst ip) then ipv4MinHeaderLen + icmpHeaderLen + length q \<le> ipv4MinMTU
        else ipv6HeaderLen + icmpHeaderLen + length q \<le> ipv6MinMTU)
     \<and> ip_Dst (icmp_IP (NewICMPTTLExceedPacket ip pkt router)) = ip_Src ip"
  by (simp add: NewICMPTTLExceedPacket_def Let_def originalDatagram_length packet_const_defs)
     (simp add: originalDatagram_def Let_def packet_const_defs min_def)

text \<open>The pseudo header of ICMPv6 checksums is the 40 bytes of RFC 2460: both addresses, the
  length, three zero bytes and the next header, and encoding an ICMPv6 packet between real
  addresses never panics.\<close>

lemma icmp_encode_no_panic:
  assumes "ip_Src (icmp_IP i) \<noteq> ZeroAddr" and "ip_Dst (icmp_IP i) \<noteq> ZeroAddr"
    and "addr_wf (ip_Src (icmp_IP i))" and "addr_wf (ip_Dst (icmp_IP i))"
  shows "ICMP_EncodeLayers marshal i \<noteq> Panic
    \<and> (\<forall>s d. As16 (ip_Src (icmp_IP i)) = (Ok s :: (unit, _) outcome)
         \<and> As16 (ip_Dst (icmp_IP i)) = (Ok d :: (unit, _) outcome) \<longrightarrow>
         length (PseudoHeader_Marshal \<lparr>ph_SrcIP = s, ph_DstIP = d, ph_UpperLayerPacketLength = n,
           ph_NextHeader = h\<rparr>) = pseudoHeaderLen)"
  using assms
  by (cases "ip_Src (icmp_IP i)"; cases "ip_Dst (icmp_IP i)")
     (auto simp: ICMP_EncodeLayers_def PseudoHeader_Marshal_def packet_const_defs split: sum.splits)

end
