(* ===== verification/Muxer_V3.thy ===== *)
theory Muxer_V3
  imports Session_Manager_V3 Packet "HOL-Library.Multiset"
begin

text \<open>
  \<^verbatim>\<open>quic/v3/muxer.go\<close>: the datagram muxer of one QUIC connection.  The muxers of all connections
  share the session manager; \<open>mux_world\<close> is that shared state with what the connections were asked
  to send, where the goroutine of each new session is (it has registered the session, has answered,
  or waits in Serve), the handlers that wait in Migrate and the queue of ICMP datagrams.  \<open>send_err\<close> is the
  result of SendDatagram; the ICMP router, decoder and encoder are arguments.
\<close>

subsection \<open>State\<close>

record datagramConn =
  dc_index :: byte
  dc_ctx :: nat
  dc_hasICMPRouter :: bool

record mux_world =
  mw_manager :: sessionManager
  mw_sent :: "(byte \<times> byte list) list"
  mw_registered :: "(byte \<times> RequestID) list"
  mw_responded :: "(byte \<times> RequestID) list"
  mw_serving :: "(byte \<times> RequestID) list"
  mw_migrating :: "(byte \<times> RequestID) list"
  mw_icmpChan :: "ICMPDatagram list"
  mw_flows :: int
  mw_droppedUDP :: nat
  mw_droppedICMP :: nat
  mw_retries :: nat

definition icmpDatagramChanCapacity :: nat where
  "icmpDatagramChanCapacity = 128"

definition demuxChanCapacity :: nat where
  "demuxChanCapacity = 16"

subsection \<open>Sending\<close>

definition SendUDPSessionDatagram :: "datagramConn \<Rightarrow> byte list \<Rightarrow> mux_world \<Rightarrow> mux_world" where
  "SendUDPSessionDatagram c d w = w\<lparr>mw_sent := mw_sent w @ [(dc_index c, d)]\<rparr>"

text \<open>The boolean result says whether an error is returned.\<close>

definition SendUDPSessionResponse ::
    "datagramConn \<Rightarrow> nat option \<Rightarrow> RequestID \<Rightarrow> SessionRegistrationResp \<Rightarrow> mux_world
      \<Rightarrow> bool \<times> mux_world" where
  "SendUDPSessionResponse c send_err i resp w =
     (case Response_MarshalBinary \<lparr>resp_RequestID = i, resp_ResponseType = resp, resp_ErrorMsg = []\<rparr> of
        Ok data \<Rightarrow> (send_err \<noteq> None, SendUDPSessionDatagram c data w)
      | _ \<Rightarrow> (True, w))"

definition set_manager :: "sessionManager \<Rightarrow> mux_world \<Rightarrow> mux_world" where
  "set_manager m w = w\<lparr>mw_manager := m\<rparr>"

definition on_session :: "RequestID \<Rightarrow> (session \<Rightarrow> session) \<Rightarrow> mux_world \<Rightarrow> mux_world" where
  "on_session i f w = set_manager (update_session i f (mw_manager w)) w"

subsection \<open>Registration handlers\<close>

definition handleSessionAlreadyRegistered ::
    "datagramConn \<Rightarrow> nat option \<Rightarrow> int \<Rightarrow> RequestID \<Rightarrow> mux_world \<Rightarrow> mux_world" where
  "handleSessionAlreadyRegistered c send_err now i w =
     (let (failed, w1) = SendUDPSessionResponse c send_err i ResponseOk w
      in if failed then w1
         else case GetSession i (mw_manager w1) of
                Inl e \<Rightarrow> w1
              | Inr s \<Rightarrow> (on_session i (ResetIdleTimer now) w1)\<lparr>mw_retries := mw_retries w1 + 1\<rparr>)"

text \<open>
  A migration up to the point where it blocks in \<^verbatim>\<open>session.Migrate\<close>, which waits for the session's
  watcher to receive the new context; \<open>migrationReturned\<close> is the rest.
\<close>

definition handleSessionMigration ::
    "datagramConn \<Rightarrow> int \<Rightarrow> RequestID \<Rightarrow> mux_world \<Rightarrow> mux_world" where
  "handleSessionMigration c now i w =
     (case GetSession i (mw_manager w) of
        Inl e \<Rightarrow> w
      | Inr s \<Rightarrow> (on_session i (Migrate (dc_index c) (dc_ctx c) now) w)
                  \<lparr>mw_migrating := (dc_index c, i) # mw_migrating w\<rparr>)"

definition migrationReturned ::
    "datagramConn \<Rightarrow> nat option \<Rightarrow> int \<Rightarrow> RequestID \<Rightarrow> mux_world \<Rightarrow> mux_world option" where
  "migrationReturned c send_err now i w =
     (case GetSession i (mw_manager w) of
        Inl e \<Rightarrow> None
      | Inr s \<Rightarrow>
          (if (dc_index c, i) \<in> set (mw_migrating w)
           then case session_event (EvMigrateEnd now) s of
                  None \<Rightarrow> None
                | Some s' \<Rightarrow>
                    Some (snd (SendUDPSessionResponse c send_err i ResponseOk
                      ((on_session i (\<lambda>_. s') w)\<lparr>mw_migrating := remove1 (dc_index c, i) (mw_migrating w)\<rparr>)))
           else None))"

definition handleSessionRegistrationFailure ::
    "datagramConn \<Rightarrow> nat option \<Rightarrow> RequestID \<Rightarrow> mux_world \<Rightarrow> mux_world" where
  "handleSessionRegistrationFailure c send_err i w =
     snd (SendUDPSessionResponse c send_err i ResponseUnableToBindSocket w)"

definition handleSessionRegistrationRateLimited ::
    "datagramConn \<Rightarrow> nat option \<Rightarrow> RequestID \<Rightarrow> mux_world \<Rightarrow> mux_world" where
  "handleSessionRegistrationRateLimited c send_err i w =
     snd (SendUDPSessionResponse c send_err i ResponseTooManyActiveFlows w)"

text \<open>The deferred calls of the registration handler.\<close>

definition finish_registration :: "RequestID \<Rightarrow> mux_world \<Rightarrow> mux_world" where
  "finish_registration i w =
     (set_manager (snd (UnregisterSession i (mw_manager w))) w)\<lparr>mw_flows := mw_flows w - 1\<rparr>"

text \<open>
  The handler up to the registration; for a new session the goroutine then answers
  (\<open>registrationResponds\<close>), starts to serve (\<open>registrationServes\<close>), blocks in \<^verbatim>\<open>session.Serve\<close> and
  cleans up (\<open>registrationServeReturned\<close>).  Each of these is a step of its own, between which every
  other goroutine can run.
\<close>

definition handleSessionRegistrationDatagram ::
    "datagramConn \<Rightarrow> dialer \<Rightarrow> nat option \<Rightarrow> int \<Rightarrow> UDPSessionRegistrationDatagram \<Rightarrow> mux_world
      \<Rightarrow> mux_world" where
  "handleSessionRegistrationDatagram c dial send_err now d w =
     (let (res, m) = RegisterSession dial d (dc_index c) (mw_manager w);
          w1 = set_manager m w;
          i = reg_RequestID d
      in case res of
           Inl ErrSessionAlreadyRegistered \<Rightarrow> handleSessionAlreadyRegistered c send_err now i w1
         | Inl ErrSessionBoundToOtherConn \<Rightarrow> handleSessionMigration c now i w1
         | Inl ErrSessionRegistrationRateLimited \<Rightarrow> handleSessionRegistrationRateLimited c send_err i w1
         | Inl e \<Rightarrow> handleSessionRegistrationFailure c send_err i w1
         | Inr s \<Rightarrow> w1\<lparr>mw_flows := mw_flows w1 + 1, mw_registered := (dc_index c, i) # mw_registered w1\<rparr>)"

definition registrationResponds ::
    "datagramConn \<Rightarrow> nat option \<Rightarrow> RequestID \<Rightarrow> mux_world \<Rightarrow> mux_world option" where
  "registrationResponds c send_err i w =
     (if (dc_index c, i) \<in> set (mw_registered w) then
        (let (failed, w1) = SendUDPSessionResponse c send_err i ResponseOk
               (w\<lparr>mw_registered := remove1 (dc_index c, i) (mw_registered w)\<rparr>)
         in Some (if failed then finish_registration i w1
                  else w1\<lparr>mw_responded := (dc_index c, i) # mw_responded w1\<rparr>))
      else None)"

text \<open>Only this step calls Serve, so the session is not served yet.\<close>

definition registrationServes :: "datagramConn \<Rightarrow> int \<Rightarrow> RequestID \<Rightarrow> mux_world \<Rightarrow> mux_world option" where
  "registrationServes c now i w =
     (case mg_sessions (mw_manager w) i of
        None \<Rightarrow> None
      | Some s \<Rightarrow>
          (if (dc_index c, i) \<in> set (mw_responded w)
           then map_option
                  (\<lambda>s'. (on_session i (\<lambda>_. s') w)
                     \<lparr>mw_responded := remove1 (dc_index c, i) (mw_responded w),
                      mw_serving := (dc_index c, i) # mw_serving w\<rparr>)
                  (session_event (EvServe (dc_ctx c) now) s)
           else None))"

definition registrationServeReturned :: "datagramConn \<Rightarrow> RequestID \<Rightarrow> mux_world \<Rightarrow> mux_world option" where
  "registrationServeReturned c i w =
     (if (dc_index c, i) \<in> set (mw_serving w)
         \<and> (case mg_sessions (mw_manager w) i of
              Some s \<Rightarrow> (case sn_watcher s of Returned e \<Rightarrow> True | _ \<Rightarrow> False)
            | None \<Rightarrow> False)
      then Some ((finish_registration i w)\<lparr>mw_serving := remove1 (dc_index c, i) (mw_serving w)\<rparr>)
      else None)"

subsection \<open>Payload and ICMP handlers\<close>

definition handleSessionPayloadDatagram :: "UDPSessionPayloadDatagram \<Rightarrow> mux_world \<Rightarrow> mux_world" where
  "handleSessionPayloadDatagram d w =
     (case GetSession (pay_RequestID d) (mw_manager w) of
        Inl e \<Rightarrow> w\<lparr>mw_droppedUDP := mw_droppedUDP w + 1\<rparr>
      | Inr s \<Rightarrow> on_session (pay_RequestID d) (Write (pay_Payload d)) w)"

definition handleICMPPacket :: "datagramConn \<Rightarrow> ICMPDatagram \<Rightarrow> mux_world \<Rightarrow> mux_world" where
  "handleICMPPacket c d w =
     (if \<not> dc_hasICMPRouter c then w
      else if length (mw_icmpChan w) < icmpDatagramChanCapacity
      then w\<lparr>mw_icmpChan := mw_icmpChan w @ [d]\<rparr>
      else w\<lparr>mw_droppedICMP := mw_droppedICMP w + 1\<rparr>)"

text \<open>
  What \<^verbatim>\<open>writeICMPPacket\<close> does with a packet: drop it, answer that its TTL is exceeded, or hand it
  to the ICMP router.
\<close>

datatype icmp_action = DropICMP | ReplyTTLExceeded ICMP "byte list" | RequestICMP ICMP

definition writeICMPPacket ::
    "(byte list \<Rightarrow> (packet_err, ICMP) outcome) \<Rightarrow> ICMPDatagram \<Rightarrow> icmp_action" where
  "writeICMPPacket decode d =
     (case decode (icmp_Payload d) of
        Ok icmp \<Rightarrow>
          if ip_TTL (icmp_IP icmp) \<le> 1 then ReplyTTLExceeded icmp (icmp_Payload d)
          else RequestICMP (icmp\<lparr>icmp_IP := (icmp_IP icmp)\<lparr>ip_TTL := ip_TTL (icmp_IP icmp) - 1\<rparr>\<rparr>)
      | _ \<Rightarrow> DropICMP)"

definition SendICMPPacket ::
    "datagramConn \<Rightarrow> (ICMP \<Rightarrow> (packet_err, byte list) outcome) \<Rightarrow> ICMP \<Rightarrow> mux_world \<Rightarrow> mux_world option" where
  "SendICMPPacket c encode icmp w =
     (case encode icmp of
        Ok payload \<Rightarrow>
          (case ICMP_MarshalBinary \<lparr>icmp_Payload = payload\<rparr> of
             Ok datagram \<Rightarrow> Some (SendUDPSessionDatagram c datagram w)
           | _ \<Rightarrow> None)
      | _ \<Rightarrow> None)"

text \<open>\<^verbatim>\<open>icmpRouter.ConvertToTTLExceeded\<close> is the argument \<open>convert\<close>.\<close>

definition SendICMPTTLExceed ::
    "datagramConn \<Rightarrow> (ICMP \<Rightarrow> byte list \<Rightarrow> ICMP) \<Rightarrow> (ICMP \<Rightarrow> (packet_err, byte list) outcome)
      \<Rightarrow> ICMP \<Rightarrow> byte list \<Rightarrow> mux_world \<Rightarrow> mux_world option" where
  "SendICMPTTLExceed c convert encode icmp raw w = SendICMPPacket c encode (convert icmp raw) w"

subsection \<open>The demultiplexer\<close>

datatype mux_action =
    Register UDPSessionRegistrationDatagram
  | Deliver UDPSessionPayloadDatagram
  | ICMPIn ICMPDatagram
  | Skip

text \<open>One iteration of the loop of \<^verbatim>\<open>Serve\<close> after a datagram was taken from the queue.\<close>

definition demux :: "byte list \<Rightarrow> (v3_err, mux_action) outcome" where
  "demux datagram =
     (case ParseDatagramType datagram of
        Ok typ \<Rightarrow>
          if typ = UDPSessionRegistrationType then
            (case Registration_UnmarshalBinary datagram of
               Ok r \<Rightarrow> Ok (Register r) | Err e \<Rightarrow> Ok Skip | Panic \<Rightarrow> Panic)
          else if typ = UDPSessionPayloadType then
            (case Payload_UnmarshalBinary datagram of
               Ok p \<Rightarrow> Ok (Deliver p) | Err e \<Rightarrow> Ok Skip | Panic \<Rightarrow> Panic)
          else if typ = ICMPType then
            (case ICMP_UnmarshalBinary datagram of
               Ok i \<Rightarrow> Ok (ICMPIn i) | Err e \<Rightarrow> Ok Skip | Panic \<Rightarrow> Panic)
          else Ok Skip
      | Err e \<Rightarrow> Ok Skip
      | Panic \<Rightarrow> Panic)"

definition serve_datagram ::
    "datagramConn \<Rightarrow> dialer \<Rightarrow> nat option \<Rightarrow> int \<Rightarrow> byte list \<Rightarrow> mux_world \<Rightarrow> (v3_err, mux_world) outcome" where
  "serve_datagram c dial send_err now datagram w =
     (case demux datagram of
        Ok (Register r) \<Rightarrow> Ok (handleSessionRegistrationDatagram c dial send_err now r w)
      | Ok (Deliver p) \<Rightarrow> Ok (handleSessionPayloadDatagram p w)
      | Ok (ICMPIn i) \<Rightarrow> Ok (handleICMPPacket c i w)
      | Ok Skip \<Rightarrow> Ok w
      | Err e \<Rightarrow> Ok w
      | Panic \<Rightarrow> Panic)"

subsection \<open>Reachable states\<close>

definition mux_init :: "u64 \<Rightarrow> mux_world" where
  "mux_init n = \<lparr>mw_manager = NewSessionManager (NewLimiter n), mw_sent = [], mw_registered = [], mw_responded = [], mw_serving = [],
     mw_migrating = [], mw_icmpChan = [], mw_flows = 0, mw_droppedUDP = 0, mw_droppedICMP = 0,
     mw_retries = 0\<rparr>"

inductive mux_step :: "mux_world \<Rightarrow> mux_world \<Rightarrow> bool" where
  datagram: "serve_datagram c dial send_err now d w = Ok w' \<Longrightarrow> mux_step w w'"
| responds: "registrationResponds c send_err i w = Some w' \<Longrightarrow> mux_step w w'"
| serves: "registrationServes c now i w = Some w' \<Longrightarrow> mux_step w w'"
| served: "registrationServeReturned c i w = Some w' \<Longrightarrow> mux_step w w'"
| migrated: "migrationReturned c send_err now i w = Some w' \<Longrightarrow> mux_step w w'"
| session_moves: "\<lbrakk>mg_sessions (mw_manager w) i = Some s; \<nexists>ctx now. ev = EvServe ctx now; session_event ev s = Some s'\<rbrakk>
    \<Longrightarrow> mux_step w (on_session i (\<lambda>_. s') w)"

inductive_cases mux_stepE: "mux_step w w'"

definition mux_sessions :: "mux_world \<Rightarrow> RequestID \<Rightarrow> session option" where
  "mux_sessions w = mg_sessions (mw_manager w)"

definition mux_limiter :: "mux_world \<Rightarrow> flowLimiter" where
  "mux_limiter w = mg_limiter (mw_manager w)"

text \<open>
  \<open>table_ok\<close>: every entry is the session of its key and satisfies the session invariant.
  \<open>owned\<close>: the live sessions are those of the goroutines of new registrations, one each.
\<close>

definition table_ok :: "(RequestID \<Rightarrow> session option) \<Rightarrow> bool" where
  "table_ok t = (finite (dom t) \<and> (\<forall>i s. t i = Some s \<longrightarrow> sn_id s = i \<and> session_inv s))"

definition owners :: "mux_world \<Rightarrow> (byte \<times> RequestID) list" where
  "owners w = mw_registered w @ mw_responded w @ mw_serving w"

definition owned :: "mux_world \<Rightarrow> bool" where
  "owned w = (distinct (map snd (owners w)) \<and> snd ` set (owners w) = dom (mux_sessions w))"

definition limited :: "nat \<Rightarrow> mux_world \<Rightarrow> bool" where
  "limited n w = (fl.within (mux_limiter w) \<and> limiter_limit (mux_limiter w) = Some n
     \<and> card (dom (mux_sessions w)) \<le> limiter_active (mux_limiter w))"

definition mux_inv :: "nat \<Rightarrow> mux_world \<Rightarrow> bool" where
  "mux_inv n w = (table_ok (mux_sessions w) \<and> owned w \<and> limited n w)"

lemma mux_frame [simp]:
  "mux_sessions (w\<lparr>mw_flows := f\<rparr>) = mux_sessions w" "mux_limiter (w\<lparr>mw_flows := f\<rparr>) = mux_limiter w"
  "mux_sessions (w\<lparr>mw_serving := l\<rparr>) = mux_sessions w" "mux_limiter (w\<lparr>mw_serving := l\<rparr>) = mux_limiter w"
  "mux_sessions (w\<lparr>mw_registered := l\<rparr>) = mux_sessions w" "mux_limiter (w\<lparr>mw_registered := l\<rparr>) = mux_limiter w"
  "mux_sessions (w\<lparr>mw_responded := l\<rparr>) = mux_sessions w" "mux_limiter (w\<lparr>mw_responded := l\<rparr>) = mux_limiter w"
  "mux_sessions (w\<lparr>mw_migrating := l\<rparr>) = mux_sessions w" "mux_limiter (w\<lparr>mw_migrating := l\<rparr>) = mux_limiter w"
  "mux_sessions (w\<lparr>mw_retries := k\<rparr>) = mux_sessions w" "mux_limiter (w\<lparr>mw_retries := k\<rparr>) = mux_limiter w"
  "mux_sessions (w\<lparr>mw_droppedUDP := k\<rparr>) = mux_sessions w" "mux_limiter (w\<lparr>mw_droppedUDP := k\<rparr>) = mux_limiter w"
  "mux_sessions (w\<lparr>mw_droppedICMP := k\<rparr>) = mux_sessions w" "mux_limiter (w\<lparr>mw_droppedICMP := k\<rparr>) = mux_limiter w"
  "mux_sessions (w\<lparr>mw_icmpChan := q\<rparr>) = mux_sessions w" "mux_limiter (w\<lparr>mw_icmpChan := q\<rparr>) = mux_limiter w"
  "mux_sessions (w\<lparr>mw_sent := x\<rparr>) = mux_sessions w" "mux_limiter (w\<lparr>mw_sent := x\<rparr>) = mux_limiter w"
  "mux_sessions (set_manager m w) = mg_sessions m" "mux_limiter (set_manager m w) = mg_limiter m"
  "mw_serving (set_manager m w) = mw_serving w" "mw_sent (set_manager m w) = mw_sent w"
  "mw_registered (set_manager m w) = mw_registered w" "mw_responded (set_manager m w) = mw_responded w"
  "mw_migrating (set_manager m w) = mw_migrating w"
  by (simp_all add: mux_sessions_def mux_limiter_def set_manager_def)

lemma send_response:
  "\<exists>d. SendUDPSessionResponse c e i r w = (e \<noteq> None, w\<lparr>mw_sent := mw_sent w @ [(dc_index c, d)]\<rparr>)
     \<and> Response_UnmarshalBinary d = Ok \<lparr>resp_RequestID = i, resp_ResponseType = r, resp_ErrorMsg = []\<rparr>"
proof -
  let ?r = "\<lparr>resp_RequestID = i, resp_ResponseType = r, resp_ErrorMsg = []\<rparr>"
  have "response_dom ?r" by (simp add: response_dom_def)
  then obtain d where "Response_MarshalBinary ?r = Ok d" "Response_UnmarshalBinary d = Ok ?r"
    using resp.round_trip by blast
  then show ?thesis
    by (intro exI [of _ d]) (simp add: SendUDPSessionResponse_def SendUDPSessionDatagram_def)
qed

lemma on_session_simps [simp]:
  "mux_sessions (on_session i f w) = (mux_sessions w)(i := map_option f (mux_sessions w i))"
  "mux_limiter (on_session i f w) = mux_limiter w" "mw_serving (on_session i f w) = mw_serving w"
  "mw_sent (on_session i f w) = mw_sent w" "mw_migrating (on_session i f w) = mw_migrating w"
  "mw_registered (on_session i f w) = mw_registered w" "mw_responded (on_session i f w) = mw_responded w"
  by (simp_all add: on_session_def update_session_def mux_sessions_def mux_limiter_def set_manager_def)

lemma owners_frame [simp]:
  "owners (w\<lparr>mw_flows := f\<rparr>) = owners w" "owners (w\<lparr>mw_migrating := l\<rparr>) = owners w" "owners (w\<lparr>mw_retries := k\<rparr>) = owners w"
  "owners (w\<lparr>mw_droppedUDP := k\<rparr>) = owners w" "owners (w\<lparr>mw_droppedICMP := k\<rparr>) = owners w"
  "owners (w\<lparr>mw_icmpChan := q\<rparr>) = owners w" "owners (w\<lparr>mw_sent := x\<rparr>) = owners w"
  "owners (set_manager m w) = owners w" "owners (on_session i g w) = owners w"
  by (simp_all add: owners_def)

lemma owned_mset:
  assumes "owned w" and "mset (owners w') = mset (owners w)" and "dom (mux_sessions w') = dom (mux_sessions w)"
  shows "owned w'"
proof -
  have "mset (map snd (owners w')) = mset (map snd (owners w))" using assms(2) by simp
  then have "distinct (map snd (owners w'))" using assms(1) by (metis mset_eq_imp_distinct_iff owned_def)
  moreover have "set (owners w') = set (owners w)" using assms(2) by (rule mset_eq_setD)
  ultimately show ?thesis using assms(1,3) by (simp add: owned_def)
qed

text \<open>A state with the same owners and limiter and an updated table of the same domain.\<close>

lemma mux_inv_update:
  assumes "mux_inv n w" and "mset (owners w') = mset (owners w)" and "mux_limiter w' = mux_limiter w"
    and "\<And>j s. mux_sessions w' j = Some s \<Longrightarrow> sn_id s = j \<and> session_inv s"
    and "dom (mux_sessions w') = dom (mux_sessions w)"
  shows "mux_inv n w'"
  using assms owned_mset [of w w'] by (simp add: mux_inv_def limited_def table_ok_def)

lemma mux_inv_same:
  assumes "mux_inv n w" and "mset (owners w') = mset (owners w)" and "mux_limiter w' = mux_limiter w"
    and "mux_sessions w' = mux_sessions w"
  shows "mux_inv n w'"
  using assms owned_mset [of w w'] by (simp add: mux_inv_def limited_def)

lemma mux_inv_on_session:
  assumes "mux_inv n w" and "\<And>s. mux_sessions w i = Some s \<Longrightarrow> sn_id (f s) = sn_id s \<and> session_inv (f s)"
  shows "mux_inv n (on_session i f w)"
proof (rule mux_inv_update [OF assms(1)])
  fix j s
  assume "mux_sessions (on_session i f w) j = Some s"
  then show "sn_id s = j \<and> session_inv s"
    using assms by (cases "j = i") (auto simp: mux_inv_def table_ok_def)
qed auto

lemma table_session: "\<lbrakk>mux_inv n w; mux_sessions w i = Some s\<rbrakk> \<Longrightarrow> sn_id s = i \<and> session_inv s"
  by (simp add: mux_inv_def table_ok_def)

lemma mux_inv_response:
  "mux_inv n w \<Longrightarrow> mux_inv n (snd (SendUDPSessionResponse c e i r w))"
  using send_response [of c e i r w] by (auto intro: mux_inv_same)

lemma mux_inv_AlreadyRegistered:
  assumes "mux_inv n w"
  shows "mux_inv n (handleSessionAlreadyRegistered c e now i w)"
proof -
  let ?w = "snd (SendUDPSessionResponse c e i ResponseOk w)"
  have w: "mux_inv n ?w" by (rule mux_inv_response [OF assms])
  have "mux_inv n ((on_session i (ResetIdleTimer now) ?w)\<lparr>mw_retries := k\<rparr>)" for k
    by (rule mux_inv_same [OF mux_inv_on_session [OF w, of i "ResetIdleTimer now"]])
       (auto simp: ResetIdleTimer_def session_inv_steps dest: table_session [OF w])
  then show ?thesis
    using w by (cases "SendUDPSessionResponse c e i ResponseOk w")
      (simp add: handleSessionAlreadyRegistered_def split: sum.split)
qed

lemma mux_inv_Migration:
  assumes "mux_inv n w"
  shows "mux_inv n (handleSessionMigration c now i w)"
proof -
  have "mux_inv n ((on_session i (Migrate (dc_index c) (dc_ctx c) now) w)\<lparr>mw_migrating := l\<rparr>)" for l
    by (rule mux_inv_same [OF mux_inv_on_session [OF assms, of i "Migrate (dc_index c) (dc_ctx c) now"]])
       (auto simp: session_inv_Migrate dest: table_session [OF assms])
  then show ?thesis using assms by (simp add: handleSessionMigration_def split: sum.split)
qed

lemma mux_sessions_register:
  assumes "RegisterSession dial d k (mw_manager w) = (Inr s, m)"
  shows "mux_sessions w (reg_RequestID d) = None"
    and "s = NewSession (reg_RequestID d) (reg_IdleDurationHint d) k"
    and "mg_sessions m = (mux_sessions w)(reg_RequestID d := Some s)"
    and "Acquire (mux_limiter w) = Inr (mg_limiter m)"
  using RegisterSession_new [OF assms] by (auto simp: mux_sessions_def mux_limiter_def)

lemma limited_acquire:
  assumes "limited n w" and "Acquire (mux_limiter w) = Inr l"
  shows "fl.within l \<and> limiter_limit l = Some n
    \<and> Suc (card (dom (mux_sessions w))) \<le> limiter_active l"
proof -
  have w: "limiter_wf (mux_limiter w)" and wi: "fl.within (mux_limiter w)"
    and lim: "limiter_limit (mux_limiter w) = Some n"
    using assms(1) by (auto simp: limited_def fl.within_def)
  show ?thesis
    using fl.within_acquire [OF wi assms(2)] fl.acquire_frame [OF w assms(2)] lim
      fl.acquire_below(2) [OF w assms(2) lim] assms(1)
    by (simp add: limited_def)
qed

text \<open>The goroutine of a session ends: its session and its slot go.\<close>

lemma finish_registration_inv:
  assumes "mux_inv n w" and "mset (owners w) = add_mset (k, i) (mset (owners w'))"
    and "mux_sessions w' = (mux_sessions w)(i := None)" and "mux_limiter w' = Release (mux_limiter w)"
  shows "mux_inv n w'"
proof -
  have inv: "table_ok (mux_sessions w)" "owned w" "limited n w" using assms(1) by (simp_all add: mux_inv_def)
  have "mset (map snd (owners w)) = mset (map snd ((k, i) # owners w'))" using assms(2) by simp
  then have "distinct (map snd ((k, i) # owners w'))" using inv(2) by (metis mset_eq_imp_distinct_iff owned_def)
  then have o: "distinct (map snd (owners w'))" "i \<notin> snd ` set (owners w')" by simp_all
  have "set (owners w) = set ((k, i) # owners w')" using assms(2) by (intro mset_eq_setD) simp
  then have dom: "dom (mux_sessions w) = insert i (snd ` set (owners w'))" using inv(2) by (simp add: owned_def)
  have d: "dom (mux_sessions w') = snd ` set (owners w')" unfolding assms(3) using dom o(2) by auto
  have "table_ok (mux_sessions w')"
    using inv(1) unfolding assms(3) by (auto simp: table_ok_def split: if_splits)
  moreover have "owned w'" using o(1) d by (simp add: owned_def)
  moreover have "limited n w'"
  proof -
    have l: "fl.within (mux_limiter w)" "limiter_limit (mux_limiter w) = Some n"
      "card (dom (mux_sessions w)) \<le> limiter_active (mux_limiter w)" and wf: "limiter_wf (mux_limiter w)"
      using inv(3) by (auto simp: limited_def fl.within_def)
    have "card (dom (mux_sessions w)) = Suc (card (dom (mux_sessions w')))" unfolding dom d using o(2) by simp
    then have "card (dom (mux_sessions w')) \<le> limiter_active (mux_limiter w) - 1" using l(3) by linarith
    then show ?thesis
      unfolding limited_def assms(4)
      using fl.within_release [OF l(1)] fl.release_frame [OF wf] fl.release_active [OF wf] l(2) by simp
  qed
  ultimately show ?thesis by (simp add: mux_inv_def)
qed

lemma finish_registration_simps [simp]:
  "mux_sessions (finish_registration i w) = (mux_sessions w)(i := None)"
  "mux_limiter (finish_registration i w) = Release (mux_limiter w)" "owners (finish_registration i w) = owners w"
  "mw_sent (finish_registration i w) = mw_sent w" "mw_registered (finish_registration i w) = mw_registered w"
  "mw_responded (finish_registration i w) = mw_responded w" "mw_serving (finish_registration i w) = mw_serving w"
  by (simp_all add: finish_registration_def UnregisterSession_def mux_sessions_def mux_limiter_def set_manager_def owners_def)

lemma mux_inv_register_new:
  assumes "mux_inv n w" and R: "RegisterSession dial d (dc_index c) (mw_manager w) = (Inr s, m)"
  shows "mux_inv n (handleSessionRegistrationDatagram c dial e now d w)"
proof -
  let ?i = "reg_RequestID d" and ?w = "handleSessionRegistrationDatagram c dial e now d w"
  note reg = mux_sessions_register [OF R]
  have w: "mux_sessions ?w = (mux_sessions w)(?i := Some s)" "mux_limiter ?w = mg_limiter m" "owners ?w = (dc_index c, ?i) # owners w"
    using R reg(3) by (simp_all add: handleSessionRegistrationDatagram_def Let_def owners_def)
  have s: "sn_id s = ?i" "session_inv s"
    using reg(2) session_inv_New by (simp_all add: NewSession_def)
  have o: "owned w" and l: "limited n w" and t: "table_ok (mux_sessions w)"
    using assms(1) by (auto simp: mux_inv_def)
  have d: "dom (mux_sessions ?w) = insert ?i (dom (mux_sessions w))" unfolding w by auto
  have "table_ok (mux_sessions ?w)"
    using t s d unfolding w by (auto simp: table_ok_def split: if_splits)
  moreover have "?i \<notin> snd ` set (owners w)" using o reg(1) by (auto simp: owned_def)
  then have "owned ?w" using o d by (simp add: owned_def w(3))
  moreover have "limited n ?w"
    using limited_acquire [OF l reg(4)] d t reg(1) by (simp add: limited_def table_ok_def domIff w(2))
  ultimately show ?thesis by (simp add: mux_inv_def)
qed

lemma mset_moved: "x \<in> set xs \<Longrightarrow> mset xs = add_mset x (mset (remove1 x xs))"
  by simp

lemma mux_inv_responds:
  assumes "mux_inv n w" and "registrationResponds c e i w = Some w'"
  shows "mux_inv n w'"
proof -
  let ?x = "(dc_index c, i)"
  let ?w0 = "w\<lparr>mw_registered := remove1 ?x (mw_registered w)\<rparr>"
  obtain b where S: "SendUDPSessionResponse c e i ResponseOk ?w0 = (e \<noteq> None, ?w0\<lparr>mw_sent := mw_sent ?w0 @ [(dc_index c, b)]\<rparr>)"
    using send_response by blast
  have m: "?x \<in> set (mw_registered w)" using assms(2) by (auto simp: registrationResponds_def split: if_splits)
  show ?thesis
  proof (cases e)
    case None
    then show ?thesis
      using assms(2) S m mset_moved [OF m]
      by (intro mux_inv_same [OF assms(1)]) (auto simp: registrationResponds_def Let_def owners_def)
  next
    case (Some x)
    then show ?thesis
      using assms(2) S m mset_moved [OF m]
      by (intro finish_registration_inv [OF assms(1), of "dc_index c" i])
         (auto simp: registrationResponds_def Let_def owners_def)
  qed
qed

lemma mux_inv_serves:
  assumes "mux_inv n w" and "registrationServes c now i w = Some w'"
  shows "mux_inv n w'"
proof -
  let ?x = "(dc_index c, i)"
  obtain s where s: "mux_sessions w i = Some s" "?x \<in> set (mw_responded w)" "sn_watcher s = NotServing"
    and w': "w' = (on_session i (\<lambda>_. Serve (dc_ctx c) now s) w)
        \<lparr>mw_responded := remove1 ?x (mw_responded w), mw_serving := ?x # mw_serving w\<rparr>"
    using assms(2) by (auto simp: registrationServes_def mux_sessions_def split: option.splits if_splits)
  have "mux_inv n (on_session i (\<lambda>_. Serve (dc_ctx c) now s) w)"
    using table_session [OF assms(1) s(1)] session_inv_Serve s
    by (intro mux_inv_on_session [OF assms(1)]) (auto simp: Serve_def)
  then show ?thesis
    unfolding w' by (rule mux_inv_same) (use mset_moved [OF s(2)] in \<open>simp_all add: owners_def\<close>)
qed

lemma mux_inv_register_fail:
  assumes "mux_inv n w" and R: "RegisterSession dial d (dc_index c) (mw_manager w) = (Inl x, m)"
  shows "mux_inv n (handleSessionRegistrationDatagram c dial e now d w)"
proof -
  let ?w = "set_manager m w"
  have f: "mg_sessions m = mux_sessions w"
    and g: "Acquire (mux_limiter w) = Inr (mg_limiter m) \<or> m = mw_manager w"
    using RegisterSession_fail [OF R] by (auto simp: mux_sessions_def mux_limiter_def)
  have "limited n ?w"
    using g assms(1) limited_acquire [of n w "mg_limiter m"]
    by (auto simp: mux_inv_def limited_def f) (simp_all add: mux_limiter_def)
  then have w: "mux_inv n ?w" using assms(1) f by (simp add: mux_inv_def owned_def)
  show ?thesis
    using R w
    by (cases x)
       (simp_all add: handleSessionRegistrationDatagram_def Let_def mux_inv_AlreadyRegistered
         mux_inv_Migration handleSessionRegistrationRateLimited_def
         handleSessionRegistrationFailure_def mux_inv_response)
qed

lemma mux_inv_handleRegistration:
  "mux_inv n w \<Longrightarrow> mux_inv n (handleSessionRegistrationDatagram c dial e now d w)"
  by (cases "RegisterSession dial d (dc_index c) (mw_manager w)"; cases "fst (RegisterSession dial d (dc_index c) (mw_manager w))")
     (auto intro: mux_inv_register_new mux_inv_register_fail)

lemma mux_inv_payload:
  assumes "mux_inv n w"
  shows "mux_inv n (handleSessionPayloadDatagram p w)"
proof -
  have "mux_inv n (on_session (pay_RequestID p) (Write (pay_Payload p)) w)"
    by (rule mux_inv_on_session [OF assms]) (auto simp: session_inv_Write dest: table_session [OF assms])
  then show ?thesis
    using assms by (auto simp: handleSessionPayloadDatagram_def split: sum.split intro: mux_inv_same)
qed

lemma mux_inv_icmp: "mux_inv n w \<Longrightarrow> mux_inv n (handleICMPPacket c d w)"
  by (auto simp: handleICMPPacket_def intro: mux_inv_same)

lemma mux_inv_serve_datagram:
  "\<lbrakk>mux_inv n w; serve_datagram c dial e now d w = Ok w'\<rbrakk> \<Longrightarrow> mux_inv n w'"
  by (auto simp: serve_datagram_def mux_inv_handleRegistration mux_inv_payload mux_inv_icmp
      split: outcome.splits mux_action.splits)

lemma mux_inv_served:
  assumes "mux_inv n w" and "registrationServeReturned c i w = Some w'"
  shows "mux_inv n w'"
proof -
  have m: "(dc_index c, i) \<in> set (mw_serving w)"
    and e: "w' = (finish_registration i w)\<lparr>mw_serving := remove1 (dc_index c, i) (mw_serving w)\<rparr>"
    using assms(2) by (auto simp: registrationServeReturned_def split: if_splits)
  show ?thesis
    unfolding e
    by (rule finish_registration_inv [OF assms(1), of "dc_index c" i])
       (use mset_moved [OF m] in \<open>simp_all add: owners_def\<close>)
qed

lemma mux_inv_migrated:
  assumes "mux_inv n w" and "migrationReturned c e now i w = Some w'"
  shows "mux_inv n w'"
proof -
  obtain s s' l where s: "mux_sessions w i = Some s" "session_event (EvMigrateEnd now) s = Some s'"
    and w': "w' = snd (SendUDPSessionResponse c e i ResponseOk ((on_session i (\<lambda>_. s') w)\<lparr>mw_migrating := l\<rparr>))"
    using assms(2)
    by (auto simp: migrationReturned_def GetSession_def mux_sessions_def
        split: option.splits if_splits sum.splits)
  have i: "mux_inv n (on_session i (\<lambda>_. s') w)"
    using table_session [OF assms(1) s(1)] s sn_id_event [OF s(2)] session_inv_event [OF _ s(2)]
    by (intro mux_inv_on_session [OF assms(1)]) auto
  show ?thesis
    unfolding w' by (rule mux_inv_response, rule mux_inv_same [OF i]) simp_all
qed

lemma mux_inv_step: "\<lbrakk>mux_step w w'; mux_inv n w\<rbrakk> \<Longrightarrow> mux_inv n w'"
proof (induction rule: mux_step.induct)
  case (session_moves w i s ev s')
  then have "mux_sessions w i = Some s" by (simp add: mux_sessions_def)
  from table_session [OF session_moves(4) this] show ?case
    using session_moves sn_id_event [OF session_moves(3)] session_inv_event [OF _ session_moves(3)]
    by (intro mux_inv_on_session) (auto simp: mux_sessions_def)
qed (auto intro: mux_inv_serve_datagram mux_inv_responds mux_inv_serves mux_inv_served mux_inv_migrated)

lemma mux_inv_init: "n \<noteq> 0 \<Longrightarrow> mux_inv (unat n) (mux_init n)"
  by (simp add: mux_inv_def mux_init_def table_ok_def owned_def owners_def limited_def mux_sessions_def
      mux_limiter_def NewSessionManager_def fl.within_def limiter_defs)

lemma mux_inv_reachable: "\<lbrakk>mux_step\<^sup>*\<^sup>* w w'; mux_inv n w\<rbrakk> \<Longrightarrow> mux_inv n w'"
  by (induction rule: rtranclp_induct) (auto intro: mux_inv_step)

subsection \<open>Properties\<close>

text \<open>C13. Ownership of sessions, over every interleaving of datagrams on any number of connections,
  dial and send failures, migrations, session activity and handlers at every stage of their work, on a
  manager with a flow limit n > 0: the live sessions are exactly those of the goroutines of new
  registrations, whether they have still to answer, to call Serve or to return from it, one goroutine
  each, so each session is unregistered once; there are never more of them than slots
  taken, hence never more than n; and every entry is the session of its key, satisfies the
  session invariant and only ever sends datagrams that decode to its own identifier.\<close>

theorem muxer_session_ownership:
  assumes "n \<noteq> 0" and "mux_step\<^sup>*\<^sup>* (mux_init n) w"
  shows "distinct (map snd (mw_registered w @ mw_responded w @ mw_serving w))
    \<and> snd ` set (mw_registered w @ mw_responded w @ mw_serving w) = dom (mux_sessions w)
    \<and> card (dom (mux_sessions w)) \<le> unat n
    \<and> (\<forall>i s. mux_sessions w i = Some s \<longrightarrow> sn_id s = i \<and> session_inv s)"
proof -
  have "mux_inv (unat n) w" by (rule mux_inv_reachable [OF assms(2) mux_inv_init [OF assms(1)]])
  then show ?thesis
    unfolding owners_def [symmetric] by (auto simp: mux_inv_def owned_def table_ok_def limited_def fl.within_def)
qed

text \<open>A registration with no flags.\<close>

definition sample_datagram :: "byte list" where
  "sample_datagram = UDPSessionRegistrationType # 0 # put_u16 53 @ put_u16 0
     @ request_id_bytes (RequestID 0 1) @ [10, 0, 0, 1] @ []"

lemma sample_datagram_decodes: "\<exists>r. Registration_UnmarshalBinary sample_datagram = Ok r"
  unfolding sample_datagram_def
  by (subst registration_decode) (simp_all add: flag_set_def v3_flag_defs)

text \<open>A new session whose answer goes out gets as far as Serve.\<close>

lemma registration_runs:
  assumes "RegisterSession dial d (dc_index c) (mw_manager w) = (Inr s, m)"
  shows "\<exists>w'. mux_step\<^sup>*\<^sup>* (handleSessionRegistrationDatagram c dial None now d w) w'
    \<and> (dc_index c, reg_RequestID d) \<in> set (mw_serving w')"
proof -
  let ?i = "reg_RequestID d"
  let ?w1 = "handleSessionRegistrationDatagram c dial None now d w"
  note reg = mux_sessions_register [OF assms]
  have w1: "mux_sessions ?w1 ?i = Some s" "(dc_index c, ?i) \<in> set (mw_registered ?w1)"
    using assms reg(3) by (simp_all add: handleSessionRegistrationDatagram_def Let_def)
  let ?w0 = "?w1\<lparr>mw_registered := remove1 (dc_index c, ?i) (mw_registered ?w1)\<rparr>"
  obtain b where S: "SendUDPSessionResponse c None ?i ResponseOk ?w0 = (False, ?w0\<lparr>mw_sent := mw_sent ?w0 @ [(dc_index c, b)]\<rparr>)"
    using send_response [of c None ?i ResponseOk ?w0] by auto
  define w2 where "w2 = ?w0\<lparr>mw_sent := mw_sent ?w0 @ [(dc_index c, b)], mw_responded := (dc_index c, ?i) # mw_responded ?w0\<rparr>"
  have "registrationResponds c None ?i ?w1 = Some w2"
    using w1(2) S by (simp add: registrationResponds_def w2_def Let_def)
  then have a: "mux_step ?w1 w2" by (rule mux_step.responds)
  have "mg_sessions (mw_manager w2) ?i = Some s" using w1(1) by (simp add: w2_def mux_sessions_def)
  moreover have "sn_watcher s = NotServing" using reg(2) by (simp add: NewSession_def)
  ultimately obtain w3 where "registrationServes c now ?i w2 = Some w3" "(dc_index c, ?i) \<in> set (mw_serving w3)"
    by (simp add: registrationServes_def w2_def)
  with a show ?thesis by (meson converse_rtranclp_into_rtranclp mux_step.serves r_into_rtranclp)
qed

theorem muxer_session_ownership_witness:
  "\<exists>w. mux_step\<^sup>*\<^sup>* (mux_init 1) w \<and> mw_serving w \<noteq> [] \<and> card (dom (mux_sessions w)) \<le> 1"
proof -
  let ?c = "\<lparr>dc_index = 0, dc_ctx = 1, dc_hasICMPRouter = False\<rparr>"
  obtain r where r: "Registration_UnmarshalBinary sample_datagram = Ok r"
    using sample_datagram_decodes by blast
  have p: "ParseDatagramType sample_datagram = Ok UDPSessionRegistrationType"
    by (simp add: sample_datagram_def ParseDatagramType_def)
  let ?w = "handleSessionRegistrationDatagram ?c (\<lambda>_. None) None 0 r (mux_init 1)"
  have "serve_datagram ?c (\<lambda>_. None) None 0 sample_datagram (mux_init 1) = Ok ?w"
    by (simp add: serve_datagram_def demux_def p r)
  then have st: "mux_step (mux_init 1) ?w" by (rule mux_step.datagram)
  obtain s m where "RegisterSession (\<lambda>_. None) r (dc_index ?c) (mw_manager (mux_init 1)) = (Inr s, m)"
    by (simp add: RegisterSession_def mux_init_def NewSessionManager_def limiter_defs Let_def)
  from registration_runs [OF this, of 0] obtain w where w: "mux_step\<^sup>*\<^sup>* ?w w" "mw_serving w \<noteq> []" by fastforce
  from st w(1) have "mux_step\<^sup>*\<^sup>* (mux_init 1) w" by (rule converse_rtranclp_into_rtranclp)
  with muxer_session_ownership [OF _ this] w(2) show ?thesis by auto
qed

text \<open>Demultiplexing: a datagram is registered, delivered or queued as ICMP exactly when the
  decoder of its type accepts it, every other datagram is skipped, and the loop ends in a panic
  exactly on a registration shorter than its header.\<close>

theorem demux_exact:
  "(demux d = Ok (Register r) \<longleftrightarrow> Registration_UnmarshalBinary d = Ok r)
   \<and> (demux d = Ok (Deliver p) \<longleftrightarrow> Payload_UnmarshalBinary d = Ok p)
   \<and> (demux d = Ok (ICMPIn i) \<longleftrightarrow> ICMP_UnmarshalBinary d = Ok i)
   \<and> (demux d = Panic \<longleftrightarrow> Registration_UnmarshalBinary d = Panic)
   \<and> (\<forall>e. demux d \<noteq> Err e)"
proof (cases d)
  case Nil
  then show ?thesis
    by (simp add: demux_def ParseDatagramType_def Registration_UnmarshalBinary_def
        Payload_UnmarshalBinary_def ICMP_UnmarshalBinary_def)
next
  case (Cons b bs)
  have ic: "ICMP_UnmarshalBinary d \<noteq> Panic"
    by (simp add: Cons ICMP_UnmarshalBinary_def ParseDatagramType_def)
  have other: "Registration_UnmarshalBinary d = Ok r' \<Longrightarrow> b = UDPSessionRegistrationType"
    "Payload_UnmarshalBinary d = Ok p' \<Longrightarrow> b = UDPSessionPayloadType"
    "ICMP_UnmarshalBinary d = Ok i' \<Longrightarrow> b = ICMPType"
    "Registration_UnmarshalBinary d = Panic \<Longrightarrow> b = UDPSessionRegistrationType" for r' p' i'
    using Cons Registration_UnmarshalBinary_tag [of d r'] ICMP_UnmarshalBinary_tag [of d i']
      registration_panic_iff [of d] Payload_UnmarshalBinary_Ok [of d p'] by auto
  have ne: "UDPSessionRegistrationType \<noteq> UDPSessionPayloadType" "UDPSessionRegistrationType \<noteq> ICMPType"
    "UDPSessionPayloadType \<noteq> ICMPType"
    by (simp_all add: v3_type_defs)
  have p: "ParseDatagramType d = Ok b" by (simp add: Cons ParseDatagramType_def)
  note pay = Payload_UnmarshalBinary_no_panic [of d]
  consider "b = UDPSessionRegistrationType" | "b = UDPSessionPayloadType" | "b = ICMPType"
    | "b \<noteq> UDPSessionRegistrationType" "b \<noteq> UDPSessionPayloadType" "b \<noteq> ICMPType"
    by blast
  then show ?thesis
  proof cases
    case 1
    have "\<And>p. Payload_UnmarshalBinary d \<noteq> Ok p" "\<And>i. ICMP_UnmarshalBinary d \<noteq> Ok i"
      using other(2,3) 1 ne by metis+
    then show ?thesis using 1 by (cases "Registration_UnmarshalBinary d") (simp_all add: demux_def p)
  next
    case 2
    have "\<And>r. Registration_UnmarshalBinary d \<noteq> Ok r" "\<And>i. ICMP_UnmarshalBinary d \<noteq> Ok i"
      "Registration_UnmarshalBinary d \<noteq> Panic"
      using other(1,3,4) 2 ne by metis+
    then show ?thesis
      using 2 ne pay by (cases "Payload_UnmarshalBinary d") (simp_all add: demux_def p)
  next
    case 3
    have "\<And>r. Registration_UnmarshalBinary d \<noteq> Ok r" "\<And>p. Payload_UnmarshalBinary d \<noteq> Ok p"
      "Registration_UnmarshalBinary d \<noteq> Panic"
      using other(1,2,4) 3 ne by metis+
    then show ?thesis
      using 3 ne ic by (cases "ICMP_UnmarshalBinary d") (simp_all add: demux_def p)
  next
    case 4
    have "\<And>r. Registration_UnmarshalBinary d \<noteq> Ok r" "\<And>p. Payload_UnmarshalBinary d \<noteq> Ok p"
      "\<And>i. ICMP_UnmarshalBinary d \<noteq> Ok i" "Registration_UnmarshalBinary d \<noteq> Panic"
      using other 4 by metis+
    then show ?thesis using 4 by (simp add: demux_def p)
  qed
qed

definition expected_response :: "mgr_err + session \<Rightarrow> SessionRegistrationResp option" where
  "expected_response res =
     (case res of
        Inr s \<Rightarrow> Some ResponseOk
      | Inl ErrSessionAlreadyRegistered \<Rightarrow> Some ResponseOk
      | Inl ErrSessionBoundToOtherConn \<Rightarrow> None
      | Inl ErrSessionRegistrationRateLimited \<Rightarrow> Some ResponseTooManyActiveFlows
      | Inl e \<Rightarrow> Some ResponseUnableToBindSocket)"

text \<open>C15. Every registration that is not a migration is answered on its own connection with exactly
  one response datagram for its identifier: success for a new session and for one already
  registered on this connection, too many active flows when the limiter refuses, and unable to
  bind when the dial fails; a migration answers nothing before the session has taken the new
  connection's context.  A new session is answered by the next step of its goroutine, whatever ran in between, and only
  an answer that could be sent leads to Serve; when sending fails the session is gone again.\<close>

theorem registration_response:
  "let w' = handleSessionRegistrationDatagram c dial e now d w;
       res = fst (RegisterSession dial d (dc_index c) (mw_manager w));
       answered = (\<lambda>v v' r. \<exists>b. mw_sent v' = mw_sent v @ [(dc_index c, b)]
          \<and> Response_UnmarshalBinary b
              = Ok \<lparr>resp_RequestID = reg_RequestID d, resp_ResponseType = r, resp_ErrorMsg = []\<rparr>)
   in (case res of
         Inr s \<Rightarrow>
           mw_sent w' = mw_sent w \<and> (dc_index c, reg_RequestID d) \<in> set (mw_registered w')
           \<and> (\<forall>v. (dc_index c, reg_RequestID d) \<in> set (mw_registered v) \<longrightarrow>
                (case registrationResponds c e (reg_RequestID d) v of
                   None \<Rightarrow> False
                 | Some v' \<Rightarrow> answered v v' ResponseOk
                     \<and> (if e = None then (dc_index c, reg_RequestID d) \<in> set (mw_responded v')
                        else mux_sessions v' (reg_RequestID d) = None \<and> mw_responded v' = mw_responded v)))
       | Inl x \<Rightarrow>
           (case expected_response res of
              None \<Rightarrow> mw_sent w' = mw_sent w
            | Some r \<Rightarrow> answered w w' r))"
proof -
  let ?i = "reg_RequestID d"
  have resp: "\<exists>b. mw_sent (snd (SendUDPSessionResponse c e ?i r v)) = mw_sent v @ [(dc_index c, b)]
      \<and> Response_UnmarshalBinary b = Ok \<lparr>resp_RequestID = ?i, resp_ResponseType = r, resp_ErrorMsg = []\<rparr>"
    for r v using send_response [of c e ?i r v] by force
  have already: "mw_sent (handleSessionAlreadyRegistered c e now ?i v)
      = mw_sent (snd (SendUDPSessionResponse c e ?i ResponseOk v))" for v
    by (cases "SendUDPSessionResponse c e ?i ResponseOk v")
       (simp add: handleSessionAlreadyRegistered_def split: sum.split)
  have migr: "mw_sent (handleSessionMigration c now ?i v) = mw_sent v" for v
    by (simp add: handleSessionMigration_def split: sum.split)
  obtain res m where R: "RegisterSession dial d (dc_index c) (mw_manager w) = (res, m)" by fastforce
  show ?thesis
  proof (cases res)
    case (Inl x)
    show ?thesis
      using R Inl already migr resp [of ResponseOk "set_manager m w"]
        resp [of ResponseTooManyActiveFlows "set_manager m w"]
        resp [of ResponseUnableToBindSocket "set_manager m w"]
      by (cases x) (auto simp: handleSessionRegistrationDatagram_def expected_response_def
          handleSessionRegistrationRateLimited_def handleSessionRegistrationFailure_def)
  next
    case (Inr s)
    have "case registrationResponds c e ?i v of
            None \<Rightarrow> False
          | Some v' \<Rightarrow> (\<exists>b. mw_sent v' = mw_sent v @ [(dc_index c, b)]
                \<and> Response_UnmarshalBinary b = Ok \<lparr>resp_RequestID = ?i, resp_ResponseType = ResponseOk, resp_ErrorMsg = []\<rparr>)
              \<and> (if e = None then (dc_index c, ?i) \<in> set (mw_responded v')
                 else mux_sessions v' ?i = None \<and> mw_responded v' = mw_responded v)"
      if "(dc_index c, ?i) \<in> set (mw_registered v)" for v
      using send_response [of c e ?i ResponseOk "v\<lparr>mw_registered := remove1 (dc_index c, ?i) (mw_registered v)\<rparr>"] that
      by (auto simp: registrationResponds_def Let_def)
    with R Inr show ?thesis by (simp add: handleSessionRegistrationDatagram_def Let_def)
  qed
qed

theorem registration_response_witness:
  "let c = \<lparr>dc_index = 0, dc_ctx = 1, dc_hasICMPRouter = False\<rparr>; d = sample_registration;
       w = handleSessionRegistrationDatagram c (\<lambda>_. None) None 0 d (mux_init 1)
   in mw_sent w = []
      \<and> (case registrationResponds c None (reg_RequestID d) w of
           None \<Rightarrow> False
         | Some v \<Rightarrow> \<exists>b. mw_sent v = [(0, b)] \<and> Response_UnmarshalBinary b
               = Ok \<lparr>resp_RequestID = reg_RequestID d, resp_ResponseType = ResponseOk, resp_ErrorMsg = []\<rparr>)"
proof -
  let ?c = "\<lparr>dc_index = 0, dc_ctx = 1, dc_hasICMPRouter = False\<rparr>" and ?d = sample_registration
  obtain s where "fst (RegisterSession (\<lambda>_. None) ?d (dc_index ?c) (mw_manager (mux_init 1))) = Inr s"
    by (simp add: RegisterSession_def mux_init_def NewSessionManager_def limiter_defs Let_def)
  with registration_response [of ?c "\<lambda>_. None" None 0 ?d "mux_init 1"] show ?thesis
    by (auto simp: Let_def mux_init_def split: option.splits)
qed

text \<open>The TTL rule for ICMP from the edge: an undecodable packet is dropped; a packet whose TTL
  is at most one is answered with TTL exceeded and never reaches an origin; any other packet is
  handed to the router with its TTL lowered by one, at least one, and otherwise unchanged.\<close>

theorem icmp_ttl_rule:
  "case writeICMPPacket decode d of
     DropICMP \<Rightarrow> \<not> is_ok (decode (icmp_Payload d))
   | ReplyTTLExceeded i raw \<Rightarrow> decode (icmp_Payload d) = Ok i \<and> unat (ip_TTL (icmp_IP i)) \<le> 1
       \<and> raw = icmp_Payload d
   | RequestICMP i \<Rightarrow> \<exists>j. decode (icmp_Payload d) = Ok j
       \<and> unat (ip_TTL (icmp_IP i)) = unat (ip_TTL (icmp_IP j)) - 1 \<and> 1 \<le> unat (ip_TTL (icmp_IP i))
       \<and> icmp_Message i = icmp_Message j \<and> ip_Src (icmp_IP i) = ip_Src (icmp_IP j)
       \<and> ip_Dst (icmp_IP i) = ip_Dst (icmp_IP j)"
proof (cases "decode (icmp_Payload d)")
  case (Ok j)
  let ?t = "ip_TTL (icmp_IP j)"
  have "unat (?t - 1) = unat ?t - 1" if "\<not> ?t \<le> 1"
    using that by (subst unat_minus_one) (auto simp: word_le_nat_alt)
  then show ?thesis
    using Ok by (auto simp: writeICMPPacket_def word_le_nat_alt)
qed (simp_all add: writeICMPPacket_def)

end
