(* ===== verification/Packet_Funnel.thy ===== *)
theory Packet_Funnel
  imports Cfd_Prelude
begin

text \<open>
  \<^verbatim>\<open>packet/funnel.go\<close>: the tracker of funnels, keyed by funnel identifiers of type \<open>'k\<close>.  A funnel
  is an object behind an interface; its identity and last activity are its model, its \<^verbatim>\<open>Equal\<close>
  method is the argument \<open>eq\<close>, and the tracker records which objects it closed.  Every method runs
  under the tracker's lock and is one step.
\<close>

record funnel =
  fn_ref :: nat
  fn_lastActive :: int

record 'k funnel_tracker =
  funnels :: "'k \<Rightarrow> funnel option"
  closed_refs :: "nat list"

definition NewFunnelTracker :: "'k funnel_tracker" where
  "NewFunnelTracker = \<lparr>funnels = (\<lambda>_. None), closed_refs = []\<rparr>"

text \<open>\<^verbatim>\<open>ActivityTracker\<close>: the last activity in whole seconds.\<close>

definition UpdateLastActive :: "int \<Rightarrow> funnel \<Rightarrow> funnel" where
  "UpdateLastActive now_sec f = f\<lparr>fn_lastActive := now_sec\<rparr>"

definition LastActive :: "funnel \<Rightarrow> int" where
  "LastActive f = fn_lastActive f * second_ns"

definition close_and_delete :: "'k \<Rightarrow> funnel \<Rightarrow> 'k funnel_tracker \<Rightarrow> 'k funnel_tracker" where
  "close_and_delete k f ft = ft\<lparr>funnels := (funnels ft)(k := None), closed_refs := fn_ref f # closed_refs ft\<rparr>"

text \<open>One iteration of the clean-up loop; \<open>ks\<close> is the order in which Go ranges over the map.\<close>

definition cleanup_one :: "int \<Rightarrow> duration \<Rightarrow> 'k \<Rightarrow> 'k funnel_tracker \<Rightarrow> 'k funnel_tracker" where
  "cleanup_one now idleTimeout k ft =
     (case funnels ft k of
        None \<Rightarrow> ft
      | Some f \<Rightarrow> if LastActive f + idleTimeout < now then close_and_delete k f ft else ft)"

definition cleanup :: "int \<Rightarrow> duration \<Rightarrow> 'k list \<Rightarrow> 'k funnel_tracker \<Rightarrow> 'k funnel_tracker" where
  "cleanup now idleTimeout ks ft = foldl (\<lambda>ft k. cleanup_one now idleTimeout k ft) ft ks"

definition Get :: "'k \<Rightarrow> 'k funnel_tracker \<Rightarrow> funnel option" where
  "Get k ft = funnels ft k"

definition GetOrRegister ::
    "'k \<Rightarrow> (funnel \<Rightarrow> bool) \<Rightarrow> 'e + funnel \<Rightarrow> 'k funnel_tracker
      \<Rightarrow> ('e + funnel \<times> bool) \<times> 'k funnel_tracker" where
  "GetOrRegister k shouldReplace newFunnel ft =
     (let register = (\<lambda>ft'. case newFunnel of
            Inl e \<Rightarrow> (Inl e, ft')
          | Inr f \<Rightarrow> (Inr (f, True), ft'\<lparr>funnels := (funnels ft')(k := Some f)\<rparr>))
      in case funnels ft k of
           Some current \<Rightarrow>
             if \<not> shouldReplace current then (Inr (current, False), ft)
             else register (close_and_delete k current ft)
         | None \<Rightarrow> register ft)"

definition Unregister ::
    "(funnel \<Rightarrow> funnel \<Rightarrow> bool) \<Rightarrow> 'k \<Rightarrow> funnel \<Rightarrow> 'k funnel_tracker \<Rightarrow> bool \<times> 'k funnel_tracker" where
  "Unregister eq k f ft =
     (case funnels ft k of
        None \<Rightarrow> (True, ft)
      | Some current \<Rightarrow> if eq current f then (True, close_and_delete k current ft) else (False, ft))"

subsection \<open>Traces\<close>

text \<open>A new funnel is a fresh object, the next reference \<open>r\<close> of the run.\<close>

datatype 'k funnel_op =
    FRegister 'k "funnel \<Rightarrow> bool" "nat + int"
  | FUnregister 'k funnel
  | FCleanup int duration "'k list"
  | FTraffic 'k int

fun funnel_step ::
    "(funnel \<Rightarrow> funnel \<Rightarrow> bool) \<Rightarrow> nat \<Rightarrow> 'k funnel_op \<Rightarrow> 'k funnel_tracker \<Rightarrow> 'k funnel_tracker" where
  "funnel_step eq r (FRegister k repl res) ft =
     snd (GetOrRegister k repl (map_sum id (\<lambda>t. \<lparr>fn_ref = r, fn_lastActive = t\<rparr>) res) ft)"
| "funnel_step eq r (FUnregister k f) ft = snd (Unregister eq k f ft)"
| "funnel_step eq r (FCleanup now idle ks) ft = cleanup now idle ks ft"
| "funnel_step eq r (FTraffic k t) ft =
     (case funnels ft k of None \<Rightarrow> ft
      | Some f \<Rightarrow> ft\<lparr>funnels := (funnels ft)(k := Some (UpdateLastActive t f))\<rparr>)"

fun funnel_run ::
    "(funnel \<Rightarrow> funnel \<Rightarrow> bool) \<Rightarrow> nat \<Rightarrow> 'k funnel_op list \<Rightarrow> 'k funnel_tracker \<Rightarrow> 'k funnel_tracker" where
  "funnel_run eq r [] ft = ft"
| "funnel_run eq r (op # ops) ft = funnel_run eq (Suc r) ops (funnel_step eq r op ft)"

subsection \<open>Invariant\<close>

definition funnel_inv :: "nat \<Rightarrow> 'k funnel_tracker \<Rightarrow> bool" where
  "funnel_inv r ft =
     (distinct (closed_refs ft) \<and> (\<forall>c \<in> set (closed_refs ft). c < r)
      \<and> (\<forall>k f. funnels ft k = Some f \<longrightarrow> fn_ref f < r \<and> fn_ref f \<notin> set (closed_refs ft))
      \<and> (\<forall>k k' f f'. funnels ft k = Some f \<and> funnels ft k' = Some f' \<and> fn_ref f = fn_ref f' \<longrightarrow> k = k'))"

lemma funnel_inv_mono: "funnel_inv r ft \<Longrightarrow> funnel_inv (Suc r) ft"
  by (fastforce simp: funnel_inv_def less_Suc_eq)

lemma funnel_inv_close:
  "\<lbrakk>funnel_inv r ft; funnels ft k = Some f\<rbrakk> \<Longrightarrow> funnel_inv r (close_and_delete k f ft)"
  by (auto simp: funnel_inv_def close_and_delete_def)

lemma funnel_inv_insert:
  "\<lbrakk>funnel_inv r ft; fn_ref f = r; funnels ft k = None\<rbrakk>
    \<Longrightarrow> funnel_inv (Suc r) (ft\<lparr>funnels := (funnels ft)(k := Some f)\<rparr>)"
  by (fastforce simp: funnel_inv_def less_Suc_eq)

lemma funnel_inv_cleanup_one: "funnel_inv r ft \<Longrightarrow> funnel_inv r (cleanup_one now idle k ft)"
  by (simp add: cleanup_one_def funnel_inv_close split: option.split)

lemma funnel_inv_cleanup: "funnel_inv r ft \<Longrightarrow> funnel_inv r (cleanup now idle ks ft)"
  unfolding cleanup_def by (induction ks arbitrary: ft) (auto simp: funnel_inv_cleanup_one)

lemma funnel_inv_traffic:
  assumes "funnel_inv r ft" and "funnels ft k = Some f"
  shows "funnel_inv r (ft\<lparr>funnels := (funnels ft)(k := Some (UpdateLastActive t f))\<rparr>)"
proof -
  have "fn_ref (UpdateLastActive t f) = fn_ref f" by (simp add: UpdateLastActive_def)
  with assms show ?thesis unfolding funnel_inv_def by (simp split: if_splits) metis
qed

lemma funnel_inv_step: "funnel_inv r ft \<Longrightarrow> funnel_inv (Suc r) (funnel_step eq r op ft)"
proof (cases op)
  case (FRegister k repl res)
  assume inv: "funnel_inv r ft"
  show ?thesis
  proof (cases "funnels ft k")
    case None
    then show ?thesis
      using FRegister inv
      by (cases res) (auto simp: GetOrRegister_def intro: funnel_inv_mono funnel_inv_insert)
  next
    case (Some f)
    note c = funnel_inv_close [OF inv Some]
    have n: "funnels (close_and_delete k f ft) k = None" by (simp add: close_and_delete_def)
    show ?thesis
      using FRegister Some inv c n
      by (cases res) (auto simp: GetOrRegister_def intro: funnel_inv_mono funnel_inv_insert)
  qed
next
  case (FUnregister k f)
  assume "funnel_inv r ft"
  then show ?thesis
    using FUnregister
    by (auto simp: Unregister_def funnel_inv_close funnel_inv_mono split: option.split)
next
  case (FCleanup now idle ks)
  assume "funnel_inv r ft"
  then show ?thesis using FCleanup by (simp add: funnel_inv_cleanup funnel_inv_mono)
next
  case (FTraffic k t)
  assume "funnel_inv r ft"
  then show ?thesis
    using FTraffic by (auto simp: funnel_inv_traffic funnel_inv_mono split: option.split)
qed

lemma funnel_inv_run: "funnel_inv r ft \<Longrightarrow> funnel_inv (r + length ops) (funnel_run eq r ops ft)"
proof (induction ops arbitrary: r ft)
  case (Cons op ops)
  from Cons.IH [OF funnel_inv_step [OF Cons.prems]] show ?case by simp
qed simp

lemma funnel_inv_New: "funnel_inv r NewFunnelTracker"
  by (simp add: funnel_inv_def NewFunnelTracker_def)

lemma cleanup_one_lookup:
  "funnels (cleanup_one now idle k ft) k' =
     (if k' = k then (case funnels ft k of None \<Rightarrow> None
        | Some f \<Rightarrow> if LastActive f + idle < now then None else Some f)
      else funnels ft k')"
  by (auto simp: cleanup_one_def close_and_delete_def split: option.split)

lemma cleanup_lookup:
  "funnels (cleanup now idle ks ft) k =
     (case funnels ft k of None \<Rightarrow> None
      | Some f \<Rightarrow> if k \<in> set ks \<and> LastActive f + idle < now then None else Some f)"
  unfolding cleanup_def
  by (induction ks arbitrary: ft) (auto simp: cleanup_one_lookup split: option.splits if_splits)

subsection \<open>Properties\<close>

text \<open>Over any sequence of registrations, unregistrations, clean-ups and traffic, every funnel
  object is closed at most once, no closed funnel is still registered, and no object is registered
  under two identifiers.\<close>

theorem funnel_tracker_safety:
  "let ft = funnel_run eq 0 ops NewFunnelTracker
   in distinct (closed_refs ft)
      \<and> {fn_ref f | f k. funnels ft k = Some f} \<inter> set (closed_refs ft) = {}
      \<and> (\<nexists>k k' f f'. k \<noteq> k' \<and> funnels ft k = Some f \<and> funnels ft k' = Some f' \<and> fn_ref f = fn_ref f')"
  using funnel_inv_run [OF funnel_inv_New, of 0 ops eq] by (auto simp: funnel_inv_def Let_def)

text \<open>GetOrRegister and the clean-up, entry by entry: an existing funnel that need not be
  replaced is returned and nothing changes; otherwise the identifier maps to the new funnel, or to
  nothing when its construction fails, even if it was registered before; the clean-up removes
  exactly the ranged-over funnels idle for longer than the timeout.\<close>

theorem funnel_lookup_after:
  "funnels (snd (GetOrRegister k repl new ft)) k' =
     (if k' \<noteq> k then funnels ft k'
      else case funnels ft k of
             Some f \<Rightarrow> if repl f then (case new of Inl e \<Rightarrow> None | Inr g \<Rightarrow> Some g) else Some f
           | None \<Rightarrow> (case new of Inl e \<Rightarrow> None | Inr g \<Rightarrow> Some g))
   \<and> funnels (cleanup now idle ks ft) k =
     (case funnels ft k of None \<Rightarrow> None
      | Some f \<Rightarrow> if k \<in> set ks \<and> LastActive f + idle < now then None else Some f)"
  unfolding cleanup_lookup
  by (auto simp: GetOrRegister_def close_and_delete_def Let_def split: option.splits sum.splits)

end
