(* ===== verification/Protocol_Select.thy ===== *)
theory Protocol_Select
  imports Cfd_Prelude
begin

text \<open>
  \<^verbatim>\<open>connection/protocol.go\<close> and the percentages of \<^verbatim>\<open>edgediscovery/protocol.go\<close>: which of the
  two edge protocols a connection uses and which one it falls back to.  The clock readings and
  the result of the percentage lookup (a DNS TXT query) are arguments of the calls.  Protocol names
  are compared as ASCII.
\<close>

subsection \<open>Protocols\<close>

type_synonym Protocol = int

definition HTTP2 :: Protocol where
  "HTTP2 = 0"

definition QUIC :: Protocol where
  "QUIC = 1"

definition ProtocolList :: "Protocol list" where
  "ProtocolList = [QUIC, HTTP2]"

lemma HTTP2_neq_QUIC [simp]: "HTTP2 \<noteq> QUIC" "QUIC \<noteq> HTTP2"
  by (simp_all add: HTTP2_def QUIC_def)

definition fallback :: "Protocol \<Rightarrow> Protocol \<times> bool" where
  "fallback p =
     (if p = HTTP2 then (0, False)
      else if p = QUIC then (HTTP2, True)
      else (0, False))"

definition protocol_String :: "Protocol \<Rightarrow> string" where
  "protocol_String p =
     (if p = HTTP2 then ''http2''
      else if p = QUIC then ''quic''
      else ''unknown protocol'')"

record TLSSettings =
  ServerName :: string
  NextProtos :: "string list"

definition edgeH2TLSServerName :: string where
  "edgeH2TLSServerName = ''h2.cftunnel.com''"

definition edgeQUICServerName :: string where
  "edgeQUICServerName = ''quic.cftunnel.com''"

definition probeTLSServerName :: string where
  "probeTLSServerName = ''probe.cftunnel.com''"

definition quicProtos :: string where
  "quicProtos = ''argotunnel''"

definition protocol_TLSSettings :: "Protocol \<Rightarrow> TLSSettings option" where
  "protocol_TLSSettings p =
     (if p = HTTP2 then Some \<lparr>ServerName = edgeH2TLSServerName, NextProtos = []\<rparr>
      else if p = QUIC then Some \<lparr>ServerName = edgeQUICServerName, NextProtos = [quicProtos]\<rparr>
      else None)"

definition ProbeTLSSettings :: "Protocol \<Rightarrow> TLSSettings option" where
  "ProbeTLSSettings p =
     (if p = HTTP2 then Some \<lparr>ServerName = probeTLSServerName, NextProtos = []\<rparr>
      else if p = QUIC then Some \<lparr>ServerName = probeTLSServerName, NextProtos = [quicProtos]\<rparr>
      else None)"

subsection \<open>Percentages\<close>

record ProtocolPercent =
  pp_Protocol :: string
  pp_Percentage :: int

fun GetPercentage :: "ProtocolPercent list \<Rightarrow> string \<Rightarrow> int" where
  "GetPercentage [] protocol = 0"
| "GetPercentage (pp # ps) protocol =
     (if to_lower (pp_Protocol pp) = to_lower protocol then pp_Percentage pp
      else GetPercentage ps protocol)"

text \<open>
  \<open>fetch\<close> is what one call of \<^verbatim>\<open>fetchFunc\<close> returned.  \<open>getProtocol\<close> indexes the pool at 0 when
  no protocol is above the threshold.
\<close>

fun pick_above :: "ProtocolPercent list \<Rightarrow> int \<Rightarrow> Protocol list \<Rightarrow> Protocol option" where
  "pick_above pcts threshold [] = None"
| "pick_above pcts threshold (p # ps) =
     (if GetPercentage pcts (protocol_String p) > threshold then Some p
      else pick_above pcts threshold ps)"

definition getProtocol ::
    "Protocol list \<Rightarrow> 'e + ProtocolPercent list \<Rightarrow> int \<Rightarrow> ('e, Protocol) outcome" where
  "getProtocol pool fetch threshold =
     (case fetch of
        Inl e \<Rightarrow> Err e
      | Inr pcts \<Rightarrow>
          (case pick_above pcts threshold pool of
             Some p \<Rightarrow> Ok p
           | None \<Rightarrow> go_index pool 0))"

text \<open>\<^verbatim>\<open>fnv.New32a\<close>, then the remainder modulo 100.\<close>

definition fnv32a :: "byte list \<Rightarrow> u32" where
  "fnv32a bs = foldl (\<lambda>h b. (h XOR ucast b) * 16777619) 2166136261 bs"

definition switchThreshold :: "string \<Rightarrow> int" where
  "switchThreshold tag = uint (fnv32a (map of_char tag) mod 100)"

subsection \<open>Selectors\<close>

record staticProtocolSelector =
  st_current :: Protocol

definition static_Current :: "staticProtocolSelector \<Rightarrow> Protocol" where
  "static_Current s = st_current s"

definition static_Fallback :: "staticProtocolSelector \<Rightarrow> Protocol \<times> bool" where
  "static_Fallback s = (st_current s, False)"

record defaultProtocolSelector =
  df_current :: Protocol

definition newDefaultProtocolSelector :: "Protocol \<Rightarrow> defaultProtocolSelector" where
  "newDefaultProtocolSelector current = \<lparr>df_current = current\<rparr>"

definition default_Current :: "defaultProtocolSelector \<Rightarrow> Protocol" where
  "default_Current s = df_current s"

definition default_Fallback :: "defaultProtocolSelector \<Rightarrow> Protocol \<times> bool" where
  "default_Fallback s = fallback (df_current s)"

record remoteProtocolSelector =
  rm_current :: Protocol
  protocolPool :: "Protocol list"
  rm_switchThreshold :: int
  refreshAfter :: int
  rm_ttl :: duration

definition newRemoteProtocolSelector ::
    "int \<Rightarrow> Protocol \<Rightarrow> Protocol list \<Rightarrow> int \<Rightarrow> duration \<Rightarrow> remoteProtocolSelector" where
  "newRemoteProtocolSelector now current pool threshold ttl =
     \<lparr>rm_current = current, protocolPool = pool, rm_switchThreshold = threshold,
      refreshAfter = now + ttl, rm_ttl = ttl\<rparr>"

text \<open>\<open>now\<close> is the first clock reading of the call, \<open>later\<close> the one after the lookup.\<close>

definition remote_Current ::
    "int \<Rightarrow> int \<Rightarrow> 'e + ProtocolPercent list \<Rightarrow> remoteProtocolSelector
     \<Rightarrow> ('x, remoteProtocolSelector \<times> Protocol) outcome" where
  "remote_Current now later fetch s =
     (if now < refreshAfter s then Ok (s, rm_current s)
      else (case getProtocol (protocolPool s) fetch (rm_switchThreshold s) of
              Err e \<Rightarrow> Ok (s, rm_current s)
            | Panic \<Rightarrow> Panic
            | Ok p \<Rightarrow>
                let s' = s\<lparr>rm_current := p, refreshAfter := later + rm_ttl s\<rparr>
                in Ok (s', rm_current s')))"

definition remote_Fallback :: "remoteProtocolSelector \<Rightarrow> Protocol \<times> bool" where
  "remote_Fallback s = fallback (rm_current s)"

text \<open>The interface value: one of the three types behind \<^verbatim>\<open>ProtocolSelector\<close>.\<close>

datatype ProtocolSelector =
    StaticSel staticProtocolSelector
  | DefaultSel defaultProtocolSelector
  | RemoteSel remoteProtocolSelector

fun sel_Current ::
    "int \<Rightarrow> int \<Rightarrow> 'e + ProtocolPercent list \<Rightarrow> ProtocolSelector
     \<Rightarrow> ('x, ProtocolSelector \<times> Protocol) outcome" where
  "sel_Current now later fetch (StaticSel s) = Ok (StaticSel s, static_Current s)"
| "sel_Current now later fetch (DefaultSel s) = Ok (DefaultSel s, default_Current s)"
| "sel_Current now later fetch (RemoteSel s) =
     obind (remote_Current now later fetch s) (\<lambda>(s', p). Ok (RemoteSel s', p))"

fun sel_Fallback :: "ProtocolSelector \<Rightarrow> Protocol \<times> bool" where
  "sel_Fallback (StaticSel s) = static_Fallback s"
| "sel_Fallback (DefaultSel s) = default_Fallback s"
| "sel_Fallback (RemoteSel s) = remote_Fallback s"

definition AutoSelectFlag :: string where
  "AutoSelectFlag = ''auto''"

datatype selector_error = UnknownProtocol string

text \<open>
  A failed lookup leaves \<^verbatim>\<open>fetchedProtocol\<close> at the zero value, which is HTTP2; the constructor
  goes on.  \<open>now\<close> is the clock reading of \<^verbatim>\<open>newRemoteProtocolSelector\<close>.
\<close>

definition NewProtocolSelector ::
    "int \<Rightarrow> string \<Rightarrow> string \<Rightarrow> bool \<Rightarrow> 'e + ProtocolPercent list \<Rightarrow> duration
     \<Rightarrow> (selector_error, ProtocolSelector) outcome" where
  "NewProtocolSelector now protocolFlag accountTag tunnelTokenProvided fetch resolveTTL =
     (let threshold = switchThreshold accountTag
      in case getProtocol ProtocolList fetch threshold of
           Panic \<Rightarrow> Panic
         | fetched \<Rightarrow>
             let fetchedProtocol = (case fetched of Ok p \<Rightarrow> p | _ \<Rightarrow> 0)
             in if protocolFlag = ''h2mux'' then Ok (StaticSel \<lparr>st_current = HTTP2\<rparr>)
                else if protocolFlag = protocol_String QUIC then Ok (StaticSel \<lparr>st_current = QUIC\<rparr>)
                else if protocolFlag = protocol_String HTTP2 then Ok (StaticSel \<lparr>st_current = HTTP2\<rparr>)
                else if protocolFlag = AutoSelectFlag
                then (if tunnelTokenProvided then Ok (DefaultSel (newDefaultProtocolSelector QUIC))
                      else Ok (RemoteSel (newRemoteProtocolSelector now fetchedProtocol ProtocolList threshold resolveTTL)))
                else Err (UnknownProtocol protocolFlag))"

subsection \<open>The lookup\<close>

lemma pick_above_Some: "pick_above pcts t ps = Some p \<Longrightarrow> p \<in> set ps"
  by (induction ps) (auto split: if_splits)

lemma getProtocol_pool: "getProtocol pool fetch t = Ok p \<Longrightarrow> p \<in> set pool"
  by (auto simp: getProtocol_def go_index_def dest: pick_above_Some split: sum.splits option.splits if_splits)

lemma getProtocol_not_Panic: "pool \<noteq> [] \<Longrightarrow> getProtocol pool fetch t \<noteq> Panic"
  by (simp add: getProtocol_def go_index_def split: sum.splits option.splits)

lemma getProtocol_Err_iff: "getProtocol pool fetch t = Err e \<longleftrightarrow> fetch = Inl e"
  by (auto simp: getProtocol_def split: sum.splits option.splits)

lemma getProtocol_Inl: "getProtocol pool (Inl e) t = Err e"
  by (simp add: getProtocol_def)

lemma getProtocol_ProtocolList:
  "getProtocol ProtocolList (Inr pcts) t =
     Ok (if GetPercentage pcts ''quic'' \<le> t \<and> t < GetPercentage pcts ''http2'' then HTTP2 else QUIC)"
  by (auto simp: getProtocol_def ProtocolList_def protocol_String_def go_index_def)

lemma switchThreshold_bounds: "0 \<le> switchThreshold tag" "switchThreshold tag < 100"
  by (simp_all add: switchThreshold_def uint_mod)

lemma fallback_True_iff: "fallback p = (q, True) \<longleftrightarrow> p = QUIC \<and> q = HTTP2"
  by (auto simp: fallback_def)

lemma ProtocolList_iff: "p \<in> set ProtocolList \<longleftrightarrow> p = QUIC \<or> p = HTTP2"
  by (simp add: ProtocolList_def)

subsection \<open>What every selector promises\<close>

text \<open>
  \<open>run_calls\<close> makes a sequence of calls and collects the answers.
  The contract the supervisor relies on: a selector in a valid state always answers with a
  supported protocol, and its fallback, when it has one, is HTTP2 and not what it answers now.
\<close>

fun run_calls ::
    "('i \<Rightarrow> 's \<Rightarrow> ('x, 's \<times> 'p) outcome) \<Rightarrow> 'i list \<Rightarrow> 's \<Rightarrow> ('x, 's \<times> 'p list) outcome" where
  "run_calls call [] s = Ok (s, [])"
| "run_calls call (i # is) s =
     obind (call i s) (\<lambda>(s', p). obind (run_calls call is s') (\<lambda>(s'', ps). Ok (s'', p # ps)))"

locale protocol_selector =
  fixes valid :: "'s \<Rightarrow> bool"
    and cur :: "'s \<Rightarrow> Protocol"
    and current_call :: "'i \<Rightarrow> 's \<Rightarrow> ('x, 's \<times> Protocol) outcome"
    and fb :: "'s \<Rightarrow> Protocol \<times> bool"
  assumes call_ok: "valid s \<Longrightarrow> \<exists>s'. current_call i s = Ok (s', cur s') \<and> valid s'"
    and cur_supported: "valid s \<Longrightarrow> cur s \<in> set ProtocolList"
    and fb_down: "\<lbrakk>valid s; fb s = (q, True)\<rbrakk> \<Longrightarrow> cur s = QUIC \<and> q = HTTP2"
begin

lemma calls_ok:
  assumes "valid s"
  shows "\<exists>s' ps. run_calls current_call is s = Ok (s', ps) \<and> valid s' \<and> set ps \<subseteq> set ProtocolList \<and> length ps = length is
           \<and> (ps \<noteq> [] \<longrightarrow> last ps = cur s') \<and> (ps = [] \<longrightarrow> s' = s)"
  using assms
proof (induction "is" arbitrary: s)
  case Nil
  then show ?case by simp
next
  case (Cons i "is")
  obtain s1 where s1: "current_call i s = Ok (s1, cur s1)" "valid s1"
    using call_ok [OF Cons.prems] by blast
  obtain s2 ps where s2: "run_calls current_call is s1 = Ok (s2, ps)" "valid s2" "set ps \<subseteq> set ProtocolList"
      "length ps = length is" "ps \<noteq> [] \<longrightarrow> last ps = cur s2" "ps = [] \<longrightarrow> s2 = s1"
    using Cons.IH [OF s1(2)] by blast
  show ?case
    using s1 s2 cur_supported [OF s1(2)] by auto
qed

lemma fallback_after_call:
  "\<lbrakk>valid s; fb s = (q, True)\<rbrakk> \<Longrightarrow> q \<in> set ProtocolList \<and> q \<noteq> cur s \<and> \<not> snd (fallback q)"
  using fb_down [of s q] by (simp add: ProtocolList_def fallback_def)

end

definition static_valid :: "staticProtocolSelector \<Rightarrow> bool" where
  "static_valid s = (st_current s \<in> set ProtocolList)"

definition default_valid :: "defaultProtocolSelector \<Rightarrow> bool" where
  "default_valid s = (df_current s \<in> set ProtocolList)"

definition remote_valid :: "remoteProtocolSelector \<Rightarrow> bool" where
  "remote_valid s = (rm_current s \<in> set ProtocolList \<and> protocolPool s = ProtocolList)"

fun sel_valid :: "ProtocolSelector \<Rightarrow> bool" where
  "sel_valid (StaticSel s) = static_valid s"
| "sel_valid (DefaultSel s) = default_valid s"
| "sel_valid (RemoteSel s) = remote_valid s"

fun sel_cur :: "ProtocolSelector \<Rightarrow> Protocol" where
  "sel_cur (StaticSel s) = st_current s"
| "sel_cur (DefaultSel s) = df_current s"
| "sel_cur (RemoteSel s) = rm_current s"

lemma remote_call_ok:
  assumes "remote_valid s"
  shows "\<exists>s'. remote_Current now later fetch s = Ok (s', rm_current s') \<and> remote_valid s'"
proof (cases "now < refreshAfter s")
  case True
  with assms show ?thesis by (simp add: remote_Current_def)
next
  case False
  show ?thesis
  proof (cases "getProtocol (protocolPool s) fetch (rm_switchThreshold s)")
    case (Ok p)
    then have "p \<in> set ProtocolList"
      using assms getProtocol_pool [OF Ok] by (simp add: remote_valid_def)
    with False Ok assms show ?thesis by (simp add: remote_Current_def remote_valid_def Let_def)
  next
    case (Err e)
    with False assms show ?thesis by (simp add: remote_Current_def)
  next
    case Panic
    with assms show ?thesis
      by (simp add: remote_valid_def getProtocol_not_Panic ProtocolList_def)
  qed
qed

interpretation ssel: protocol_selector static_valid st_current
    "\<lambda>i s. Ok (s, static_Current s)" static_Fallback
  by unfold_locales (auto simp: static_valid_def static_Current_def static_Fallback_def)

interpretation dsel: protocol_selector default_valid df_current
    "\<lambda>i s. Ok (s, default_Current s)" default_Fallback
  by unfold_locales
     (auto simp: default_valid_def default_Current_def default_Fallback_def fallback_True_iff)

lemma sel_call_ok:
  assumes "sel_valid s"
  shows "\<exists>s'. sel_Current now later fetch s = (Ok (s', sel_cur s') :: ('x, ProtocolSelector \<times> Protocol) outcome)
           \<and> sel_valid s'"
proof (cases s)
  case (RemoteSel r)
  then have "remote_valid r" using assms by simp
  from remote_call_ok [OF this]
  have "\<exists>r'. remote_Current now later fetch r = (Ok (r', rm_current r') :: ('x, remoteProtocolSelector \<times> Protocol) outcome)
          \<and> remote_valid r'" .
  then show ?thesis
  proof (elim exE conjE)
    fix r'
    assume "remote_Current now later fetch r = (Ok (r', rm_current r') :: ('x, remoteProtocolSelector \<times> Protocol) outcome)"
      and "remote_valid r'"
    with RemoteSel show ?thesis by (intro exI [of _ "RemoteSel r'"]) simp
  qed
qed (use assms in \<open>auto simp: static_Current_def default_Current_def\<close>)

lemma sel_valid_cur: "sel_valid s \<Longrightarrow> sel_cur s \<in> set ProtocolList"
  by (cases s) (auto simp: static_valid_def default_valid_def remote_valid_def)

lemma sel_Fallback_down: "sel_Fallback s = (q, True) \<Longrightarrow> sel_cur s = QUIC \<and> q = HTTP2"
  by (cases s) (auto simp: static_Fallback_def default_Fallback_def remote_Fallback_def fallback_True_iff)

interpretation rsel: protocol_selector remote_valid rm_current
    "\<lambda>(now, later, fetch) s. remote_Current now later fetch s" remote_Fallback
  by unfold_locales
     (auto simp: remote_valid_def remote_Fallback_def fallback_True_iff split: prod.splits
       intro: remote_call_ok [unfolded remote_valid_def])

interpretation sel: protocol_selector sel_valid sel_cur
    "\<lambda>(now, later, fetch) s. sel_Current now later fetch s" sel_Fallback
  by unfold_locales (auto simp: sel_valid_cur dest: sel_Fallback_down split: prod.splits intro: sel_call_ok)

subsection \<open>Properties\<close>

definition selector_calls ::
    "(int \<times> int \<times> ('e + ProtocolPercent list)) list \<Rightarrow> ProtocolSelector
     \<Rightarrow> (selector_error, ProtocolSelector \<times> Protocol list) outcome" where
  "selector_calls = run_calls (\<lambda>(now, later, fetch) s. sel_Current now later fetch s)"

lemma NewProtocolSelector_valid:
  assumes "NewProtocolSelector now flag tag token fetch ttl = Ok s"
  shows "sel_valid s"
proof -
  have "p \<in> set ProtocolList" if "getProtocol ProtocolList fetch (switchThreshold tag) = Ok p" for p
    using getProtocol_pool [OF that] .
  with assms show ?thesis
    by (auto simp: NewProtocolSelector_def Let_def static_valid_def default_valid_def remote_valid_def
        newDefaultProtocolSelector_def newRemoteProtocolSelector_def ProtocolList_iff HTTP2_def
        split: outcome.splits if_splits)
qed

text \<open>
  The selector is made exactly for the known flags, and from then on no sequence of calls fails:
  each call answers with a supported protocol, and a fallback is only ever from QUIC to HTTP2.
\<close>

theorem selector_always_supported:
  "(NewProtocolSelector now flag tag token fetch ttl = Err (UnknownProtocol flag)
      \<and> flag \<notin> {''h2mux'', ''quic'', ''http2'', ''auto''})
   \<or> (\<exists>s. NewProtocolSelector now flag tag token fetch ttl = Ok s
      \<and> flag \<in> {''h2mux'', ''quic'', ''http2'', ''auto''}
      \<and> (\<exists>s' ps. selector_calls is s = Ok (s', ps) \<and> length ps = length is
           \<and> set ps \<subseteq> {QUIC, HTTP2}
           \<and> (snd (sel_Fallback s') = (sel_Fallback s' = (HTTP2, True) \<and> sel_cur s' = QUIC))))"
proof -
  have ok: "getProtocol ProtocolList fetch (switchThreshold tag) \<noteq> Panic"
    by (rule getProtocol_not_Panic) (simp add: ProtocolList_def)
  have made: "(if flag \<in> {''h2mux'', ''quic'', ''http2'', ''auto''}
       then \<exists>s. NewProtocolSelector now flag tag token fetch ttl = Ok s
       else NewProtocolSelector now flag tag token fetch ttl = Err (UnknownProtocol flag))"
    using ok by (auto simp: NewProtocolSelector_def Let_def protocol_String_def AutoSelectFlag_def
        split: outcome.splits)
  show ?thesis
  proof (cases "flag \<in> {''h2mux'', ''quic'', ''http2'', ''auto''}")
    case False
    with made show ?thesis by simp
  next
    case True
    with made obtain s where s: "NewProtocolSelector now flag tag token fetch ttl = Ok s" by auto
    obtain s' ps where run: "selector_calls is s = Ok (s', ps)" "sel_valid s'"
        "set ps \<subseteq> set ProtocolList" "length ps = length is"
      using sel.calls_ok [OF NewProtocolSelector_valid [OF s], of "is"]
      unfolding selector_calls_def by blast
    have "snd (sel_Fallback s') = (sel_Fallback s' = (HTTP2, True) \<and> sel_cur s' = QUIC)"
      using sel_Fallback_down [of s' "fst (sel_Fallback s')"] by (cases "sel_Fallback s'") auto
    moreover have "set ps \<subseteq> {QUIC, HTTP2}"
      using run(3) by (simp add: ProtocolList_def)
    ultimately have "\<exists>s' ps. selector_calls is s = Ok (s', ps) \<and> length ps = length is
           \<and> set ps \<subseteq> {QUIC, HTTP2}
           \<and> (snd (sel_Fallback s') = (sel_Fallback s' = (HTTP2, True) \<and> sel_cur s' = QUIC))"
      using run(1,4) by (intro exI [of _ s'] exI [of _ ps]) simp
    with s True show ?thesis by (intro disjI2 exI [of _ s]) simp
  qed
qed

lemma static_run:
  "run_calls (\<lambda>(now, later, fetch) s. sel_Current now later fetch s) is (StaticSel r)
     = Ok (StaticSel r, replicate (length is) (st_current r))"
  by (induction "is") (auto simp: static_Current_def)

text \<open>
  A protocol the user names (h2mux standing for HTTP2) is kept whatever the lookups say: every
  call answers with it and there is never a fallback.
\<close>

theorem selector_flag_sticks:
  assumes "flag = ''quic'' \<or> flag = ''http2'' \<or> flag = ''h2mux''"
    and "p = (if flag = ''quic'' then QUIC else HTTP2)"
  shows "\<exists>s. NewProtocolSelector now flag tag token fetch ttl = Ok s
           \<and> selector_calls is s = Ok (s, replicate (length is) p)
           \<and> sel_Fallback s = (p, False)"
proof (rule exI [of _ "StaticSel \<lparr>st_current = p\<rparr>"], intro conjI)
  have "getProtocol ProtocolList fetch (switchThreshold tag) \<noteq> Panic"
    by (rule getProtocol_not_Panic) (simp add: ProtocolList_def)
  with assms show "NewProtocolSelector now flag tag token fetch ttl = Ok (StaticSel \<lparr>st_current = p\<rparr>)"
    by (auto simp: NewProtocolSelector_def Let_def protocol_String_def split: outcome.splits)
qed (simp_all add: selector_calls_def static_run static_Fallback_def)

theorem selector_flag_sticks_witness:
  "\<exists>s. NewProtocolSelector 0 ''h2mux'' ''acc'' True (Inl ()) 3600 = Ok s
     \<and> selector_calls [(5, 6, Inr [\<lparr>pp_Protocol = ''quic'', pp_Percentage = 100\<rparr>])] s = Ok (s, [HTTP2])
     \<and> sel_Fallback s = (HTTP2, False)"
  using selector_flag_sticks [of "''h2mux''" HTTP2 0 "''acc''" True "Inl ()" 3600
      "[(5, 6, Inr [\<lparr>pp_Protocol = ''quic'', pp_Percentage = 100\<rparr>])]"] by simp

lemma run_calls_inv:
  assumes "\<And>i s s' p. \<lbrakk>call i s = Ok (s', p); I s\<rbrakk> \<Longrightarrow> I s'"
  shows "\<lbrakk>run_calls call is s = Ok (s', ps); I s\<rbrakk> \<Longrightarrow> I s'"
proof (induction "is" arbitrary: s ps)
  case (Cons i "is")
  obtain s1 p qs where "call i s = Ok (s1, p)" "run_calls call is s1 = Ok (s', qs)"
    using Cons.prems(1) by (auto simp: obind_Ok_iff)
  with assms Cons.IH Cons.prems(2) show ?case by blast
qed simp

fun auto_sel :: "int \<Rightarrow> duration \<Rightarrow> ProtocolSelector \<Rightarrow> bool" where
  "auto_sel t ttl (RemoteSel r) = (protocolPool r = ProtocolList \<and> rm_switchThreshold r = t \<and> rm_ttl r = ttl)"
| "auto_sel t ttl _ = False"

fun sel_due :: "ProtocolSelector \<Rightarrow> int" where
  "sel_due (RemoteSel r) = refreshAfter r"
| "sel_due _ = 0"

lemma auto_sel_call:
  "\<lbrakk>sel_Current now later fetch s = Ok (s', p); auto_sel t ttl s\<rbrakk> \<Longrightarrow> auto_sel t ttl s'"
  by (cases s) (auto simp: obind_Ok_iff remote_Current_def Let_def split: if_splits outcome.splits)

lemma auto_new:
  "\<exists>s. NewProtocolSelector now ''auto'' tag False fetch ttl = Ok s \<and> auto_sel (switchThreshold tag) ttl s
       \<and> sel_due s = now + ttl
       \<and> sel_cur s = (case getProtocol ProtocolList fetch (switchThreshold tag) of Ok p \<Rightarrow> p | _ \<Rightarrow> HTTP2)"
proof -
  have "getProtocol ProtocolList fetch (switchThreshold tag) \<noteq> Panic"
    by (rule getProtocol_not_Panic) (simp add: ProtocolList_def)
  then show ?thesis
    by (auto simp: NewProtocolSelector_def Let_def protocol_String_def AutoSelectFlag_def HTTP2_def
        newRemoteProtocolSelector_def split: outcome.splits)
qed

lemma auto_call:
  assumes "auto_sel t ttl s"
  shows "sel_Current now later fetch s =
     (if now < sel_due s then Ok (s, sel_cur s)
      else (case fetch of Inl e \<Rightarrow> Ok (s, sel_cur s)
            | Inr pcts \<Rightarrow>
                let p = (if GetPercentage pcts ''quic'' \<le> t \<and> t < GetPercentage pcts ''http2'' then HTTP2 else QUIC);
                    r = (case s of RemoteSel r \<Rightarrow> r)
                in Ok (RemoteSel (r\<lparr>rm_current := p, refreshAfter := later + ttl\<rparr>), p)))"
  using assms
  by (cases s) (auto simp: remote_Current_def getProtocol_ProtocolList getProtocol_Inl Let_def split: sum.splits)

text \<open>
  The automatic selection without a token, after any number of calls: before the refresh time, or
  when the lookup fails, the answer is the one given before; at a successful refresh it is HTTP2
  exactly when the QUIC percentage is at most the account's threshold and the HTTP2 percentage is
  above it, and the next refresh is one \<open>ttl\<close> later.  The threshold lies in 0..99, so 100 percent
  of QUIC always selects QUIC.
\<close>

theorem auto_selector_refresh:
  assumes "NewProtocolSelector t0 ''auto'' tag False fetch0 ttl = Ok s0"
    and "selector_calls is s0 = Ok (s, ps)"
    and "t = switchThreshold tag"
  shows "0 \<le> t \<and> t < 100
     \<and> (now < sel_due s \<or> (\<exists>e. fetch = Inl e)
          \<longrightarrow> sel_Current now later fetch s = (Ok (s, sel_cur s) :: (selector_error, _) outcome))
     \<and> (\<forall>pcts. fetch = Inr pcts \<and> sel_due s \<le> now
          \<longrightarrow> (\<exists>s'. sel_Current now later fetch s =
                (Ok (s', if GetPercentage pcts ''quic'' \<le> t \<and> t < GetPercentage pcts ''http2'' then HTTP2 else QUIC)
                   :: (selector_error, _) outcome)
              \<and> sel_due s' = later + ttl))"
proof -
  have "auto_sel t ttl s0"
    using auto_new [of t0 tag fetch0 ttl] assms(1,3) by auto
  then have "auto_sel t ttl s"
    using run_calls_inv [where I = "auto_sel t ttl", OF _ assms(2) [unfolded selector_calls_def]] auto_sel_call
    by fastforce
  then show ?thesis
    using switchThreshold_bounds assms(3) by (auto simp: auto_call Let_def)
qed

theorem auto_selector_refresh_witness:
  "\<exists>s s'. NewProtocolSelector 0 ''auto'' ''acc'' False (Inl ()) 3600 = Ok s
     \<and> sel_Current 3600 3601 (Inr [\<lparr>pp_Protocol = ''QUIC'', pp_Percentage = 100\<rparr>] :: unit + _) s = (Ok (s', QUIC) :: (selector_error, _) outcome)
     \<and> sel_due s' = 7201"
proof -
  obtain s where s: "NewProtocolSelector 0 ''auto'' ''acc'' False (Inl ()) 3600 = Ok s" "sel_due s = 3600"
    using auto_new [of 0 "''acc''" "Inl ()" 3600] by auto
  have "GetPercentage [\<lparr>pp_Protocol = ''QUIC'', pp_Percentage = 100\<rparr>] ''quic'' = 100" by code_simp
  with s auto_selector_refresh [of 0 "''acc''" "Inl ()" 3600 s "[]" s "[]" "switchThreshold ''acc''" 3600
      "Inr [\<lparr>pp_Protocol = ''QUIC'', pp_Percentage = 100\<rparr>]" 3601]
  show ?thesis by (auto simp: selector_calls_def)
qed

text \<open>
  When the first lookup fails, the automatic selection without a token starts with the zero
  protocol: until the refresh time it answers HTTP2, without a fallback.  With any lookup that
  succeeds and does not favour HTTP2 it starts with QUIC.
\<close>

theorem auto_lookup_failure_starts_http2:
  "(\<exists>s. NewProtocolSelector t0 ''auto'' tag False (Inl (e :: 'e)) ttl = Ok s \<and> sel_Fallback s = (0, False)
        \<and> (now < t0 + ttl \<longrightarrow> sel_Current now later fetch s = (Ok (s, HTTP2) :: (selector_error, _) outcome)))
   \<and> (\<exists>s. NewProtocolSelector t0 ''auto'' tag False (Inr [] :: 'e + ProtocolPercent list) ttl = Ok s \<and> sel_Fallback s = (HTTP2, True)
        \<and> (now < t0 + ttl \<longrightarrow> sel_Current now later fetch s = (Ok (s, QUIC) :: (selector_error, _) outcome)))"
proof -
  have fb: "sel_Fallback s = fallback (sel_cur s)" if "auto_sel t ttl s" for s t
    using that by (cases s) (simp_all add: remote_Fallback_def)
  have first: "getProtocol ProtocolList (Inl (e :: 'e)) t = Err e" for t
    by (simp add: getProtocol_Err_iff)
  have second: "getProtocol ProtocolList (Inr [] :: 'e + ProtocolPercent list) t = Ok QUIC" if "0 \<le> t" for t
    using that by (simp add: getProtocol_ProtocolList)
  obtain s where s: "NewProtocolSelector t0 ''auto'' tag False (Inl (e :: 'e)) ttl = Ok s"
      "auto_sel (switchThreshold tag) ttl s" "sel_due s = t0 + ttl" "sel_cur s = HTTP2"
    using auto_new [of t0 tag "Inl (e :: 'e)" ttl] unfolding first by auto
  obtain u where u: "NewProtocolSelector t0 ''auto'' tag False (Inr [] :: 'e + ProtocolPercent list) ttl = Ok u"
      "auto_sel (switchThreshold tag) ttl u" "sel_due u = t0 + ttl" "sel_cur u = QUIC"
    using auto_new [of t0 tag "Inr [] :: 'e + ProtocolPercent list" ttl] unfolding second [OF switchThreshold_bounds(1)] by auto
  have "sel_Fallback s = (0, False)" "sel_Fallback u = (HTTP2, True)"
    using fb [OF s(2)] fb [OF u(2)] s(4) u(4) by (simp_all add: fallback_def)
  moreover have "now < t0 + ttl \<longrightarrow> sel_Current now later fetch s = (Ok (s, HTTP2) :: (selector_error, _) outcome)"
    using s(3,4) by (simp add: auto_call [OF s(2)])
  moreover have "now < t0 + ttl \<longrightarrow> sel_Current now later fetch u = (Ok (u, QUIC) :: (selector_error, _) outcome)"
    using u(3,4) by (simp add: auto_call [OF u(2)])
  ultimately show ?thesis
    using s(1) u(1) by (intro conjI, intro exI [of _ s], simp, intro exI [of _ u], simp)
qed

theorem auto_lookup_failure_starts_http2_witness:
  "\<exists>s. NewProtocolSelector 0 ''auto'' ''acc'' False (Inl ()) 3600 = Ok s
     \<and> sel_Current 5 6 (Inl ()) s = (Ok (s, HTTP2) :: (selector_error, _) outcome)"
  using auto_lookup_failure_starts_http2 [of 0 "''acc''" "()" 3600 5 6 "Inl ()"] by auto

end
