(* ===== verification/Conn_Tracker.thy ===== *)
theory Conn_Tracker
  imports Protocol_Select
begin

text \<open>
  \<^verbatim>\<open>connection/event.go\<close>, the event channel of \<^verbatim>\<open>connection/observer.go\<close> and
  \<^verbatim>\<open>tunnelstate/conntracker.go\<close>: which edge connections are up and with which protocol.  A Go
  map is a partial function; reading an absent entry gives the zero \<^verbatim>\<open>ConnectionInfo\<close>, whose
  protocol is the zero protocol.  Maps with an unspecified iteration order are read through
  the sorted list of their keys, all \<^verbatim>\<open>uint8\<close>.
\<close>

subsection \<open>Events\<close>

datatype Status = Disconnected | Connected | Reconnecting | SetURL | RegisteringTunnel | Unregistering

record Event =
  ev_Index :: byte
  EventType :: Status
  ev_Location :: string
  ev_Protocol :: Protocol
  ev_URL :: string
  ev_EdgeAddress :: "byte list"

definition zero_event :: "byte \<Rightarrow> Status \<Rightarrow> Event" where
  "zero_event i st = \<lparr>ev_Index = i, EventType = st, ev_Location = [], ev_Protocol = 0, ev_URL = [], ev_EdgeAddress = []\<rparr>"

text \<open>
  The observer: a channel of capacity 16.  A send to a full channel only warns; the event is lost.
  \<open>dispatch\<close> takes the oldest event off the channel for the sinks.
\<close>

definition observerChannelBufferSize :: nat where
  "observerChannelBufferSize = 16"

type_synonym observer = "Event list"

definition sendEvent :: "Event \<Rightarrow> observer \<Rightarrow> observer" where
  "sendEvent e ch = (if length ch < observerChannelBufferSize then ch @ [e] else ch)"

definition sendRegisteringEvent :: "byte \<Rightarrow> observer \<Rightarrow> observer" where
  "sendRegisteringEvent i ch = sendEvent (zero_event i RegisteringTunnel) ch"

definition sendConnectedEvent :: "byte \<Rightarrow> Protocol \<Rightarrow> string \<Rightarrow> byte list \<Rightarrow> observer \<Rightarrow> observer" where
  "sendConnectedEvent i p loc addr ch =
     sendEvent ((zero_event i Connected)\<lparr>ev_Protocol := p, ev_Location := loc, ev_EdgeAddress := addr\<rparr>) ch"

definition SendReconnect :: "byte \<Rightarrow> observer \<Rightarrow> observer" where
  "SendReconnect i ch = sendEvent (zero_event i Reconnecting) ch"

definition sendUnregisteringEvent :: "byte \<Rightarrow> observer \<Rightarrow> observer" where
  "sendUnregisteringEvent i ch = sendEvent (zero_event i Unregistering) ch"

definition SendDisconnect :: "byte \<Rightarrow> observer \<Rightarrow> observer" where
  "SendDisconnect i ch = sendEvent (zero_event i Disconnected) ch"

subsection \<open>The tracker\<close>

record ConnectionInfo =
  IsConnected :: bool
  ci_Protocol :: Protocol
  ci_EdgeAddress :: "byte list"

record IndexedConnectionInfo =
  ii_info :: ConnectionInfo
  ii_Index :: byte

type_synonym ConnTracker = "byte \<Rightarrow> ConnectionInfo option"

definition zero_info :: ConnectionInfo where
  "zero_info = \<lparr>IsConnected = False, ci_Protocol = 0, ci_EdgeAddress = []\<rparr>"

definition NewConnTracker :: ConnTracker where
  "NewConnTracker = (\<lambda>_. None)"

definition info_at :: "ConnTracker \<Rightarrow> byte \<Rightarrow> ConnectionInfo" where
  "info_at ct i = (case ct i of None \<Rightarrow> zero_info | Some ci \<Rightarrow> ci)"

definition OnTunnelEvent :: "Event \<Rightarrow> ConnTracker \<Rightarrow> ConnTracker" where
  "OnTunnelEvent c ct =
     (case EventType c of
        Connected \<Rightarrow>
          ct(ev_Index c \<mapsto> \<lparr>IsConnected = True, ci_Protocol = ev_Protocol c, ci_EdgeAddress = ev_EdgeAddress c\<rparr>)
      | SetURL \<Rightarrow> ct
      | _ \<Rightarrow> ct(ev_Index c \<mapsto> (info_at ct (ev_Index c))\<lparr>IsConnected := False\<rparr>))"

definition all_indices :: "byte list" where
  "all_indices = map word_of_nat [0..<256]"

fun infos :: "ConnTracker \<Rightarrow> byte list \<Rightarrow> IndexedConnectionInfo list" where
  "infos ct [] = []"
| "infos ct (i # is) =
     (case ct i of None \<Rightarrow> infos ct is | Some ci \<Rightarrow> \<lparr>ii_info = ci, ii_Index = i\<rparr> # infos ct is)"

definition CountActiveConns :: "ConnTracker \<Rightarrow> nat" where
  "CountActiveConns ct =
     foldl (\<lambda>active ii. if IsConnected (ii_info ii) then active + 1 else active) 0 (infos ct all_indices)"

definition HasConnectedWith :: "Protocol \<Rightarrow> ConnTracker \<Rightarrow> bool" where
  "HasConnectedWith p ct = list_ex (\<lambda>ii. ci_Protocol (ii_info ii) = p) (infos ct all_indices)"

definition GetActiveConnections :: "ConnTracker \<Rightarrow> IndexedConnectionInfo list" where
  "GetActiveConnections ct = filter (\<lambda>ii. IsConnected (ii_info ii)) (infos ct all_indices)"

definition dispatch :: "observer \<Rightarrow> ConnTracker \<Rightarrow> observer \<times> ConnTracker" where
  "dispatch ch ct = (case ch of [] \<Rightarrow> ([], ct) | e # es \<Rightarrow> (es, OnTunnelEvent e ct))"

fun track :: "Event list \<Rightarrow> ConnTracker \<Rightarrow> ConnTracker" where
  "track [] ct = ct"
| "track (e # es) ct = track es (OnTunnelEvent e ct)"

text \<open>\<open>ConnAwareLogger\<close> logs at error level exactly when no connection is up.\<close>

datatype log_level = LevelWarn | LevelError

definition ConnAwareLogger :: "ConnTracker \<Rightarrow> log_level" where
  "ConnAwareLogger ct = (if CountActiveConns ct = 0 then LevelError else LevelWarn)"

subsection \<open>Lemmas\<close>

lemma set_all_indices [simp]: "set all_indices = UNIV"
proof -
  have "(i :: byte) \<in> set all_indices" for i
    using unat_byte_less [of i] unfolding all_indices_def
    by (auto intro!: image_eqI [of _ _ "unat i"])
  then show ?thesis by auto
qed

lemma distinct_all_indices [simp]: "distinct all_indices"
proof -
  have "inj_on (word_of_nat :: nat \<Rightarrow> byte) {0..<256}"
    by (rule inj_onI) (metis atLeastLessThan_iff mod_less unat_byte_of_nat)
  then show ?thesis by (simp add: all_indices_def distinct_map)
qed

lemma infos_set: "ii \<in> set (infos ct is) \<longleftrightarrow> ii_Index ii \<in> set is \<and> ct (ii_Index ii) = Some (ii_info ii)"
  by (induction "is") (auto split: option.splits)

lemma infos_map_index: "map ii_Index (infos ct is) = filter (\<lambda>i. ct i \<noteq> None) is"
  by (induction "is") (auto split: option.splits)

lemma GetActiveConnections_set:
  "ii \<in> set (GetActiveConnections ct) \<longleftrightarrow> ct (ii_Index ii) = Some (ii_info ii) \<and> IsConnected (ii_info ii)"
  by (auto simp: GetActiveConnections_def infos_set)

lemma distinct_active: "distinct (map ii_Index (GetActiveConnections ct))"
proof -
  have "distinct (map ii_Index (infos ct all_indices))"
    by (simp add: infos_map_index)
  then show ?thesis
    unfolding GetActiveConnections_def by (rule distinct_map_filter)
qed

lemma count_foldl:
  "foldl (\<lambda>active ii. if P ii then active + 1 else active) n xs = n + length (filter P xs)"
  by (induction xs arbitrary: n) auto

lemma CountActiveConns_length: "CountActiveConns ct = length (GetActiveConnections ct)"
  unfolding CountActiveConns_def GetActiveConnections_def by (simp add: count_foldl)

lemma HasConnectedWith_iff: "HasConnectedWith p ct \<longleftrightarrow> (\<exists>i ci. ct i = Some ci \<and> ci_Protocol ci = p)"
proof
  assume "HasConnectedWith p ct"
  then show "\<exists>i ci. ct i = Some ci \<and> ci_Protocol ci = p"
  proof -
    obtain ii where "ii \<in> set (infos ct all_indices)" "ci_Protocol (ii_info ii) = p"
      using \<open>HasConnectedWith p ct\<close> unfolding HasConnectedWith_def list_ex_iff by blast
    then show ?thesis
      by (intro exI [of _ "ii_Index ii"] exI [of _ "ii_info ii"]) (simp add: infos_set)
  qed
next
  assume "\<exists>i ci. ct i = Some ci \<and> ci_Protocol ci = p"
  then obtain i ci where "ct i = Some ci" "ci_Protocol ci = p" by auto
  then have "\<lparr>ii_info = ci, ii_Index = i\<rparr> \<in> set (infos ct all_indices)"
    by (simp add: infos_set)
  with \<open>ci_Protocol ci = p\<close> show "HasConnectedWith p ct"
    unfolding HasConnectedWith_def list_ex_iff by force
qed

subsection \<open>Properties\<close>

text \<open>
  The history of an index: its events that count, SetURL being ignored, and among them the
  successful connections.
\<close>

definition history :: "byte \<Rightarrow> Event list \<Rightarrow> Event list" where
  "history i es = filter (\<lambda>e. ev_Index e = i \<and> EventType e \<noteq> SetURL) es"

definition successes :: "byte \<Rightarrow> Event list \<Rightarrow> Event list" where
  "successes i es = filter (\<lambda>e. ev_Index e = i \<and> EventType e = Connected) es"

definition tracked_info :: "byte \<Rightarrow> Event list \<Rightarrow> ConnectionInfo option" where
  "tracked_info i es =
     (if history i es = [] then None
      else Some \<lparr>IsConnected = (EventType (last (history i es)) = Connected),
                 ci_Protocol = (if successes i es = [] then 0 else ev_Protocol (last (successes i es))),
                 ci_EdgeAddress = (if successes i es = [] then [] else ev_EdgeAddress (last (successes i es)))\<rparr>)"

lemma track_append: "track (es @ fs) ct = track fs (track es ct)"
  by (induction es arbitrary: ct) auto

lemma successes_history: "history i es = [] \<Longrightarrow> successes i es = []"
  by (auto simp: history_def successes_def filter_empty_conv)

lemma OnTunnelEvent_other: "ev_Index e \<noteq> i \<Longrightarrow> OnTunnelEvent e ct i = ct i"
  by (simp add: OnTunnelEvent_def split: Status.splits)

lemma OnTunnelEvent_same:
  "OnTunnelEvent e ct (ev_Index e) =
     (if EventType e = Connected then Some \<lparr>IsConnected = True, ci_Protocol = ev_Protocol e, ci_EdgeAddress = ev_EdgeAddress e\<rparr>
      else if EventType e = SetURL then ct (ev_Index e)
      else Some ((info_at ct (ev_Index e))\<lparr>IsConnected := False\<rparr>))"
  by (simp add: OnTunnelEvent_def split: Status.splits)

lemma tracked_other: "ev_Index e \<noteq> i \<Longrightarrow> tracked_info i (es @ [e]) = tracked_info i es"
  by (simp add: tracked_info_def history_def successes_def)

lemma track_exact: "track es NewConnTracker i = tracked_info i es"
proof (induction es rule: rev_induct)
  case Nil
  then show ?case by (simp add: NewConnTracker_def tracked_info_def history_def)
next
  case (snoc e es)
  show ?case
  proof (cases "ev_Index e = i")
    case False
    with snoc show ?thesis by (simp add: track_append OnTunnelEvent_other tracked_other)
  next
    case True
    have ct: "track es NewConnTracker (ev_Index e) = tracked_info i es" using snoc True by simp
    have hist: "history i (es @ [e]) = (if EventType e = SetURL then history i es else history i es @ [e])"
      "successes i (es @ [e]) = (if EventType e = Connected then successes i es @ [e] else successes i es)"
      using True by (simp_all add: history_def successes_def)
    have zero: "history i es = [] \<Longrightarrow> successes i es = []" by (rule successes_history)
    have "track (es @ [e]) NewConnTracker i = OnTunnelEvent e (track es NewConnTracker) (ev_Index e)"
      using True by (simp add: track_append)
    also have "\<dots> = tracked_info i (es @ [e])"
      unfolding OnTunnelEvent_same info_at_def ct using zero
      by (auto simp: tracked_info_def hist zero_info_def)
    finally show ?thesis .
  qed
qed

text \<open>
  After any sequence of events the active connections are exactly the indices whose last event
  that counts was a success, each listed once with the protocol and the address of that success;
  their number is what \<^verbatim>\<open>CountActiveConns\<close> returns, and the logger escalates exactly when there
  is none.
\<close>

theorem active_connections_exact:
  "set (GetActiveConnections (track es NewConnTracker)) =
     {\<lparr>ii_info = \<lparr>IsConnected = True, ci_Protocol = ev_Protocol e, ci_EdgeAddress = ev_EdgeAddress e\<rparr>, ii_Index = i\<rparr>
        | i e. history i es \<noteq> [] \<and> e = last (history i es) \<and> EventType e = Connected}
   \<and> distinct (map ii_Index (GetActiveConnections (track es NewConnTracker)))
   \<and> CountActiveConns (track es NewConnTracker) =
       card {i. history i es \<noteq> [] \<and> EventType (last (history i es)) = Connected}
   \<and> (ConnAwareLogger (track es NewConnTracker) = LevelError
        \<longleftrightarrow> {i. history i es \<noteq> [] \<and> EventType (last (history i es)) = Connected} = {})"
proof -
  let ?ct = "track es NewConnTracker"
  let ?up = "\<lambda>i. history i es \<noteq> [] \<and> EventType (last (history i es)) = Connected"
  have succ_filter: "successes i es = filter (\<lambda>e. EventType e = Connected) (history i es)" for i
    by (simp add: successes_def history_def) (metis Status.distinct(13))
  have last_succ: "successes i es \<noteq> [] \<and> last (successes i es) = last (history i es)" if up: "?up i" for i
  proof -
    obtain hs h where h: "history i es = hs @ [h]" using up by (cases "history i es" rule: rev_cases) auto
    then have "EventType h = Connected" using up by simp
    then show ?thesis by (simp add: succ_filter h)
  qed
  have act: "(ii \<in> set (GetActiveConnections ?ct)) =
      (?up (ii_Index ii) \<and> ii_info ii = \<lparr>IsConnected = True, ci_Protocol = ev_Protocol (last (history (ii_Index ii) es)),
         ci_EdgeAddress = ev_EdgeAddress (last (history (ii_Index ii) es))\<rparr>)" for ii
    using last_succ [of "ii_Index ii"]
    by (cases "ii_info ii") (auto simp: GetActiveConnections_set track_exact tracked_info_def)
  have index_set: "set (map ii_Index (GetActiveConnections ?ct)) = {i. ?up i}"
  proof (rule set_eqI)
    fix i
    have "i \<in> set (map ii_Index (GetActiveConnections ?ct)) \<longleftrightarrow> (\<exists>ii. ii_Index ii = i \<and> ii \<in> set (GetActiveConnections ?ct))"
      by auto
    also have "\<dots> \<longleftrightarrow> i \<in> {i. ?up i}"
      unfolding act by (auto intro: exI [of _ "\<lparr>ii_info = _, ii_Index = i\<rparr>"])
    finally show "i \<in> set (map ii_Index (GetActiveConnections ?ct)) \<longleftrightarrow> i \<in> {i. ?up i}" .
  qed
  have count: "CountActiveConns ?ct = card {i. ?up i}"
    unfolding CountActiveConns_length index_set [symmetric]
    using distinct_card [OF distinct_active [of ?ct]] by simp
  have "set (GetActiveConnections ?ct) =
     {\<lparr>ii_info = \<lparr>IsConnected = True, ci_Protocol = ev_Protocol e, ci_EdgeAddress = ev_EdgeAddress e\<rparr>, ii_Index = i\<rparr>
        | i e. history i es \<noteq> [] \<and> e = last (history i es) \<and> EventType e = Connected}"
  proof (rule set_eqI)
    fix ii :: IndexedConnectionInfo
    show "(ii \<in> set (GetActiveConnections ?ct)) = (ii \<in>
     {\<lparr>ii_info = \<lparr>IsConnected = True, ci_Protocol = ev_Protocol e, ci_EdgeAddress = ev_EdgeAddress e\<rparr>, ii_Index = i\<rparr>
        | i e. history i es \<noteq> [] \<and> e = last (history i es) \<and> EventType e = Connected})"
      unfolding act by (cases ii) auto
  qed
  moreover have "ConnAwareLogger ?ct = LevelError \<longleftrightarrow> {i. ?up i} = {}"
    by (simp add: ConnAwareLogger_def count)
  ultimately show ?thesis
    using count distinct_active [of ?ct] by auto
qed

text \<open>
  Exactly when \<^verbatim>\<open>HasConnectedWith\<close> holds: some index has an event that counts and either its last
  success used this protocol, or it never succeeded and the protocol asked for is HTTP2, whose
  value is the zero protocol of a fresh entry.  Earlier successes of the index are forgotten.
\<close>

theorem has_connected_exact:
  "HasConnectedWith p (track es NewConnTracker) \<longleftrightarrow>
     (\<exists>i. history i es \<noteq> []
        \<and> (if successes i es = [] then p = HTTP2 else ev_Protocol (last (successes i es)) = p))"
  by (auto simp: HasConnectedWith_iff track_exact tracked_info_def HTTP2_def split: if_splits)

theorem has_connected_exact_witness:
  "HasConnectedWith HTTP2 (track [zero_event 2 Disconnected] NewConnTracker)"
proof -
  have "history 2 [zero_event 2 Disconnected] \<noteq> []" "successes 2 [zero_event 2 Disconnected] = []"
    by (simp_all add: history_def successes_def zero_event_def)
  then show ?thesis
    unfolding has_connected_exact by (intro exI [of _ 2]) simp
qed

subsection \<open>The event channel\<close>

datatype observer_op = SendEvent Event | DispatchEvent

fun observer_step :: "observer_op \<Rightarrow> observer \<times> ConnTracker \<Rightarrow> observer \<times> ConnTracker" where
  "observer_step (SendEvent e) (ch, ct) = (sendEvent e ch, ct)"
| "observer_step DispatchEvent (ch, ct) = dispatch ch ct"

fun observer_run :: "observer_op list \<Rightarrow> observer \<times> ConnTracker \<Rightarrow> observer \<times> ConnTracker" where
  "observer_run [] st = st"
| "observer_run (op # ops) st = observer_run ops (observer_step op st)"

text \<open>The events the channel takes, given how many are pending.\<close>

fun accepted :: "observer_op list \<Rightarrow> nat \<Rightarrow> Event list" where
  "accepted [] n = []"
| "accepted (SendEvent e # ops) n =
     (if n < observerChannelBufferSize then e # accepted ops (n + 1) else accepted ops n)"
| "accepted (DispatchEvent # ops) n = accepted ops (n - 1)"

lemma observer_run_accepted:
  "\<lbrakk>observer_run ops (ch, ct) = (ch', ct'); length ch \<le> observerChannelBufferSize\<rbrakk>
    \<Longrightarrow> length ch' \<le> observerChannelBufferSize
      \<and> (\<exists>seen. seen @ ch' = ch @ accepted ops (length ch) \<and> ct' = track seen ct)"
proof (induction ops arbitrary: ch ct)
  case Nil
  then show ?case by (auto intro: exI [of _ "[]"])
next
  case (Cons op ops)
  show ?case
  proof (cases op)
    case (SendEvent e)
    with Cons.prems Cons.IH [of "sendEvent e ch" ct] show ?thesis
      by (auto simp: sendEvent_def split: if_splits)
  next
    case DispatchEvent
    show ?thesis
    proof (cases ch)
      case Nil
      with Cons.prems Cons.IH [of "[]" ct] DispatchEvent show ?thesis
        by (simp add: dispatch_def)
    next
      case (Cons c cs)
      have "observer_run ops (cs, OnTunnelEvent c ct) = (ch', ct')" "length cs \<le> observerChannelBufferSize"
        using Cons.prems DispatchEvent \<open>ch = c # cs\<close> by (simp_all add: dispatch_def)
      from Cons.IH [OF this] obtain seen where seen: "length ch' \<le> observerChannelBufferSize"
          "seen @ ch' = cs @ accepted ops (length cs)" "ct' = track seen (OnTunnelEvent c ct)" by blast
      have "(c # seen) @ ch' = ch @ accepted (op # ops) (length ch)" "ct' = track (c # seen) ct"
        using seen(2,3) DispatchEvent \<open>ch = c # cs\<close> by simp_all
      with seen(1) show ?thesis by blast
    qed
  qed
qed

text \<open>
  The tracker sees, in order, a prefix of the events the observer took, and the rest, at most 16 of
  them, is still in the channel.
\<close>

theorem observer_fifo:
  assumes "observer_run ops ([], NewConnTracker) = (ch, ct)"
  shows "length ch \<le> 16 \<and> (\<exists>seen. seen @ ch = accepted ops 0 \<and> ct = track seen NewConnTracker)"
  using observer_run_accepted [OF assms] by (simp add: observerChannelBufferSize_def)

theorem observer_fifo_witness:
  "\<exists>seen. seen @ [zero_event 2 Disconnected] = accepted [SendEvent (zero_event 1 Connected), SendEvent (zero_event 2 Disconnected), DispatchEvent] 0"
proof -
  have "observer_run [SendEvent (zero_event 1 Connected), SendEvent (zero_event 2 Disconnected), DispatchEvent] ([], NewConnTracker)
      = ([zero_event 2 Disconnected], track [zero_event 1 Connected] NewConnTracker)"
    by (simp add: sendEvent_def dispatch_def observerChannelBufferSize_def)
  from observer_fifo [OF this] show ?thesis by blast
qed

end
