(* ===== verification/Backoff.thy ===== *)
theory Backoff
  imports Cfd_Prelude
begin

text \<open>
  \<^verbatim>\<open>retry/backoffhandler.go\<close>: exponential backoff with a bounded number of retries and a grace
  period.  The clock reading \<open>now\<close> (nanoseconds) and the random source \<open>rnd\<close> of the calls are
  arguments; the zero \<^verbatim>\<open>time.Time\<close> of \<^verbatim>\<open>resetDeadline\<close> is \<open>None\<close>.  Durations are 64-bit and
  every product and shift wraps as in Go; \<^verbatim>\<open>rand.Int63n\<close> panics on a non-positive bound.
\<close>

subsection \<open>The handler of the source\<close>

record backoff_handler =
  maxRetries :: u64
  retryForever :: bool
  baseTime :: duration
  retries :: u64
  resetDeadline :: "int option"

definition DefaultBaseTime :: duration where
  "DefaultBaseTime = second_ns"

definition NewBackoff :: "u64 \<Rightarrow> duration \<Rightarrow> bool \<Rightarrow> backoff_handler" where
  "NewBackoff maxr base forever =
     \<lparr>maxRetries = maxr, retryForever = forever, baseTime = base, retries = 0, resetDeadline = None\<rparr>"

definition GetBaseTime :: "backoff_handler \<Rightarrow> duration" where
  "GetBaseTime b = (if baseTime b = 0 then DefaultBaseTime else baseTime b)"

definition shl64 :: "int \<Rightarrow> u64 \<Rightarrow> int" where
  "shl64 x k = to_int64 (x * 2 ^ unat k)"

definition int63n :: "(int \<Rightarrow> int) \<Rightarrow> int \<Rightarrow> ('e, int) outcome" where
  "int63n rnd n = (if n \<le> 0 then Panic else Ok (rnd n))"

definition deadline_passed :: "int \<Rightarrow> backoff_handler \<Rightarrow> bool" where
  "deadline_passed now b = (case resetDeadline b of None \<Rightarrow> False | Some d \<Rightarrow> d < now)"

definition GetMaxBackoffDuration :: "bool \<Rightarrow> int \<Rightarrow> backoff_handler \<Rightarrow> duration \<times> bool" where
  "GetMaxBackoffDuration ctx_done now b =
     (if ctx_done then (0, False)
      else if deadline_passed now b then (second_ns, True)
      else if maxRetries b \<le> retries b \<and> \<not> retryForever b then (0, False)
      else (shl64 (to_int64 (GetBaseTime b * 1)) (retries b + 1), True))"

definition reset_if_due :: "int \<Rightarrow> backoff_handler \<Rightarrow> backoff_handler" where
  "reset_if_due now b = (if deadline_passed now b then b\<lparr>retries := 0, resetDeadline := None\<rparr> else b)"

definition arm_timer :: "(int \<Rightarrow> int) \<Rightarrow> backoff_handler \<Rightarrow> ('e, backoff_handler \<times> duration option) outcome" where
  "arm_timer rnd b =
     obind (int63n rnd (to_int64 (GetBaseTime b * shl64 1 (retries b)))) (\<lambda>d. Ok (b, Some d))"

text \<open>The returned duration is that of the armed timer; \<open>None\<close> is the nil channel.\<close>

definition BackoffTimer ::
    "int \<Rightarrow> (int \<Rightarrow> int) \<Rightarrow> backoff_handler \<Rightarrow> ('e, backoff_handler \<times> duration option) outcome" where
  "BackoffTimer now rnd b0 =
     (let b = reset_if_due now b0
      in if maxRetries b \<le> retries b
         then (if \<not> retryForever b then Ok (b, None) else arm_timer rnd b)
         else arm_timer rnd (b\<lparr>retries := retries b + 1\<rparr>))"

text \<open>\<open>timer_first\<close> is the branch the \<^verbatim>\<open>select\<close> takes: the timer or the done context.\<close>

definition Backoff ::
    "bool \<Rightarrow> int \<Rightarrow> (int \<Rightarrow> int) \<Rightarrow> backoff_handler \<Rightarrow> ('e, backoff_handler \<times> bool) outcome" where
  "Backoff timer_first now rnd b =
     obind (BackoffTimer now rnd b)
       (\<lambda>(b', t). Ok (b', case t of None \<Rightarrow> False | Some d \<Rightarrow> timer_first))"

definition SetGracePeriod ::
    "int \<Rightarrow> (int \<Rightarrow> int) \<Rightarrow> backoff_handler \<Rightarrow> ('e, backoff_handler \<times> duration) outcome" where
  "SetGracePeriod now rnd b =
     obind (int63n rnd (shl64 (to_int64 (GetBaseTime b * 2)) (retries b + 1)))
       (\<lambda>d. Ok (b\<lparr>resetDeadline := Some (now + d)\<rparr>, d))"

definition Retries :: "backoff_handler \<Rightarrow> int" where
  "Retries b = sint (retries b)"

definition ReachedMaxRetries :: "backoff_handler \<Rightarrow> bool" where
  "ReachedMaxRetries b = (retries b = maxRetries b)"

definition ResetNow :: "int \<Rightarrow> backoff_handler \<Rightarrow> backoff_handler" where
  "ResetNow now b = b\<lparr>resetDeadline := Some now, retries := 0\<rparr>"

subsection \<open>The invariant and the arithmetic of one wait\<close>

definition backoff_inv :: "backoff_handler \<Rightarrow> bool" where
  "backoff_inv b = (retries b \<le> maxRetries b)"

text \<open>
  \<open>no_overflow b\<close>: the longest wait of the handler, the base time doubled \<open>maxRetries\<close> times and
  twice more for the grace period, fits in a 64-bit duration.
\<close>

definition no_overflow :: "backoff_handler \<Rightarrow> bool" where
  "no_overflow b = (0 < GetBaseTime b \<and> GetBaseTime b * 2 ^ (unat (maxRetries b) + 2) < 2 ^ 63)"

definition rnd_ok :: "(int \<Rightarrow> int) \<Rightarrow> bool" where
  "rnd_ok rnd = (\<forall>n > 0. 0 \<le> rnd n \<and> rnd n < n)"

lemma GetBaseTime_update [simp]:
  "GetBaseTime (b\<lparr>retries := r\<rparr>) = GetBaseTime b"
  "GetBaseTime (b\<lparr>resetDeadline := d\<rparr>) = GetBaseTime b"
  by (simp_all add: GetBaseTime_def)

lemma base_mult_bound:
  assumes "no_overflow b" and "k \<le> unat (maxRetries b) + 2"
  shows "0 < GetBaseTime b * 2 ^ k" and "GetBaseTime b * 2 ^ k < 2 ^ 63"
    and "(2::int) ^ k < 2 ^ 63"
proof -
  have g: "0 < GetBaseTime b" using assms(1) by (simp add: no_overflow_def)
  then show "0 < GetBaseTime b * 2 ^ k" by simp
  have "(2::int) ^ k \<le> 2 ^ (unat (maxRetries b) + 2)"
    using assms(2) by (intro power_increasing) auto
  then have "GetBaseTime b * 2 ^ k \<le> GetBaseTime b * 2 ^ (unat (maxRetries b) + 2)"
    using g by (intro mult_left_mono) auto
  also have l: "\<dots> < 2 ^ 63" using assms(1) by (simp add: no_overflow_def)
  finally show b: "GetBaseTime b * 2 ^ k < 2 ^ 63" .
  have "1 * (2::int) ^ k \<le> GetBaseTime b * 2 ^ k"
    using g by (intro mult_right_mono) auto
  then show "(2::int) ^ k < 2 ^ 63" using b by linarith
qed

lemma to_int64_pos: "0 \<le> n \<Longrightarrow> n < 2 ^ 63 \<Longrightarrow> to_int64 n = n"
  by (rule to_int64_id) auto

lemma wait_bound:
  assumes "no_overflow b" and "r \<le> maxRetries b"
  shows "to_int64 (GetBaseTime b * shl64 1 r) = GetBaseTime b * 2 ^ unat r"
proof -
  have k: "unat r \<le> unat (maxRetries b) + 2" using assms(2) by (simp add: word_le_nat_alt)
  have "shl64 1 r = 2 ^ unat r"
    using base_mult_bound(3) [OF assms(1) k] by (simp add: shl64_def to_int64_pos)
  then show ?thesis
    using base_mult_bound(1,2) [OF assms(1) k] by (simp add: to_int64_pos)
qed

lemma shl_bound:
  assumes "no_overflow b" and "unat r + j \<le> unat (maxRetries b) + 2"
  shows "shl64 (to_int64 (GetBaseTime b * 2 ^ j)) r = GetBaseTime b * 2 ^ (j + unat r)"
proof -
  have j: "j \<le> unat (maxRetries b) + 2" and jr: "j + unat r \<le> unat (maxRetries b) + 2"
    using assms(2) by auto
  have "to_int64 (GetBaseTime b * 2 ^ j) = GetBaseTime b * 2 ^ j"
    using base_mult_bound(1,2) [OF assms(1) j] by (simp add: to_int64_pos)
  then show ?thesis
    using base_mult_bound(1,2) [OF assms(1) jr]
    by (simp add: shl64_def to_int64_pos power_add mult.assoc)
qed

lemma retries_suc:
  assumes "\<not> maxRetries b \<le> retries b"
  shows "unat (retries b + 1) = Suc (unat (retries b))" and "retries b + 1 \<le> maxRetries b"
proof -
  have l: "unat (retries b) < unat (maxRetries b)" using assms by (simp add: word_le_nat_alt)
  then show s: "unat (retries b + 1) = Suc (unat (retries b))"
    using unsigned_less [of "maxRetries b", where ?'a = nat] by (simp add: unat_word_ariths(1))
  show "retries b + 1 \<le> maxRetries b"
    using l s by (simp add: word_le_nat_alt)
qed

lemma reset_if_due_simps [simp]:
  "maxRetries (reset_if_due now b) = maxRetries b"
  "retryForever (reset_if_due now b) = retryForever b"
  "GetBaseTime (reset_if_due now b) = GetBaseTime b"
  by (simp_all add: reset_if_due_def GetBaseTime_def)

lemma reset_if_due_retries:
  "retries (reset_if_due now b) = (if deadline_passed now b then 0 else retries b)"
  by (simp add: reset_if_due_def)

lemma reset_if_due_inv: "backoff_inv b \<Longrightarrow> backoff_inv (reset_if_due now b)"
  by (simp add: backoff_inv_def reset_if_due_retries)

lemma arm_timer_ok:
  assumes "no_overflow b" and "backoff_inv b"
  shows "arm_timer rnd b = Ok (b, Some (rnd (GetBaseTime b * 2 ^ unat (retries b))))"
proof -
  have r: "retries b \<le> maxRetries b" using assms(2) by (simp add: backoff_inv_def)
  then have "unat (retries b) \<le> unat (maxRetries b) + 2" by (simp add: word_le_nat_alt)
  then have "0 < GetBaseTime b * 2 ^ unat (retries b)" using base_mult_bound(1) [OF assms(1)] by blast
  then show ?thesis using wait_bound [OF assms(1) r] by (simp add: arm_timer_def int63n_def)
qed

text \<open>The retry counter after a granted timer.\<close>

definition next_retries :: "int \<Rightarrow> backoff_handler \<Rightarrow> nat" where
  "next_retries now b =
     min (unat (maxRetries b)) (Suc (if deadline_passed now b then 0 else unat (retries b)))"

lemma BackoffTimer_cases:
  assumes "no_overflow b" and "backoff_inv b"
  shows "BackoffTimer now rnd b =
    (if \<not> retryForever b \<and> maxRetries b \<le> (if deadline_passed now b then 0 else retries b)
     then Ok (reset_if_due now b, None)
     else Ok ((reset_if_due now b)\<lparr>retries := word_of_nat (next_retries now b)\<rparr>,
              Some (rnd (GetBaseTime b * 2 ^ next_retries now b))))"
proof -
  let ?b = "reset_if_due now b"
  have inv: "backoff_inv ?b" by (rule reset_if_due_inv [OF assms(2)])
  have no: "no_overflow ?b" using assms(1) by (simp add: no_overflow_def)
  have rr: "retries ?b = (if deadline_passed now b then 0 else retries b)"
    by (rule reset_if_due_retries)
  show ?thesis
  proof (cases "maxRetries ?b \<le> retries ?b")
    case True
    then have e: "retries ?b = maxRetries ?b" using inv by (simp add: backoff_inv_def)
    have n: "next_retries now b = unat (retries ?b)"
      using True e rr by (simp add: next_retries_def word_le_nat_alt split: if_splits)
    have "retries ?b = maxRetries b" using e by simp
    then have u: "?b\<lparr>retries := maxRetries b\<rparr> = ?b" by (cases ?b) simp
    show ?thesis
      using True n e rr by (simp add: BackoffTimer_def Let_def u arm_timer_ok [OF no inv])
  next
    case False
    let ?c = "?b\<lparr>retries := retries ?b + 1\<rparr>"
    have c: "backoff_inv ?c" using retries_suc(2) [OF False] by (simp add: backoff_inv_def)
    have "no_overflow ?c" using no by (simp add: no_overflow_def)
    note a = arm_timer_ok [OF this c, of rnd]
    have n: "unat (retries ?b + 1) = next_retries now b"
      using retries_suc [OF False] rr by (simp add: next_retries_def word_le_nat_alt split: if_splits)
    have w: "retries ?b + 1 = word_of_nat (next_retries now b)"
      by (simp add: n [symmetric])
    show ?thesis
      using False a rr n by (simp add: BackoffTimer_def Let_def w [symmetric])
  qed
qed

subsection \<open>Properties\<close>

text \<open>C30. One BackoffTimer call on a handler whose longest wait fits in 64 bits: it never panics
  and keeps the retry counter within maxRetries; it gives no timer exactly when the handler does
  not retry forever and the retries left after a possible grace-period reset are used up; and a
  timer it gives fires after a non-negative time below the base time doubled once per counted
  retry, hence below base * 2^maxRetries.\<close>

theorem backoff_timer_correct:
  assumes "no_overflow b" and "backoff_inv b" and "rnd_ok rnd"
  shows "\<exists>b' t. BackoffTimer now rnd b = Ok (b', t) \<and> backoff_inv b' \<and> no_overflow b'
     \<and> (t = None \<longleftrightarrow> \<not> retryForever b \<and> maxRetries b \<le> (if deadline_passed now b then 0 else retries b))
     \<and> (\<forall>d. t = Some d \<longrightarrow> unat (retries b') = next_retries now b \<and> 0 \<le> d
          \<and> d < GetBaseTime b * 2 ^ unat (retries b'))"
proof -
  let ?n = "next_retries now b"
  have nm: "?n \<le> unat (maxRetries b)" by (simp add: next_retries_def)
  have un: "unat (word_of_nat ?n :: u64) = ?n"
    using nm unsigned_less [of "maxRetries b", where ?'a = nat] by (simp add: unat_of_nat)
  have "0 < GetBaseTime b * 2 ^ ?n" using assms(1) by (simp add: no_overflow_def)
  then have r: "0 \<le> rnd (GetBaseTime b * 2 ^ ?n)" "rnd (GetBaseTime b * 2 ^ ?n) < GetBaseTime b * 2 ^ ?n"
    using assms(3) by (simp_all add: rnd_ok_def)
  have i: "backoff_inv ((reset_if_due now b)\<lparr>retries := word_of_nat ?n\<rparr>)"
    using nm un by (simp add: backoff_inv_def word_le_nat_alt)
  have o: "no_overflow (reset_if_due now b)" using assms(1) by (simp add: no_overflow_def)
  show ?thesis
  proof (cases "\<not> retryForever b \<and> maxRetries b \<le> (if deadline_passed now b then 0 else retries b)")
    case True
    then show ?thesis
      using BackoffTimer_cases [OF assms(1,2), of now rnd] o reset_if_due_inv [OF assms(2), of now]
      by (intro exI [of _ "reset_if_due now b"] exI [of _ None]) simp
  next
    case False
    have "no_overflow ((reset_if_due now b)\<lparr>retries := word_of_nat ?n\<rparr>)"
      using o by (simp add: no_overflow_def)
    then show ?thesis
      using BackoffTimer_cases [OF assms(1,2), of now rnd] i r un False
      by (intro exI [of _ "(reset_if_due now b)\<lparr>retries := word_of_nat ?n\<rparr>"]
          exI [of _ "Some (rnd (GetBaseTime b * 2 ^ ?n))"]) simp
  qed
qed

theorem backoff_timer_correct_witness:
  "\<exists>b' t. (BackoffTimer 0 (\<lambda>n. n - 1) (NewBackoff 5 0 True) :: (unit, _) outcome) = Ok (b', t) \<and> t \<noteq> None"
  using backoff_timer_correct [where ?'a = unit, of "NewBackoff 5 0 True" "\<lambda>n. n - 1" 0]
  by (fastforce simp: no_overflow_def backoff_inv_def rnd_ok_def NewBackoff_def GetBaseTime_def
      DefaultBaseTime_def second_ns_def)

text \<open>Without a grace period, the timers of a handler that does not retry forever run out.\<close>

fun timers_granted :: "nat \<Rightarrow> (int \<Rightarrow> int) \<Rightarrow> backoff_handler \<Rightarrow> nat" where
  "timers_granted 0 rnd b = 0"
| "timers_granted (Suc k) rnd b =
     (case (BackoffTimer 0 rnd b :: (unit, _) outcome) of
        Ok (b', Some d) \<Rightarrow> Suc (timers_granted k rnd b')
      | _ \<Rightarrow> 0)"

lemma timers_granted_eq:
  assumes "no_overflow b" "backoff_inv b" "resetDeadline b = None" "\<not> retryForever b"
  shows "timers_granted k rnd b = min k (unat (maxRetries b) - unat (retries b))"
  using assms
proof (induction k arbitrary: b)
  case 0
  then show ?case by simp
next
  case (Suc k)
  have nd: "\<not> deadline_passed 0 b" using Suc.prems by (simp add: deadline_passed_def)
  have rd: "reset_if_due 0 b = b" using nd by (simp add: reset_if_due_def)
  note c = BackoffTimer_cases [OF Suc.prems(1,2), where ?'a = unit, of 0 rnd]
  show ?case
  proof (cases "maxRetries b \<le> retries b")
    case True
    then show ?thesis using c nd rd Suc.prems(4) by (simp add: word_le_nat_alt)
  next
    case False
    let ?b = "b\<lparr>retries := word_of_nat (next_retries 0 b)\<rparr>"
    have n: "next_retries 0 b = Suc (unat (retries b))" "Suc (unat (retries b)) \<le> unat (maxRetries b)"
      using False nd by (auto simp: next_retries_def word_le_nat_alt)
    have u: "unat (retries ?b) = Suc (unat (retries b))"
      using n retries_suc(1) [OF False] by (simp add: add.commute)
    have "timers_granted k rnd ?b = min k (unat (maxRetries ?b) - unat (retries ?b))"
      using Suc.prems u n(2) by (intro Suc.IH) (auto simp: no_overflow_def backoff_inv_def word_le_nat_alt)
    then show ?thesis using c nd rd False Suc.prems(4) u n(2) by simp
  qed
qed

text \<open>C32. Bounded retries: a fresh handler that does not retry forever grants exactly maxRetries
  timers, however often it is asked, and refuses every later request.\<close>

theorem backoff_grants_max_retries:
  assumes "no_overflow (NewBackoff m base False)"
  shows "timers_granted k rnd (NewBackoff m base False) = min k (unat m)"
  using assms timers_granted_eq [of "NewBackoff m base False" k rnd]
  by (simp add: NewBackoff_def backoff_inv_def)

theorem backoff_grants_max_retries_witness:
  "timers_granted 9 (\<lambda>n. 0) (NewBackoff 3 0 False) = 3"
  using backoff_grants_max_retries [of 3 0 9 "\<lambda>n. 0"]
  by (simp add: no_overflow_def NewBackoff_def GetBaseTime_def DefaultBaseTime_def second_ns_def)

text \<open>GetMaxBackoffDuration against BackoffTimer: before the reset deadline and with a retry
  left, the reported maximum is exactly the strict bound of the wait BackoffTimer draws; once the
  deadline has passed it reports one second although the wait is drawn below twice the base time.\<close>

theorem max_backoff_duration_bound:
  assumes "no_overflow b" and "backoff_inv b" and "retries b < maxRetries b"
  shows "if deadline_passed now b
    then GetMaxBackoffDuration False now b = (second_ns, True)
       \<and> BackoffTimer now rnd b
         = Ok (b\<lparr>resetDeadline := None, retries := 1\<rparr>, Some (rnd (GetBaseTime b * 2)))
    else GetMaxBackoffDuration False now b = (GetBaseTime b * 2 ^ next_retries now b, True)
       \<and> BackoffTimer now rnd b
         = Ok (b\<lparr>retries := retries b + 1\<rparr>, Some (rnd (GetBaseTime b * 2 ^ next_retries now b)))"
proof -
  have lt: "\<not> maxRetries b \<le> retries b" using assms(3) by simp
  note s = retries_suc [OF lt]
  have l: "unat (retries b) < unat (maxRetries b)" using assms(3) by (simp add: word_less_nat_alt)
  show ?thesis
  proof (cases "deadline_passed now b")
    case False
    have sb: "shl64 (to_int64 (GetBaseTime b * 1)) (retries b + 1)
        = GetBaseTime b * 2 ^ Suc (unat (retries b))"
      using shl_bound [OF assms(1), of "retries b + 1" 0] s(1) l by simp
    have n: "next_retries now b = Suc (unat (retries b))"
      using False l by (simp add: next_retries_def)
    then have w: "word_of_nat (next_retries now b) = retries b + 1"
      by (simp add: s(1) [symmetric])
    show ?thesis
      using BackoffTimer_cases [OF assms(1,2), of now rnd] False lt sb
      by (simp add: GetMaxBackoffDuration_def reset_if_due_def w n [symmetric] del: power_Suc)
  next
    case True
    have "next_retries now b = 1" using True l by (simp add: next_retries_def)
    moreover have "\<not> maxRetries b \<le> 0" using l by (auto simp: word_le_nat_alt)
    ultimately show ?thesis
      using BackoffTimer_cases [OF assms(1,2), of now rnd] True
      by (simp add: GetMaxBackoffDuration_def reset_if_due_def)
  qed
qed

theorem max_backoff_duration_bound_witness:
  "fst (GetMaxBackoffDuration False 1 ((NewBackoff 5 0 False)\<lparr>resetDeadline := Some 0\<rparr>)) = 1000000000
   \<and> (BackoffTimer 1 (\<lambda>n. n - 1) ((NewBackoff 5 0 False)\<lparr>resetDeadline := Some 0\<rparr>) :: (unit, _) outcome)
     = Ok ((NewBackoff 5 0 False)\<lparr>retries := 1\<rparr>, Some 1999999999)"
  using max_backoff_duration_bound [where ?'a = unit,
      of "(NewBackoff 5 0 False)\<lparr>resetDeadline := Some 0\<rparr>" 1 "\<lambda>n. n - 1"]
  by (simp add: no_overflow_def backoff_inv_def NewBackoff_def GetBaseTime_def DefaultBaseTime_def
      second_ns_def deadline_passed_def)

end
