(* ===== verification/Control_Stream.thy ===== *)
theory Control_Stream
  imports Conn_Tracker Backoff
begin

text \<open>
  One edge connection up to the supervisor: the error values of \<^verbatim>\<open>connection/errors.go\<close>, the fuse of
  \<^verbatim>\<open>supervisor/fuse.go\<close>, the protocol fallback that wraps the backoff handler
  (\<^verbatim>\<open>supervisor/tunnel.go\<close>), the control stream of \<^verbatim>\<open>connection/control.go\<close>, and what
  \<^verbatim>\<open>HTTP2Connection.Serve\<close> and \<^verbatim>\<open>quicConnection.Serve\<close> return.  What the registration RPCs and the
  network return are arguments.
\<close>

subsection \<open>Errors\<close>

text \<open>
  The dynamic types the supervisor distinguishes.  \<open>WrappedError\<close> is \<^verbatim>\<open>errors.Wrap\<close> and
  \<^verbatim>\<open>fmt.Errorf\<close> with a trailing \<^verbatim>\<open>%w\<close>; errors of other packages carry their message.
\<close>

datatype conn_error =
    DupConnRegisterTunnelError
  | ServerRegisterTunnelError (reg_Cause: conn_error) (reg_Permanent: bool)
  | RetryableError conn_error duration
  | EdgeQuicDialError conn_error
  | DialError conn_error
  | NoAddressesLeft
  | ReconnectSignal duration
  | ControlStreamError
  | StreamListenerError
  | DatagramManagerError
  | EdgeConnectionClosed
  | QuicIdleTimeoutError string
  | QuicApplicationError string
  | QuicTransportError string
  | ContextCanceled
  | ContextDeadlineExceeded
  | UnrecoverableError conn_error
  | WrappedError string conn_error
  | OtherError string

fun err_message :: "conn_error \<Rightarrow> string" where
  "err_message DupConnRegisterTunnelError = ''already connected to this server, trying another address''"
| "err_message (ServerRegisterTunnelError c p) = err_message c"
| "err_message (RetryableError c d) = err_message c"
| "err_message (EdgeQuicDialError c) = ''failed to dial to edge with quic: '' @ err_message c"
| "err_message (DialError c) = err_message c"
| "err_message NoAddressesLeft = ''there are no free edge addresses left to resolve to''"
| "err_message (ReconnectSignal d) = ''reconnect signal''"
| "err_message ControlStreamError = ''control stream encountered a failure while serving''"
| "err_message StreamListenerError = ''accept stream listener encountered a failure while serving''"
| "err_message DatagramManagerError = ''datagram manager encountered a failure while serving''"
| "err_message EdgeConnectionClosed = ''connection with edge closed''"
| "err_message (QuicIdleTimeoutError m) = m"
| "err_message (QuicApplicationError m) = m"
| "err_message (QuicTransportError m) = m"
| "err_message ContextCanceled = ''context canceled''"
| "err_message ContextDeadlineExceeded = ''context deadline exceeded''"
| "err_message (UnrecoverableError c) = err_message c"
| "err_message (WrappedError m c) = m @ '': '' @ err_message c"
| "err_message (OtherError m) = m"

text \<open>The chain \<^verbatim>\<open>errors.As\<close> searches: the error, then what its \<^verbatim>\<open>Unwrap\<close> method gives.\<close>

fun unwrap_chain :: "conn_error \<Rightarrow> conn_error list" where
  "unwrap_chain (RetryableError c d) = RetryableError c d # unwrap_chain c"
| "unwrap_chain (EdgeQuicDialError c) = EdgeQuicDialError c # unwrap_chain c"
| "unwrap_chain (WrappedError m c) = WrappedError m c # unwrap_chain c"
| "unwrap_chain e = [e]"

fun serverRegistrationErrorFromRPC :: "conn_error \<Rightarrow> conn_error" where
  "serverRegistrationErrorFromRPC (RetryableError c d) = ServerRegisterTunnelError c False"
| "serverRegistrationErrorFromRPC e = ServerRegisterTunnelError e True"

definition DuplicateConnectionError :: string where
  "DuplicateConnectionError = ''EDUPCONN''"

subsection \<open>The fuse\<close>

text \<open>0 is unset, 1 set to true, 2 set to false.  \<open>Await\<close> blocks (\<open>None\<close>) while the fuse is unset.\<close>

type_synonym booleanFuse = int

definition newBooleanFuse :: booleanFuse where
  "newBooleanFuse = 0"

definition fuse_Value :: "booleanFuse \<Rightarrow> bool" where
  "fuse_Value f = (f = 1)"

definition Fuse :: "bool \<Rightarrow> booleanFuse \<Rightarrow> booleanFuse" where
  "Fuse result f =
     (let newValue = (if result then 1 else 2)
      in if f = 0 then newValue else f)"

definition Await :: "booleanFuse \<Rightarrow> bool option" where
  "Await f = (if f = 0 then None else Some (f = 1))"

lemma fuse_first_wins: "f = 0 \<or> f = 1 \<or> f = 2 \<Longrightarrow> Await (fold Fuse (r # rs) f) = (case Await f of None \<Rightarrow> Some r | Some b \<Rightarrow> Some b)"
proof -
  have stays: "fold Fuse rs f = f" if "f \<noteq> 0" for f and rs :: "bool list"
    using that by (induction rs) (auto simp: Fuse_def)
  assume "f = 0 \<or> f = 1 \<or> f = 2"
  moreover have "Fuse r f \<noteq> 0" by (auto simp: Fuse_def Let_def)
  ultimately show ?thesis
    by (auto simp: stays Await_def Fuse_def Let_def)
qed

subsection \<open>The protocol fallback\<close>

record protocolFallback =
  pf_backoff :: backoff_handler
  pf_protocol :: Protocol
  inFallback :: bool

definition pf_reset :: "int \<Rightarrow> protocolFallback \<Rightarrow> protocolFallback" where
  "pf_reset now pf = pf\<lparr>pf_backoff := ResetNow now (pf_backoff pf), inFallback := False\<rparr>"

definition pf_fallback :: "int \<Rightarrow> Protocol \<Rightarrow> protocolFallback \<Rightarrow> protocolFallback" where
  "pf_fallback now p pf =
     pf\<lparr>pf_backoff := ResetNow now (pf_backoff pf), pf_protocol := p, inFallback := True\<rparr>"

record connectedFuse =
  cf_fuse :: booleanFuse
  cf_backoff :: protocolFallback

definition cf_Connected :: "int \<Rightarrow> connectedFuse \<Rightarrow> connectedFuse" where
  "cf_Connected now cf = cf\<lparr>cf_fuse := Fuse True (cf_fuse cf), cf_backoff := pf_reset now (cf_backoff cf)\<rparr>"

definition cf_IsConnected :: "connectedFuse \<Rightarrow> bool" where
  "cf_IsConnected cf = fuse_Value (cf_fuse cf)"

subsection \<open>The control stream\<close>

record controlStream =
  cs_observer :: observer
  cs_connectedFuse :: connectedFuse
  cs_connIndex :: byte
  cs_edgeAddress :: "byte list"
  cs_protocol :: Protocol
  stoppedGracefully :: bool

definition NewControlStream :: "observer \<Rightarrow> connectedFuse \<Rightarrow> byte \<Rightarrow> byte list \<Rightarrow> Protocol \<Rightarrow> controlStream" where
  "NewControlStream obs cf i addr p =
     \<lparr>cs_observer = obs, cs_connectedFuse = cf, cs_connIndex = i, cs_edgeAddress = addr,
      cs_protocol = p, stoppedGracefully = False\<rparr>"

definition IsStopped :: "controlStream \<Rightarrow> bool" where
  "IsStopped c = stoppedGracefully c"

record ConnectionDetails =
  cd_UUID :: "byte list"
  cd_Location :: string
  TunnelIsRemotelyManaged :: bool

text \<open>
  The calls on the registration client, in order.  What they returned, and which case of the
  \<^verbatim>\<open>select\<close> in \<^verbatim>\<open>waitForUnregister\<close> is taken, is in \<open>control_inputs\<close>.
\<close>

datatype rpc_call = RegisterConnection | SendLocalConfiguration "byte list" | GracefulShutdown | CloseClient

datatype wait_choice = CtxDone conn_error | GracefulSignal

record control_inputs =
  in_register :: "conn_error + ConnectionDetails"
  in_config :: "string + byte list"
  in_wait :: wait_choice
  in_shutdown :: "conn_error option"
  in_now :: int

definition waitForUnregister ::
    "control_inputs \<Rightarrow> controlStream \<Rightarrow> conn_error option \<times> controlStream \<times> rpc_call list" where
  "waitForUnregister ins c =
     (let shutdownError = (case in_wait ins of CtxDone e \<Rightarrow> Some e | GracefulSignal \<Rightarrow> None);
          c1 = (case in_wait ins of CtxDone e \<Rightarrow> c | GracefulSignal \<Rightarrow> c\<lparr>stoppedGracefully := True\<rparr>);
          c2 = c1\<lparr>cs_observer := sendUnregisteringEvent (cs_connIndex c1) (cs_observer c1)\<rparr>
      in case in_shutdown ins of
           Some e \<Rightarrow> (Some (WrappedError ''Error shutting down control stream'' e), c2, [GracefulShutdown, CloseClient])
         | None \<Rightarrow> (shutdownError, c2, [GracefulShutdown, CloseClient]))"

definition ServeControlStream ::
    "control_inputs \<Rightarrow> controlStream \<Rightarrow> conn_error option \<times> controlStream \<times> rpc_call list" where
  "ServeControlStream ins c =
     (case in_register ins of
        Inl e \<Rightarrow>
          (if err_message e = DuplicateConnectionError
           then (Some DupConnRegisterTunnelError, c, [RegisterConnection, CloseClient])
           else (Some (serverRegistrationErrorFromRPC e), c, [RegisterConnection, CloseClient]))
      | Inr details \<Rightarrow>
          let c1 = c\<lparr>cs_observer := sendConnectedEvent (cs_connIndex c) (cs_protocol c) (cd_Location details)
                                       (cs_edgeAddress c) (cs_observer c)\<rparr>;
              c2 = c1\<lparr>cs_connectedFuse := cf_Connected (in_now ins) (cs_connectedFuse c1)\<rparr>;
              sent = (if cs_connIndex c = 0 \<and> \<not> TunnelIsRemotelyManaged details
                      then (case in_config ins of Inr cfg \<Rightarrow> [SendLocalConfiguration cfg] | Inl _ \<Rightarrow> [])
                      else []);
              (err, c3, calls) = waitForUnregister ins c2
          in (err, c3, RegisterConnection # sent @ calls))"

subsection \<open>Serving a connection\<close>

text \<open>
  \<^verbatim>\<open>errgroup.Wait\<close> returns the first non-nil error in the order the routines end.  The three routines
  of a QUIC connection always end with an error of their own type, whatever went wrong.
\<close>

fun errgroup_Wait :: "conn_error option list \<Rightarrow> conn_error option" where
  "errgroup_Wait [] = None"
| "errgroup_Wait (None # es) = errgroup_Wait es"
| "errgroup_Wait (Some e # es) = Some e"

datatype quic_routine = ControlRoutine "conn_error option" | AcceptRoutine "conn_error option" | DatagramRoutine "conn_error option"

fun quic_routine_error :: "quic_routine \<Rightarrow> conn_error option" where
  "quic_routine_error (ControlRoutine err) = Some ControlStreamError"
| "quic_routine_error (AcceptRoutine err) = Some StreamListenerError"
| "quic_routine_error (DatagramRoutine err) = Some DatagramManagerError"

definition quic_Serve :: "conn_error option \<Rightarrow> quic_routine list \<Rightarrow> conn_error option" where
  "quic_Serve open_err ended =
     (case open_err of
        Some e \<Rightarrow> Some (WrappedError ''failed to open a registration control stream'' e)
      | None \<Rightarrow> errgroup_Wait (map quic_routine_error ended))"

definition http2_Serve :: "controlStream \<Rightarrow> conn_error option \<Rightarrow> conn_error option" where
  "http2_Serve c controlStreamErr =
     (if IsStopped c then None
      else case controlStreamErr of
             Some e \<Rightarrow> Some e
           | None \<Rightarrow> Some EdgeConnectionClosed)"

subsection \<open>Properties\<close>

lemma fuse_Connected: "cf_fuse cf = 0 \<Longrightarrow> cf_IsConnected (cf_Connected now cf)"
  by (simp add: cf_Connected_def cf_IsConnected_def fuse_Value_def Fuse_def)

lemma last_wait_calls: "last (snd (snd (waitForUnregister ins c))) = CloseClient"
  by (simp add: waitForUnregister_def Let_def split: option.splits)

lemma tracked_after_session:
  assumes "EventType e1 = Connected" and "EventType e2 = Unregistering" and "ev_Index e1 = i" and "ev_Index e2 = i"
  shows "track (es @ [e1, e2]) ct i
     = Some \<lparr>IsConnected = False, ci_Protocol = ev_Protocol e1, ci_EdgeAddress = ev_EdgeAddress e1\<rparr>"
  using assms by (simp add: track_append OnTunnelEvent_def info_at_def)

lemma session_calls:
  assumes "sent = [] \<or> sent = [SendLocalConfiguration cfg]"
    and "calls = RegisterConnection # sent @ [GracefulShutdown, CloseClient]"
  shows "hd calls = RegisterConnection \<and> last calls = CloseClient \<and> length (filter (\<lambda>r. r = CloseClient) calls) = 1
    \<and> GracefulShutdown \<in> set calls"
  using assms by auto

text \<open>
  A run of the control stream with room for two events in the observer's channel.  The client is
  closed exactly once and last; the edge is asked to unregister exactly when the registration
  succeeded, and the local configuration is sent only for connection 0 of a tunnel that is not
  remotely managed.  A failed registration changes nothing.  A successful one fuses the connection,
  resets the backoff, and leaves the tracker with the connection's protocol but not connected; it
  ends without an error exactly for a graceful shutdown the edge acknowledged.
\<close>

theorem control_stream_lifecycle:
  assumes "ServeControlStream ins c = (err, c', calls)"
    and "length (cs_observer c) + 2 \<le> observerChannelBufferSize"
    and "cf_fuse (cs_connectedFuse c) = 0" and "\<not> IsStopped c"
  shows "hd calls = RegisterConnection \<and> last calls = CloseClient \<and> length (filter (\<lambda>r. r = CloseClient) calls) = 1
    \<and> (GracefulShutdown \<in> set calls \<longleftrightarrow> (\<exists>d. in_register ins = Inr d))
    \<and> (\<forall>cfg. SendLocalConfiguration cfg \<in> set calls \<longleftrightarrow> cs_connIndex c = 0 \<and> in_config ins = Inr cfg
         \<and> (\<exists>d. in_register ins = Inr d \<and> \<not> TunnelIsRemotelyManaged d))
    \<and> (case in_register ins of
         Inl e \<Rightarrow> c' = c \<and> err \<noteq> None
       | Inr d \<Rightarrow> cf_IsConnected (cs_connectedFuse c')
           \<and> retries (pf_backoff (cf_backoff (cs_connectedFuse c'))) = 0
           \<and> IsStopped c' = (in_wait ins = GracefulSignal)
           \<and> track (cs_observer c') ct (cs_connIndex c)
               = Some \<lparr>IsConnected = False, ci_Protocol = cs_protocol c, ci_EdgeAddress = cs_edgeAddress c\<rparr>
           \<and> (err = None \<longleftrightarrow> in_wait ins = GracefulSignal \<and> in_shutdown ins = None))"
proof (cases "in_register ins")
  case (Inl e)
  with assms show ?thesis
    by (auto simp: ServeControlStream_def split: if_splits)
next
  case (Inr d)
  let ?e1 = "(zero_event (cs_connIndex c) Connected)\<lparr>ev_Protocol := cs_protocol c, ev_Location := cd_Location d, ev_EdgeAddress := cs_edgeAddress c\<rparr>"
  let ?e2 = "zero_event (cs_connIndex c) Unregistering"
  have obs: "cs_observer c' = cs_observer c @ [?e1, ?e2]"
    using assms(1,2) Inr
    by (auto simp: ServeControlStream_def waitForUnregister_def Let_def sendConnectedEvent_def
        sendUnregisteringEvent_def sendEvent_def split: option.splits wait_choice.splits)
  have track: "track (cs_observer c') ct (cs_connIndex c)
     = Some \<lparr>IsConnected = False, ci_Protocol = cs_protocol c, ci_EdgeAddress = cs_edgeAddress c\<rparr>"
    unfolding obs by (subst tracked_after_session) (simp_all add: zero_event_def)
  define sent where "sent = (if cs_connIndex c = 0 \<and> \<not> TunnelIsRemotelyManaged d
      then (case in_config ins of Inr cfg \<Rightarrow> [SendLocalConfiguration cfg] | Inl _ \<Rightarrow> []) else [])"
  have calls: "calls = RegisterConnection # sent @ [GracefulShutdown, CloseClient]"
    using assms(1) Inr
    by (auto simp: ServeControlStream_def waitForUnregister_def Let_def sent_def split: option.splits)
  have sent: "sent = [] \<or> (\<exists>cfg. sent = [SendLocalConfiguration cfg])"
    by (cases "in_config ins") (simp_all add: sent_def)
  have sent_iff: "SendLocalConfiguration cfg \<in> set sent \<longleftrightarrow> cs_connIndex c = 0 \<and> in_config ins = Inr cfg
         \<and> \<not> TunnelIsRemotelyManaged d" for cfg
  proof (cases "cs_connIndex c = 0 \<and> \<not> TunnelIsRemotelyManaged d")
    case True
    then have "sent = (case in_config ins of Inr cfg \<Rightarrow> [SendLocalConfiguration cfg] | Inl _ \<Rightarrow> [])"
      unfolding sent_def by (rule if_P)
    with True show ?thesis by (cases "in_config ins") auto
  next
    case False
    then have "sent = []" unfolding sent_def by (rule if_not_P)
    with False show ?thesis by auto
  qed
  have fuse: "cs_connectedFuse c' = cf_Connected (in_now ins) (cs_connectedFuse c)"
    and stop: "IsStopped c' = (in_wait ins = GracefulSignal)"
    and err: "err = None \<longleftrightarrow> in_wait ins = GracefulSignal \<and> in_shutdown ins = None"
    using assms(1,4) Inr
    by (auto simp: ServeControlStream_def waitForUnregister_def Let_def IsStopped_def
        split: option.splits wait_choice.splits)
  have "retries (pf_backoff (cf_backoff (cs_connectedFuse c'))) = 0" "cf_IsConnected (cs_connectedFuse c')"
    unfolding fuse by (simp add: cf_Connected_def pf_reset_def ResetNow_def, rule fuse_Connected [OF assms(3)])
  moreover have "hd calls = RegisterConnection \<and> last calls = CloseClient \<and> length (filter (\<lambda>r. r = CloseClient) calls) = 1
      \<and> GracefulShutdown \<in> set calls"
    using sent session_calls [OF _ calls] by blast
  moreover have "SendLocalConfiguration cfg \<in> set calls \<longleftrightarrow> cs_connIndex c = 0 \<and> in_config ins = Inr cfg
         \<and> \<not> TunnelIsRemotelyManaged d" for cfg
    unfolding calls using sent_iff [of cfg] by simp
  ultimately show ?thesis
    using Inr track stop err by simp
qed

definition sample_control :: controlStream where
  "sample_control = NewControlStream [] \<lparr>cf_fuse = newBooleanFuse,
     cf_backoff = \<lparr>pf_backoff = NewBackoff 5 0 True, pf_protocol = QUIC, inFallback = False\<rparr>\<rparr> 0 [10, 0, 0, 1] QUIC"

definition sample_inputs :: control_inputs where
  "sample_inputs = \<lparr>in_register = Inr \<lparr>cd_UUID = [], cd_Location = ''LIS'', TunnelIsRemotelyManaged = False\<rparr>,
     in_config = Inr [123, 125], in_wait = GracefulSignal, in_shutdown = None, in_now = 7\<rparr>"

theorem control_stream_lifecycle_witness:
  "\<exists>c' calls. ServeControlStream sample_inputs sample_control = (None, c', calls)
     \<and> SendLocalConfiguration [123, 125] \<in> set calls \<and> IsStopped c'"
proof -
  obtain err c' calls where run: "ServeControlStream sample_inputs sample_control = (err, c', calls)"
    by (cases "ServeControlStream sample_inputs sample_control") auto
  have "length (cs_observer sample_control) + 2 \<le> observerChannelBufferSize"
    "cf_fuse (cs_connectedFuse sample_control) = 0" "\<not> IsStopped sample_control"
    by (simp_all add: sample_control_def NewControlStream_def observerChannelBufferSize_def newBooleanFuse_def IsStopped_def)
  from control_stream_lifecycle [OF run this, of NewConnTracker] run show ?thesis
    by (auto simp: sample_inputs_def sample_control_def NewControlStream_def)
qed

end
