(* ===== verification/Edge_Addrs.thy ===== *)
theory Edge_Addrs
  imports Cfd_Prelude
begin

text \<open>
  \<^verbatim>\<open>edgediscovery/allregions/{usedby,region,regions,address}.go\<close> and \<^verbatim>\<open>edgediscovery/edgediscovery.go\<close>: the
  pool of edge addresses handed out to connections.  An address set is a Go map keyed by pointer,
  here a list of pairs with distinct addresses; where the code ranges over a map, the iteration
  order \<open>it\<close> (any permutation, \<open>iter_ok\<close>) is an argument, and so are the coin of \<^verbatim>\<open>rand.Intn(2)\<close>
  and the clock.  The pool \<^verbatim>\<open>active\<close> of a region is a second reference to one of its two sets, so
  it is the flag \<open>rg_primaryIsActive\<close>.
\<close>

subsection \<open>Address sets\<close>

datatype EdgeIPVersion = V4 | V6

datatype ConfigIPVersion = Auto | IPv4Only | IPv6Only

datatype EdgeAddr = EdgeAddr (ea_ptr: nat) (IPVersion: EdgeIPVersion)

datatype UsedBy = InUse int | Unused

type_synonym AddrSet = "(EdgeAddr \<times> UsedBy) list"
type_synonym iter = "AddrSet \<Rightarrow> AddrSet"

definition iter_ok :: "iter \<Rightarrow> bool" where
  "iter_ok it = (\<forall>s. set (it s) = set s)"

definition AddrSet_AddrUsedBy :: "iter \<Rightarrow> int \<Rightarrow> AddrSet \<Rightarrow> EdgeAddr option" where
  "AddrSet_AddrUsedBy it c s = map_option fst (List.find (\<lambda>(a, u). u = InUse c) (it s))"

definition AddrSet_AvailableAddrs :: "AddrSet \<Rightarrow> nat" where
  "AddrSet_AvailableAddrs s = length (filter (\<lambda>(a, u). u = Unused) s)"

definition GetUnusedIP :: "iter \<Rightarrow> EdgeAddr option \<Rightarrow> AddrSet \<Rightarrow> EdgeAddr option" where
  "GetUnusedIP it excluding s =
     map_option fst (List.find (\<lambda>(a, u). u = Unused \<and> Some a \<noteq> excluding) (it s))"

text \<open>The assignment \<^verbatim>\<open>a[addr] = u\<close>.\<close>

definition set_used :: "EdgeAddr \<Rightarrow> UsedBy \<Rightarrow> AddrSet \<Rightarrow> AddrSet" where
  "set_used a u s =
     (if a \<in> set (map fst s) then map (\<lambda>(b, v). if b = a then (b, u) else (b, v)) s else s @ [(a, u)])"

definition Use :: "EdgeAddr option \<Rightarrow> int \<Rightarrow> AddrSet \<Rightarrow> AddrSet" where
  "Use addr c s = (case addr of None \<Rightarrow> s | Some a \<Rightarrow> set_used a (InUse c) s)"

definition AddrSet_GetAnyAddress :: "iter \<Rightarrow> AddrSet \<Rightarrow> EdgeAddr option" where
  "AddrSet_GetAnyAddress it s = (case it s of [] \<Rightarrow> None | (a, u) # _ \<Rightarrow> Some a)"

definition AddrSet_GiveBack :: "EdgeAddr \<Rightarrow> AddrSet \<Rightarrow> bool \<times> AddrSet" where
  "AddrSet_GiveBack a s = (if a \<in> set (map fst s) then (True, set_used a Unused s) else (False, s))"

subsection \<open>Regions\<close>

record Region =
  rg_primaryIsActive :: bool
  rg_primary :: AddrSet
  rg_secondary :: AddrSet
  rg_primaryTimeout :: int

definition timeoutDuration :: duration where
  "timeoutDuration = 10 * 60 * second_ns"

definition rg_active :: "Region \<Rightarrow> AddrSet" where
  "rg_active r = (if rg_primaryIsActive r then rg_primary r else rg_secondary r)"

definition set_active :: "AddrSet \<Rightarrow> Region \<Rightarrow> Region" where
  "set_active s r = (if rg_primaryIsActive r then r\<lparr>rg_primary := s\<rparr> else r\<lparr>rg_secondary := s\<rparr>)"

definition NewRegion :: "EdgeAddr list \<Rightarrow> ConfigIPVersion \<Rightarrow> Region" where
  "NewRegion addrs override =
     (let connFor = (\<lambda>v. map (\<lambda>a. (a, Unused)) (filter (\<lambda>a. IPVersion a = v) (remdups addrs)));
          pref = (case addrs of [] \<Rightarrow> V6 | a # _ \<Rightarrow> IPVersion a);
          other = (case pref of V4 \<Rightarrow> V6 | V6 \<Rightarrow> V4)
      in case override of
           IPv4Only \<Rightarrow> \<lparr>rg_primaryIsActive = True, rg_primary = connFor V4, rg_secondary = [], rg_primaryTimeout = 0\<rparr>
         | IPv6Only \<Rightarrow> \<lparr>rg_primaryIsActive = True, rg_primary = connFor V6, rg_secondary = [], rg_primaryTimeout = 0\<rparr>
         | Auto \<Rightarrow> \<lparr>rg_primaryIsActive = True, rg_primary = connFor pref, rg_secondary = connFor other, rg_primaryTimeout = 0\<rparr>)"

definition Region_AddrUsedBy :: "iter \<Rightarrow> int \<Rightarrow> Region \<Rightarrow> EdgeAddr option" where
  "Region_AddrUsedBy it c r =
     (case AddrSet_AddrUsedBy it c (rg_primary r) of
        Some a \<Rightarrow> Some a
      | None \<Rightarrow> AddrSet_AddrUsedBy it c (rg_secondary r))"

definition Region_AvailableAddrs :: "Region \<Rightarrow> nat" where
  "Region_AvailableAddrs r = AddrSet_AvailableAddrs (rg_active r)"

definition AssignAnyAddress :: "iter \<Rightarrow> EdgeAddr option \<Rightarrow> int \<Rightarrow> Region \<Rightarrow> EdgeAddr option \<times> Region" where
  "AssignAnyAddress it excluding c r =
     (case GetUnusedIP it excluding (rg_active r) of
        Some a \<Rightarrow> (Some a, set_active (Use (Some a) c (rg_active r)) r)
      | None \<Rightarrow> (None, r))"

definition Region_GetAnyAddress :: "iter \<Rightarrow> Region \<Rightarrow> EdgeAddr option" where
  "Region_GetAnyAddress it r = AddrSet_GetAnyAddress it (rg_active r)"

definition activatePrimary :: "int \<Rightarrow> Region \<Rightarrow> Region" where
  "activatePrimary now r = r\<lparr>rg_primaryIsActive := True, rg_primaryTimeout := now\<rparr>"

text \<open>The switch of the active pool on a connectivity error with an address of this region.\<close>

definition switch_pool :: "int \<Rightarrow> EdgeAddr \<Rightarrow> Region \<Rightarrow> Region" where
  "switch_pool now a r =
     (if rg_primaryIsActive r \<and> IPVersion a = V6 \<and> rg_secondary r \<noteq> []
      then r\<lparr>rg_primaryIsActive := False, rg_primaryTimeout := now + timeoutDuration\<rparr>
      else if rg_primaryIsActive r then r
      else if IPVersion a = V4 then activatePrimary now r
      else if rg_primaryTimeout r < now then activatePrimary now r
      else r)"

definition Region_GiveBack :: "int \<Rightarrow> bool \<Rightarrow> EdgeAddr \<Rightarrow> Region \<Rightarrow> bool \<times> Region" where
  "Region_GiveBack now hasConnectivityError a r =
     (let (ok, p) = AddrSet_GiveBack a (rg_primary r);
          (ok2, s) = (if ok then (True, rg_secondary r) else AddrSet_GiveBack a (rg_secondary r));
          r1 = r\<lparr>rg_primary := p, rg_secondary := s\<rparr>
      in if \<not> ok2 then (False, r)
         else (True, if \<not> hasConnectivityError then r1 else switch_pool now a r1))"

record Regions =
  region1 :: Region
  region2 :: Region

definition NewNoResolve :: "EdgeAddr list \<Rightarrow> Regions" where
  "NewNoResolve addrs =
     \<lparr>region1 = NewRegion (map snd (filter (\<lambda>(i, a). even i) (enumerate 0 addrs))) Auto,
      region2 = NewRegion (map snd (filter (\<lambda>(i, a). odd i) (enumerate 0 addrs))) Auto\<rparr>"

text \<open>The regions found by the discovery: fewer than two is an error.\<close>

definition allregions_ResolveEdge :: "EdgeAddr list list \<Rightarrow> ConfigIPVersion \<Rightarrow> Regions option" where
  "allregions_ResolveEdge edgeAddrs override =
     (case edgeAddrs of
        a # b # _ \<Rightarrow> Some \<lparr>region1 = NewRegion a override, region2 = NewRegion b override\<rparr>
      | _ \<Rightarrow> None)"

definition Regions_GetAnyAddress :: "iter \<Rightarrow> Regions \<Rightarrow> EdgeAddr option" where
  "Regions_GetAnyAddress it rs =
     (case Region_GetAnyAddress it (region1 rs) of
        Some a \<Rightarrow> Some a
      | None \<Rightarrow> Region_GetAnyAddress it (region2 rs))"

definition Regions_AddrUsedBy :: "iter \<Rightarrow> int \<Rightarrow> Regions \<Rightarrow> EdgeAddr option" where
  "Regions_AddrUsedBy it c rs =
     (case Region_AddrUsedBy it c (region1 rs) of
        Some a \<Rightarrow> Some a
      | None \<Rightarrow> Region_AddrUsedBy it c (region2 rs))"

definition getAddrs ::
    "iter \<Rightarrow> EdgeAddr option \<Rightarrow> int \<Rightarrow> Region \<Rightarrow> Region \<Rightarrow> EdgeAddr option \<times> Region \<times> Region" where
  "getAddrs it excluding c first second =
     (case AssignAnyAddress it excluding c first of
        (Some a, first') \<Rightarrow> (Some a, first', second)
      | (None, _) \<Rightarrow>
          (case AssignAnyAddress it excluding c second of
             (Some a, second') \<Rightarrow> (Some a, first, second')
           | (None, _) \<Rightarrow> (None, first, second)))"

definition GetUnusedAddr ::
    "iter \<Rightarrow> bool \<Rightarrow> EdgeAddr option \<Rightarrow> int \<Rightarrow> Regions \<Rightarrow> EdgeAddr option \<times> Regions" where
  "GetUnusedAddr it coin excluding c rs =
     (let n1 = Region_AvailableAddrs (region1 rs); n2 = Region_AvailableAddrs (region2 rs);
          one_first = (if n1 = n2 then coin else n1 > n2)
      in if one_first
         then (let (a, r1, r2) = getAddrs it excluding c (region1 rs) (region2 rs)
               in (a, \<lparr>region1 = r1, region2 = r2\<rparr>))
         else (let (a, r2, r1) = getAddrs it excluding c (region2 rs) (region1 rs)
               in (a, \<lparr>region1 = r1, region2 = r2\<rparr>)))"

definition Regions_AvailableAddrs :: "Regions \<Rightarrow> nat" where
  "Regions_AvailableAddrs rs = Region_AvailableAddrs (region1 rs) + Region_AvailableAddrs (region2 rs)"

definition Regions_GiveBack :: "int \<Rightarrow> bool \<Rightarrow> EdgeAddr \<Rightarrow> Regions \<Rightarrow> bool \<times> Regions" where
  "Regions_GiveBack now err a rs =
     (let (found, r1) = Region_GiveBack now err a (region1 rs)
      in if found then (True, rs\<lparr>region1 := r1\<rparr>)
         else let (found2, r2) = Region_GiveBack now err a (region2 rs)
              in (found2, rs\<lparr>region2 := r2\<rparr>))"

definition srvService :: string where
  "srvService = ''v2-origintunneld''"

definition RegionalServiceName :: "string \<Rightarrow> string" where
  "RegionalServiceName region = (if region \<noteq> [] then region @ ''-'' @ srvService else srvService)"

subsection \<open>The edge\<close>

datatype edge_err = ErrNoAddressesLeft

definition GetAddrForRPC :: "iter \<Rightarrow> Regions \<Rightarrow> edge_err + EdgeAddr" where
  "GetAddrForRPC it rs =
     (case Regions_GetAnyAddress it rs of None \<Rightarrow> Inl ErrNoAddressesLeft | Some a \<Rightarrow> Inr a)"

definition GetAddr :: "iter \<Rightarrow> bool \<Rightarrow> int \<Rightarrow> Regions \<Rightarrow> (edge_err + EdgeAddr) \<times> Regions" where
  "GetAddr it coin c rs =
     (case Regions_AddrUsedBy it c rs of
        Some a \<Rightarrow> (Inr a, rs)
      | None \<Rightarrow>
          (case GetUnusedAddr it coin None c rs of
             (None, rs') \<Rightarrow> (Inl ErrNoAddressesLeft, rs')
           | (Some a, rs') \<Rightarrow> (Inr a, rs')))"

definition GetDifferentAddr ::
    "iter \<Rightarrow> bool \<Rightarrow> int \<Rightarrow> int \<Rightarrow> bool \<Rightarrow> Regions \<Rightarrow> (edge_err + EdgeAddr) \<times> Regions" where
  "GetDifferentAddr it coin now c err rs =
     (let oldAddr = Regions_AddrUsedBy it c rs;
          rs1 = (case oldAddr of None \<Rightarrow> rs | Some a \<Rightarrow> snd (Regions_GiveBack now err a rs))
      in case GetUnusedAddr it coin oldAddr c rs1 of
           (None, rs') \<Rightarrow> (Inl ErrNoAddressesLeft, rs')
         | (Some a, rs') \<Rightarrow> (Inr a, rs'))"

definition Edge_GiveBack :: "int \<Rightarrow> bool \<Rightarrow> EdgeAddr \<Rightarrow> Regions \<Rightarrow> bool \<times> Regions" where
  "Edge_GiveBack now err a rs = Regions_GiveBack now err a rs"

subsection \<open>The contract of an address pool\<close>

text \<open>
  \<open>owner p a\<close> is \<open>None\<close> for an address outside the pool, and otherwise who uses it.  \<open>take_free\<close> and
  \<open>give\<close> depend on choices (\<open>ch_ok\<close> says which are possible).
\<close>

locale addr_pool =
  fixes owner :: "'p \<Rightarrow> 'a \<Rightarrow> UsedBy option"
    and take_free :: "'o \<Rightarrow> 'a option \<Rightarrow> int \<Rightarrow> 'p \<Rightarrow> 'a option \<times> 'p"
    and give :: "'g \<Rightarrow> 'a \<Rightarrow> 'p \<Rightarrow> bool \<times> 'p"
    and wf :: "'p \<Rightarrow> bool"
    and ch_ok :: "'o \<Rightarrow> bool"
  assumes take_Some: "\<lbrakk>wf p; ch_ok x; take_free x ex c p = (Some a, p')\<rbrakk> \<Longrightarrow>
      owner p a = Some Unused \<and> ex \<noteq> Some a \<and> owner p' = (owner p)(a := Some (InUse c)) \<and> wf p'"
    and take_None: "take_free x ex c p = (None, p') \<Longrightarrow> p' = p"
    and give_back: "\<lbrakk>wf p; give g a p = (ok, p')\<rbrakk> \<Longrightarrow>
      ok = (owner p a \<noteq> None) \<and> owner p' = (if ok then (owner p)(a := Some Unused) else owner p) \<and> wf p'"
begin

definition holds :: "'p \<Rightarrow> int \<Rightarrow> 'a \<Rightarrow> bool" where
  "holds p c a \<longleftrightarrow> owner p a = Some (InUse c)"

definition single :: "'p \<Rightarrow> bool" where
  "single p \<longleftrightarrow> (\<forall>c a b. holds p c a \<and> holds p c b \<longrightarrow> a = b)"

lemma take_holds:
  assumes "wf p" "ch_ok x" and "take_free x ex c p = (Some a, p')"
  shows "holds p' d b \<longleftrightarrow> (if b = a then d = c else holds p d b)"
  using take_Some [OF assms] by (auto simp: holds_def)

lemma give_holds:
  assumes "wf p" and "give g a p = (ok, p')"
  shows "holds p' d b \<longleftrightarrow> b \<noteq> a \<and> holds p d b"
  using give_back [OF assms] by (auto simp: holds_def split: if_splits)

lemma take_dom: "\<lbrakk>wf p; ch_ok x; take_free x ex c p = (r, p')\<rbrakk> \<Longrightarrow> dom (owner p') = dom (owner p)"
  using take_None [of x ex c p p'] take_Some [of p x ex c "the r" p'] by (cases r) (simp_all, blast)

lemma give_dom: "\<lbrakk>wf p; give g a p = (ok, p')\<rbrakk> \<Longrightarrow> dom (owner p') = dom (owner p)"
  using give_back [of p g a ok p'] by (auto split: if_splits)

lemma take_single:
  assumes "wf p" "ch_ok x" "single p" and "take_free x ex c p = (r, p')" and "\<And>a. \<not> holds p c a"
  shows "wf p' \<and> single p'"
proof (cases r)
  case None
  then show ?thesis using take_None assms by blast
next
  case (Some a)
  then have t: "take_free x ex c p = (Some a, p')" using assms(4) by simp
  show ?thesis
    using take_Some [OF assms(1,2) t] take_holds [OF assms(1,2) t] assms(3,5)
    by (auto simp: single_def split: if_splits)
qed

lemma give_single:
  assumes "wf p" "single p" and "give g a p = (ok, p')"
  shows "wf p' \<and> single p'"
  using give_back [OF assms(1,3)] give_holds [OF assms(1,3)] assms(2) by (auto simp: single_def)

end

subsection \<open>Address sets are a pool\<close>

definition set_take :: "iter \<Rightarrow> EdgeAddr option \<Rightarrow> int \<Rightarrow> AddrSet \<Rightarrow> EdgeAddr option \<times> AddrSet" where
  "set_take it ex c s = (let a = GetUnusedIP it ex s in (a, Use a c s))"

definition set_wf :: "AddrSet \<Rightarrow> bool" where
  "set_wf s = distinct (map fst s)"

lemma map_of_map_set:
  "map_of (map (\<lambda>(b, v). if b = a then (b, u) else (b, v)) s) x
    = (if x = a then map_option (\<lambda>_. u) (map_of s a) else map_of s x)"
  by (induction s) auto

lemma map_of_set_used: "map_of (set_used a u s) = (map_of s)(a := Some u)"
proof (cases "a \<in> fst ` set s")
  case True
  then have "map_of s a \<noteq> None" by (simp add: map_of_eq_None_iff)
  with True show ?thesis by (auto simp: set_used_def map_of_map_set fun_eq_iff)
next
  case False
  then have "map_of s a = None" by (simp add: map_of_eq_None_iff)
  with False show ?thesis by (auto simp: set_used_def fun_eq_iff map_add_def split: option.split)
qed

lemma map_fst_set_used: "a \<in> fst ` set s \<Longrightarrow> map fst (set_used a u s) = map fst s"
  by (auto simp: set_used_def)

lemma map_of_in_fst: "map_of s a = Some u \<Longrightarrow> a \<in> fst ` set s"
  by (force dest: map_of_SomeD)

lemma find_Some_in: "List.find P xs = Some x \<Longrightarrow> x \<in> set xs \<and> P x"
  by (auto simp: find_Some_iff)

lemma GetUnusedIP_Some:
  assumes "set_wf s" "iter_ok it" and "GetUnusedIP it ex s = Some a"
  shows "map_of s a = Some Unused \<and> ex \<noteq> Some a"
proof -
  obtain u where "List.find (\<lambda>(a, u). u = Unused \<and> Some a \<noteq> ex) (it s) = Some (a, u)"
    using assms(3) by (auto simp: GetUnusedIP_def)
  then have "(a, Unused) \<in> set s \<and> ex \<noteq> Some a"
    using find_Some_in assms(2) by (fastforce simp: iter_ok_def)
  then show ?thesis using assms(1) by (simp add: set_wf_def)
qed

lemma GetUnusedIP_None:
  assumes "iter_ok it"
  shows "GetUnusedIP it ex s = None \<longleftrightarrow> (\<forall>a. (a, Unused) \<in> set s \<longrightarrow> ex = Some a)"
proof -
  have "GetUnusedIP it ex s = None \<longleftrightarrow> (\<forall>x \<in> set (it s). \<not> (snd x = Unused \<and> Some (fst x) \<noteq> ex))"
    by (auto simp: GetUnusedIP_def find_None_iff split_beta)
  then show ?thesis using assms by (auto simp: iter_ok_def)
qed

lemma AddrUsedBy_Some:
  assumes "set_wf s" "iter_ok it" and "AddrSet_AddrUsedBy it c s = Some a"
  shows "map_of s a = Some (InUse c)"
proof -
  obtain u where "List.find (\<lambda>(a, u). u = InUse c) (it s) = Some (a, u)"
    using assms(3) by (auto simp: AddrSet_AddrUsedBy_def)
  then have "(a, InUse c) \<in> set s"
    using find_Some_in assms(2) by (fastforce simp: iter_ok_def)
  then show ?thesis using assms(1) by (simp add: set_wf_def)
qed

lemma AddrUsedBy_None:
  assumes "iter_ok it" and "AddrSet_AddrUsedBy it c s = None"
  shows "map_of s a \<noteq> Some (InUse c)"
proof -
  have "\<forall>x \<in> set (it s). snd x \<noteq> InUse c"
    using assms(2) by (auto simp: AddrSet_AddrUsedBy_def find_None_iff split_beta)
  then show ?thesis using assms(1) by (auto simp: iter_ok_def dest!: map_of_SomeD)
qed

lemma AddrSet_GiveBack_eq:
  assumes "AddrSet_GiveBack a s = (ok, s')"
  shows "ok = (map_of s a \<noteq> None) \<and> map_of s' = (if ok then (map_of s)(a := Some Unused) else map_of s)
    \<and> map fst s' = map fst s"
proof (cases "a \<in> fst ` set s")
  case True
  then have "map_of s a \<noteq> None" by (simp add: map_of_eq_None_iff)
  with True show ?thesis
    using assms map_fst_set_used [OF True] by (auto simp: AddrSet_GiveBack_def map_of_set_used)
next
  case False
  then have "map_of s a = None" by (simp add: map_of_eq_None_iff)
  with False show ?thesis using assms by (auto simp: AddrSet_GiveBack_def)
qed

interpretation ap: addr_pool map_of set_take "\<lambda>(u :: unit). AddrSet_GiveBack" set_wf iter_ok
proof
  fix s s' :: AddrSet and it ex c a
  assume w: "set_wf s" "iter_ok it" and t: "set_take it ex c s = (Some a, s')"
  then have g: "GetUnusedIP it ex s = Some a" and s': "s' = set_used a (InUse c) s"
    by (auto simp: set_take_def Use_def Let_def)
  have o: "map_of s a = Some Unused \<and> ex \<noteq> Some a" by (rule GetUnusedIP_Some [OF w g])
  then have "a \<in> fst ` set s" by (blast intro: map_of_in_fst)
  then show "map_of s a = Some Unused \<and> ex \<noteq> Some a
      \<and> map_of s' = (map_of s)(a := Some (InUse c)) \<and> set_wf s'"
    using o s' w by (simp add: map_of_set_used set_wf_def map_fst_set_used)
next
  fix s s' :: AddrSet and it ex c
  show "set_take it ex c s = (None, s') \<Longrightarrow> s' = s"
    by (auto simp: set_take_def Use_def Let_def)
next
  fix s s' :: AddrSet and g :: unit and a ok
  assume "set_wf s" "AddrSet_GiveBack a s = (ok, s')"
  then show "ok = (map_of s a \<noteq> None)
      \<and> map_of s' = (if ok then (map_of s)(a := Some Unused) else map_of s) \<and> set_wf s'"
    using AddrSet_GiveBack_eq by (metis set_wf_def)
qed

subsection \<open>Regions are a pool\<close>

definition region_owner :: "Region \<Rightarrow> EdgeAddr \<Rightarrow> UsedBy option" where
  "region_owner r a = (case map_of (rg_primary r) a of Some u \<Rightarrow> Some u | None \<Rightarrow> map_of (rg_secondary r) a)"

definition region_addrs :: "Region \<Rightarrow> EdgeAddr list" where
  "region_addrs r = map fst (rg_primary r) @ map fst (rg_secondary r)"

definition region_wf :: "Region \<Rightarrow> bool" where
  "region_wf r = distinct (region_addrs r)"

lemma region_wf_sets:
  assumes "region_wf r"
  shows "set_wf (rg_primary r)" "set_wf (rg_secondary r)" "set_wf (rg_active r)"
    "fst ` set (rg_primary r) \<inter> fst ` set (rg_secondary r) = {}"
  using assms by (auto simp: region_wf_def region_addrs_def set_wf_def rg_active_def)

lemma region_owner_None: "region_owner r a = None \<longleftrightarrow> a \<notin> set (region_addrs r)"
  using map_of_in_fst [of "rg_primary r" a]
  by (auto simp: region_owner_def region_addrs_def map_of_eq_None_iff split: option.splits)

lemma region_owner_active:
  assumes "region_wf r" and "map_of (rg_active r) a = Some u"
  shows "region_owner r a = Some u"
    and "region_owner (set_active (set_used a v (rg_active r)) r) = (region_owner r)(a := Some v)"
    and "region_addrs (set_active (set_used a v (rg_active r)) r) = region_addrs r"
proof -
  have i: "a \<in> fst ` set (rg_active r)" using assms(2) by (rule map_of_in_fst)
  have n: "map_of (rg_primary r) a = None" if "\<not> rg_primaryIsActive r"
    using that i region_wf_sets(4) [OF assms(1)] by (auto simp: rg_active_def map_of_eq_None_iff)
  show "region_owner r a = Some u"
    using assms(2) n by (auto simp: region_owner_def rg_active_def split: if_splits)
  show "region_owner (set_active (set_used a v (rg_active r)) r) = (region_owner r)(a := Some v)"
    using n by (auto simp: region_owner_def set_active_def rg_active_def map_of_set_used fun_eq_iff
        split: option.split)
  show "region_addrs (set_active (set_used a v (rg_active r)) r) = region_addrs r"
    using i by (auto simp: region_addrs_def set_active_def rg_active_def map_fst_set_used
        simp del: list.set_map split: if_splits)
qed

lemma AssignAnyAddress_Some:
  assumes "region_wf r" "iter_ok it" and "AssignAnyAddress it ex c r = (Some a, r')"
  shows "region_owner r a = Some Unused \<and> ex \<noteq> Some a
    \<and> region_owner r' = (region_owner r)(a := Some (InUse c)) \<and> region_addrs r' = region_addrs r
    \<and> map_of (rg_active r) a = Some Unused
    \<and> r' = set_active (set_used a (InUse c) (rg_active r)) r"
proof -
  have g: "GetUnusedIP it ex (rg_active r) = Some a" and r': "r' = set_active (set_used a (InUse c) (rg_active r)) r"
    using assms(3) by (auto simp: AssignAnyAddress_def Use_def split: option.splits)
  have o: "map_of (rg_active r) a = Some Unused" "ex \<noteq> Some a"
    using GetUnusedIP_Some [OF region_wf_sets(3) [OF assms(1)] assms(2) g] by simp_all
  show ?thesis
    unfolding r' using o region_owner_active [OF assms(1) o(1)] by simp
qed

lemma switch_pool_sets [simp]:
  "rg_primary (switch_pool now a r) = rg_primary r" "rg_secondary (switch_pool now a r) = rg_secondary r"
  by (simp_all add: switch_pool_def activatePrimary_def)

lemma Region_GiveBack_eq:
  assumes "region_wf r" and "Region_GiveBack now err a r = (ok, r')"
  shows "ok = (region_owner r a \<noteq> None)
    \<and> region_owner r' = (if ok then (region_owner r)(a := Some Unused) else region_owner r)
    \<and> region_addrs r' = region_addrs r"
proof -
  obtain ok1 p where p: "AddrSet_GiveBack a (rg_primary r) = (ok1, p)" by fastforce
  obtain ok2 q where q: "AddrSet_GiveBack a (rg_secondary r) = (ok2, q)" by fastforce
  note P = AddrSet_GiveBack_eq [OF p] and Q = AddrSet_GiveBack_eq [OF q]
  show ?thesis
  proof (cases ok1)
    case True
    then have "ok \<and> rg_primary r' = p \<and> rg_secondary r' = rg_secondary r"
      using assms(2) p by (auto simp: Region_GiveBack_def Let_def split: if_splits)
    then show ?thesis
      using P True by (auto simp: region_owner_def region_addrs_def fun_eq_iff split: option.splits)
  next
    case False
    then have n: "map_of (rg_primary r) a = None" "map_of p = map_of (rg_primary r)" "map fst p = map fst (rg_primary r)"
      using P by auto
    show ?thesis
    proof (cases ok2)
      case True
      then have "ok \<and> rg_primary r' = p \<and> rg_secondary r' = q"
        using assms(2) p q False by (auto simp: Region_GiveBack_def Let_def split: if_splits)
      then show ?thesis
        using Q True n by (auto simp: region_owner_def region_addrs_def fun_eq_iff split: option.splits)
    next
      case False
      then have "\<not> ok \<and> r' = r"
        using assms(2) p q \<open>\<not> ok1\<close> by (auto simp: Region_GiveBack_def Let_def split: if_splits)
      then show ?thesis using Q False n by (auto simp: region_owner_def)
    qed
  qed
qed

interpretation rp: addr_pool region_owner AssignAnyAddress "\<lambda>(now, err). Region_GiveBack now err"
    region_wf iter_ok
proof
  fix r r' :: Region and it ex c a
  assume "region_wf r" "iter_ok it" "AssignAnyAddress it ex c r = (Some a, r')"
  from AssignAnyAddress_Some [OF this] \<open>region_wf r\<close>
  show "region_owner r a = Some Unused \<and> ex \<noteq> Some a
      \<and> region_owner r' = (region_owner r)(a := Some (InUse c)) \<and> region_wf r'"
    unfolding region_wf_def by metis
next
  fix r r' :: Region and it ex c
  show "AssignAnyAddress it ex c r = (None, r') \<Longrightarrow> r' = r"
    by (auto simp: AssignAnyAddress_def split: option.splits)
next
  fix r r' :: Region and g a ok
  assume w: "region_wf r" and g: "(case g of (now, err) \<Rightarrow> Region_GiveBack now err) a r = (ok, r')"
  obtain now err where "g = (now, err)" by fastforce
  with Region_GiveBack_eq [OF w, of now err a ok r'] g w
  show "ok = (region_owner r a \<noteq> None)
      \<and> region_owner r' = (if ok then (region_owner r)(a := Some Unused) else region_owner r) \<and> region_wf r'"
    by (simp add: region_wf_def)
qed

subsection \<open>The two regions are a pool\<close>

definition rs_owner :: "Regions \<Rightarrow> EdgeAddr \<Rightarrow> UsedBy option" where
  "rs_owner rs a = (case region_owner (region1 rs) a of Some u \<Rightarrow> Some u | None \<Rightarrow> region_owner (region2 rs) a)"

definition rs_addrs :: "Regions \<Rightarrow> EdgeAddr list" where
  "rs_addrs rs = region_addrs (region1 rs) @ region_addrs (region2 rs)"

definition rs_wf :: "Regions \<Rightarrow> bool" where
  "rs_wf rs = distinct (rs_addrs rs)"

definition rs_take :: "iter \<times> bool \<Rightarrow> EdgeAddr option \<Rightarrow> int \<Rightarrow> Regions \<Rightarrow> EdgeAddr option \<times> Regions" where
  "rs_take x ex c rs = GetUnusedAddr (fst x) (snd x) ex c rs"

lemma rs_wf_regions:
  assumes "rs_wf rs"
  shows "region_wf (region1 rs)" "region_wf (region2 rs)"
    "set (region_addrs (region1 rs)) \<inter> set (region_addrs (region2 rs)) = {}"
  using assms by (auto simp: rs_wf_def rs_addrs_def region_wf_def)

text \<open>What a call of GetUnusedAddr did: an assignment in one of the regions, or nothing.\<close>

lemma GetUnusedAddr_cases:
  assumes "GetUnusedAddr it coin ex c rs = (res, rs')"
  obtains (one) a r where "res = Some a" "AssignAnyAddress it ex c (region1 rs) = (Some a, r)" "rs' = rs\<lparr>region1 := r\<rparr>"
  | (two) a r where "res = Some a" "AssignAnyAddress it ex c (region2 rs) = (Some a, r)" "rs' = rs\<lparr>region2 := r\<rparr>"
  | (none) r r' where "res = None" "rs' = rs" "AssignAnyAddress it ex c (region1 rs) = (None, r)"
      "AssignAnyAddress it ex c (region2 rs) = (None, r')"
proof -
  obtain a1 s1 where A: "AssignAnyAddress it ex c (region1 rs) = (a1, s1)" by fastforce
  obtain a2 s2 where B: "AssignAnyAddress it ex c (region2 rs) = (a2, s2)" by fastforce
  show ?thesis
    using assms A B that
    by (cases rs; cases a1; cases a2) (auto simp: GetUnusedAddr_def getAddrs_def Let_def split: if_splits)
qed

interpretation ep: addr_pool rs_owner rs_take "\<lambda>(now, err). Regions_GiveBack now err"
    rs_wf "\<lambda>x. iter_ok (fst x)"
proof
  fix rs rs' :: Regions and x ex c a
  assume w: "rs_wf rs" and i: "iter_ok (fst x)" and t: "rs_take x ex c rs = (Some a, rs')"
  note W = rs_wf_regions [OF w]
  from t have g: "GetUnusedAddr (fst x) (snd x) ex c rs = (Some a, rs')" by (simp add: rs_take_def)
  then show "rs_owner rs a = Some Unused \<and> ex \<noteq> Some a
      \<and> rs_owner rs' = (rs_owner rs)(a := Some (InUse c)) \<and> rs_wf rs'"
  proof (cases rule: GetUnusedAddr_cases)
    case (one b r)
    with AssignAnyAddress_Some [OF W(1) i one(2)] w show ?thesis
      by (auto simp: rs_owner_def rs_wf_def rs_addrs_def fun_eq_iff split: option.splits)
  next
    case (two b r)
    note A = AssignAnyAddress_Some [OF W(2) i two(2)]
    then have "b \<in> set (region_addrs (region2 rs))" using region_owner_None by (metis option.distinct(1))
    then have "region_owner (region1 rs) b = None" using W(3) region_owner_None by blast
    with A two w show ?thesis
      by (auto simp: rs_owner_def rs_wf_def rs_addrs_def fun_eq_iff split: option.splits)
  qed simp
next
  fix rs rs' :: Regions and x ex c
  assume "rs_take x ex c rs = (None, rs')"
  then have "GetUnusedAddr (fst x) (snd x) ex c rs = (None, rs')" by (simp add: rs_take_def)
  then show "rs' = rs" by (cases rule: GetUnusedAddr_cases) auto
next
  fix rs rs' :: Regions and g a ok
  assume w: "rs_wf rs" and g: "(case g of (now, err) \<Rightarrow> Regions_GiveBack now err) a rs = (ok, rs')"
  note W = rs_wf_regions [OF w]
  obtain now err where ge: "g = (now, err)" by fastforce
  obtain f1 r1 where A: "Region_GiveBack now err a (region1 rs) = (f1, r1)" by fastforce
  obtain f2 r2 where B: "Region_GiveBack now err a (region2 rs) = (f2, r2)" by fastforce
  note P = Region_GiveBack_eq [OF W(1) A] and Q = Region_GiveBack_eq [OF W(2) B]
  show "ok = (rs_owner rs a \<noteq> None)
      \<and> rs_owner rs' = (if ok then (rs_owner rs)(a := Some Unused) else rs_owner rs) \<and> rs_wf rs'"
  proof (cases f1)
    case True
    then have "ok \<and> rs' = rs\<lparr>region1 := r1\<rparr>" using g A by (simp add: ge Regions_GiveBack_def)
    then show ?thesis
      using P True w by (auto simp: rs_owner_def rs_wf_def rs_addrs_def fun_eq_iff split: option.splits)
  next
    case False
    then have "ok = f2 \<and> rs' = rs\<lparr>region2 := r2\<rparr>" using g A B by (simp add: ge Regions_GiveBack_def)
    then show ?thesis
      using P Q False w
      by (auto simp: rs_owner_def rs_wf_def rs_addrs_def fun_eq_iff split: option.splits if_splits)
  qed
qed

lemma Region_AddrUsedBy_iff:
  assumes "region_wf r" "iter_ok it"
  shows "Region_AddrUsedBy it c r = Some a \<Longrightarrow> region_owner r a = Some (InUse c)"
    and "Region_AddrUsedBy it c r = None \<Longrightarrow> region_owner r a \<noteq> Some (InUse c)"
proof -
  note W = region_wf_sets [OF assms(1)]
  show "region_owner r a = Some (InUse c)" if "Region_AddrUsedBy it c r = Some a"
  proof (cases "AddrSet_AddrUsedBy it c (rg_primary r)")
    case None
    then have s: "AddrSet_AddrUsedBy it c (rg_secondary r) = Some a"
      using that by (simp add: Region_AddrUsedBy_def)
    have m: "map_of (rg_secondary r) a = Some (InUse c)" by (rule AddrUsedBy_Some [OF W(2) assms(2) s])
    then have "a \<in> fst ` set (rg_secondary r)" by (rule map_of_in_fst)
    then have "map_of (rg_primary r) a = None" using W(4) by (auto simp: map_of_eq_None_iff)
    with m show ?thesis by (simp add: region_owner_def)
  next
    case (Some b)
    then have "map_of (rg_primary r) a = Some (InUse c)"
      using that AddrUsedBy_Some [OF W(1) assms(2)] by (simp add: Region_AddrUsedBy_def)
    then show ?thesis by (simp add: region_owner_def)
  qed
  show "region_owner r a \<noteq> Some (InUse c)" if "Region_AddrUsedBy it c r = None"
  proof -
    have "AddrSet_AddrUsedBy it c (rg_primary r) = None" "AddrSet_AddrUsedBy it c (rg_secondary r) = None"
      using that by (auto simp: Region_AddrUsedBy_def split: option.splits)
    from this [THEN AddrUsedBy_None [OF assms(2)]] show ?thesis
      by (auto simp: region_owner_def split: option.splits)
  qed
qed

lemma Regions_AddrUsedBy_holds:
  assumes "rs_wf rs" "iter_ok it"
  shows "Regions_AddrUsedBy it c rs = Some a \<Longrightarrow> ep.holds rs c a"
    and "Regions_AddrUsedBy it c rs = None \<Longrightarrow> \<not> ep.holds rs c a"
proof -
  note W = rs_wf_regions [OF assms(1)]
  note one = Region_AddrUsedBy_iff [OF W(1) assms(2), of c] and two = Region_AddrUsedBy_iff [OF W(2) assms(2), of c]
  show "ep.holds rs c a" if "Regions_AddrUsedBy it c rs = Some a"
  proof (cases "Region_AddrUsedBy it c (region1 rs)")
    case None
    then have o: "region_owner (region2 rs) a = Some (InUse c)"
      using that two(1) by (simp add: Regions_AddrUsedBy_def)
    then have "a \<in> set (region_addrs (region2 rs))" using region_owner_None by (metis option.distinct(1))
    then have "region_owner (region1 rs) a = None" using W(3) region_owner_None by blast
    with o show ?thesis by (simp add: ep.holds_def rs_owner_def)
  next
    case (Some b)
    then show ?thesis using that one(1) [of a] by (simp add: Regions_AddrUsedBy_def ep.holds_def rs_owner_def)
  qed
  show "\<not> ep.holds rs c a" if "Regions_AddrUsedBy it c rs = None"
    using that one(2) two(2)
    by (auto simp: Regions_AddrUsedBy_def ep.holds_def rs_owner_def split: option.splits)
qed

subsection \<open>Calls and traces\<close>

lemma GetAddr_spec:
  assumes "rs_wf rs" "ep.single rs" "iter_ok it" and "GetAddr it coin c rs = (res, rs')"
  shows "rs_wf rs' \<and> ep.single rs'
    \<and> (\<forall>a. res = Inr a \<longrightarrow> ep.holds rs' c a)
    \<and> (\<forall>e. res = Inl e \<longrightarrow> rs' = rs \<and> (\<forall>a. \<not> ep.holds rs c a))
    \<and> (\<forall>d b. d \<noteq> c \<longrightarrow> ep.holds rs' d b = ep.holds rs d b)"
proof (cases "Regions_AddrUsedBy it c rs")
  case (Some a)
  then show ?thesis
    using assms Regions_AddrUsedBy_holds(1) [OF assms(1,3) Some] by (auto simp: GetAddr_def)
next
  case None
  have n: "\<And>a. \<not> ep.holds rs c a" using Regions_AddrUsedBy_holds(2) [OF assms(1,3) None] .
  obtain r rs1 where t: "rs_take (it, coin) None c rs = (r, rs1)" by fastforce
  note S = ep.take_single [OF assms(1) _ assms(2) t n]
  show ?thesis
  proof (cases r)
    case None
    then have "rs1 = rs" using ep.take_None t by blast
    then show ?thesis
      using assms \<open>Regions_AddrUsedBy it c rs = None\<close> None t n by (auto simp: GetAddr_def rs_take_def)
  next
    case (Some a)
    then have t': "rs_take (it, coin) None c rs = (Some a, rs1)" using t by simp
    have ch: "iter_ok (fst (it, coin))" using assms(3) by simp
    note H = ep.take_holds [OF assms(1) ch t'] and T = ep.take_Some [OF assms(1) ch t']
    have e: "res = Inr a" "rs' = rs1"
      using assms(4) \<open>Regions_AddrUsedBy it c rs = None\<close> t' by (auto simp: GetAddr_def rs_take_def)
    have "ep.holds rs d a = False" for d using T by (simp add: ep.holds_def)
    then show ?thesis using e S [OF ch] H by auto
  qed
qed

lemma GetDifferentAddr_spec:
  assumes "rs_wf rs" "ep.single rs" "iter_ok it" and "GetDifferentAddr it coin now c err rs = (res, rs')"
  shows "rs_wf rs' \<and> ep.single rs'
    \<and> (\<forall>a. res = Inr a \<longrightarrow> ep.holds rs' c a \<and> \<not> ep.holds rs c a)
    \<and> (\<forall>e. res = Inl e \<longrightarrow> (\<forall>a. \<not> ep.holds rs' c a))
    \<and> (\<forall>a. ep.holds rs c a \<longrightarrow> rs_owner rs' a = Some Unused)
    \<and> (\<forall>d b. d \<noteq> c \<longrightarrow> ep.holds rs' d b = ep.holds rs d b)"
proof -
  define oldA where "oldA = Regions_AddrUsedBy it c rs"
  define rs1 where "rs1 = (case oldA of None \<Rightarrow> rs | Some a \<Rightarrow> snd (Regions_GiveBack now err a rs))"
  have old: "ep.holds rs c a \<longleftrightarrow> oldA = Some a" for a
    using Regions_AddrUsedBy_holds [OF assms(1,3), of c] assms(2)
    by (cases oldA) (auto simp: oldA_def ep.single_def)
  have one: "rs_wf rs1 \<and> ep.single rs1 \<and> (\<forall>a. \<not> ep.holds rs1 c a)
      \<and> (\<forall>a. oldA = Some a \<longrightarrow> rs_owner rs1 a = Some Unused)
      \<and> (\<forall>d b. d \<noteq> c \<longrightarrow> ep.holds rs1 d b = ep.holds rs d b)"
  proof (cases oldA)
    case None
    then show ?thesis using assms old by (simp add: rs1_def)
  next
    case (Some a)
    obtain ok where g: "(case (now, err) of (now, err) \<Rightarrow> Regions_GiveBack now err) a rs = (ok, rs1)"
      using Some by (cases "Regions_GiveBack now err a rs") (simp add: rs1_def)
    have h: "ep.holds rs c a" using old Some by simp
    then have o: "rs_owner rs a \<noteq> None" and d: "d \<noteq> c \<Longrightarrow> \<not> ep.holds rs d a" for d
      by (simp_all add: ep.holds_def)
    have own: "rs_owner rs1 a = Some Unused" using ep.give_back [OF assms(1) g] o by simp
    show ?thesis
      using ep.give_single [OF assms(1,2) g] ep.give_holds [OF assms(1) g] old Some own d
      by auto
  qed
  obtain r rs2 where t: "rs_take (it, coin) oldA c rs1 = (r, rs2)" by fastforce
  have ch: "iter_ok (fst (it, coin))" using assms(3) by simp
  have S: "rs_wf rs2 \<and> ep.single rs2" using ep.take_single [of rs1 "(it, coin)" oldA c r rs2] one ch t by blast
  have e: "(res, rs') = (case r of None \<Rightarrow> Inl ErrNoAddressesLeft | Some a \<Rightarrow> Inr a, rs2)"
    using assms(4) t by (auto simp: GetDifferentAddr_def Let_def rs_take_def oldA_def [symmetric]
        rs1_def [symmetric] split: option.splits)
  show ?thesis
  proof (cases r)
    case None
    then have "rs2 = rs1" using ep.take_None t by blast
    then show ?thesis using e None one old by simp
  next
    case (Some a)
    then have t': "rs_take (it, coin) oldA c rs1 = (Some a, rs2)" using t by simp
    have w1: "rs_wf rs1" using one by simp
    note H = ep.take_holds [OF w1 ch t'] and T = ep.take_Some [OF w1 ch t']
    have n1: "\<not> ep.holds rs1 d a" for d using T by (simp add: ep.holds_def)
    have n: "\<not> ep.holds rs d a" if "d \<noteq> c" for d using one n1 [of d] that by blast
    have o: "d \<noteq> c \<longrightarrow> ep.holds rs2 d b = ep.holds rs d b" for d b using H n one by auto
    have "rs_owner rs2 b = Some Unused" if "oldA = Some b" for b using that T one by auto
    then show ?thesis using e Some S H T old o by auto
  qed
qed

datatype edge_op =
    OpGetAddr iter bool int
  | OpGetDifferentAddr iter bool int int bool
  | OpGiveBack int bool EdgeAddr

fun edge_op_ok :: "edge_op \<Rightarrow> bool" where
  "edge_op_ok (OpGetAddr it coin c) = iter_ok it"
| "edge_op_ok (OpGetDifferentAddr it coin now c err) = iter_ok it"
| "edge_op_ok (OpGiveBack now err a) = True"

fun edge_step :: "edge_op \<Rightarrow> Regions \<Rightarrow> Regions" where
  "edge_step (OpGetAddr it coin c) rs = snd (GetAddr it coin c rs)"
| "edge_step (OpGetDifferentAddr it coin now c err) rs = snd (GetDifferentAddr it coin now c err rs)"
| "edge_step (OpGiveBack now err a) rs = snd (Edge_GiveBack now err a rs)"

lemma edge_step_inv:
  assumes "rs_wf rs" "ep.single rs" and "edge_op_ok op"
  shows "rs_wf (edge_step op rs) \<and> ep.single (edge_step op rs)"
proof (cases op)
  case (OpGetAddr it coin c)
  obtain res rs' where "GetAddr it coin c rs = (res, rs')" by fastforce
  with GetAddr_spec [OF assms(1,2) _ this] assms(3) OpGetAddr show ?thesis by simp
next
  case (OpGetDifferentAddr it coin now c err)
  obtain res rs' where "GetDifferentAddr it coin now c err rs = (res, rs')" by fastforce
  with GetDifferentAddr_spec [OF assms(1,2) _ this] assms(3) OpGetDifferentAddr show ?thesis by simp
next
  case (OpGiveBack now err a)
  obtain ok rs' where g: "(case (now, err) of (now, err) \<Rightarrow> Regions_GiveBack now err) a rs = (ok, rs')"
    by fastforce
  with ep.give_single [OF assms(1,2) g] OpGiveBack show ?thesis by (simp add: Edge_GiveBack_def)
qed

subsection \<open>Balance and initial states\<close>

lemma Region_take_available:
  assumes "region_wf r" "iter_ok it" and "AssignAnyAddress it ex c r = (Some a, r')"
  shows "Suc (Region_AvailableAddrs r') = Region_AvailableAddrs r"
proof -
  note A = AssignAnyAddress_Some [OF assms]
  have s: "set_wf (rg_active r)" using region_wf_sets(3) [OF assms(1)] .
  have m: "map_of (rg_active r) a = Some Unused" using A by simp
  have i: "a \<in> fst ` set (rg_active r)" using map_of_in_fst [OF m] .
  have r': "rg_active r' = set_used a (InUse c) (rg_active r)"
    using A by (simp add: rg_active_def set_active_def)
  have "Suc (length (filter (\<lambda>(a, u). u = Unused) (map (\<lambda>(b, v). if b = a then (b, InUse c) else (b, v)) l)))
      = length (filter (\<lambda>(a, u). u = Unused) l)"
    if "distinct (map fst l)" "map_of l a = Some Unused" for l :: AddrSet
    using that
  proof (induction l)
    case (Cons x l)
    have same: "map (\<lambda>(b, v). if b = a then (b, InUse c) else (b, v)) l = l" if "a \<notin> fst ` set l"
      using that by (induction l) auto
    show ?case
      using Cons same by (cases x) (auto simp del: length_filter_map split: if_splits)
  qed simp
  from this [OF s [unfolded set_wf_def] m] show ?thesis
    using i by (simp add: Region_AvailableAddrs_def AddrSet_AvailableAddrs_def r' set_used_def)
qed

lemma Region_take_None:
  assumes "iter_ok it" and "AssignAnyAddress it None c r = (None, r')"
  shows "Region_AvailableAddrs r = 0"
proof -
  have "GetUnusedIP it None (rg_active r) = None"
    using assms(2) by (auto simp: AssignAnyAddress_def split: option.splits)
  then show ?thesis
    using GetUnusedIP_None [OF assms(1)]
    by (auto simp: Region_AvailableAddrs_def AddrSet_AvailableAddrs_def filter_empty_conv)
qed

lemma connFor_addrs:
  "map fst (map (\<lambda>a. (a, Unused)) xs) = xs" "map_of (map (\<lambda>a. (a, Unused)) xs) a \<noteq> Some (InUse c)"
  by (induction xs) auto

lemma NewRegion_init:
  shows "distinct (region_addrs (NewRegion addrs v))" "set (region_addrs (NewRegion addrs v)) \<subseteq> set addrs"
    "region_owner (NewRegion addrs v) a \<noteq> Some (InUse c)"
  by (auto simp: NewRegion_def Let_def region_addrs_def region_owner_def connFor_addrs comp_def
      split: ConfigIPVersion.split EdgeIPVersion.split list.split option.split)

lemma ResolveEdge_init:
  assumes "allregions_ResolveEdge (a1 # a2 # as) v = Some rs" and "set a1 \<inter> set a2 = {}"
  shows "rs_wf rs \<and> (\<forall>c a. \<not> ep.holds rs c a)"
proof -
  have rs: "rs = \<lparr>region1 = NewRegion a1 v, region2 = NewRegion a2 v\<rparr>"
    using assms(1) by (simp add: allregions_ResolveEdge_def)
  have "rs_wf rs"
    using assms(2) NewRegion_init(1) [of a1 v] NewRegion_init(1) [of a2 v] NewRegion_init(2) [of a1 v] NewRegion_init(2) [of a2 v]
    unfolding rs rs_wf_def rs_addrs_def distinct_append Regions.simps by blast
  moreover have "\<not> ep.holds rs c a" for c a
    using NewRegion_init(3) unfolding rs by (auto simp: ep.holds_def rs_owner_def split: option.splits)
  ultimately show ?thesis by simp
qed

subsection \<open>Properties\<close>

text \<open>The addresses of the regions are those with an owner, used or not; every operation keeps them.\<close>

lemma rs_addrs_dom: "set (rs_addrs rs) = dom (rs_owner rs)"
proof (rule set_eqI)
  fix x
  have "x \<in> set (rs_addrs rs) \<longleftrightarrow> region_owner (region1 rs) x \<noteq> None \<or> region_owner (region2 rs) x \<noteq> None"
    by (simp add: rs_addrs_def region_owner_None del: not_None_eq)
  then show "x \<in> set (rs_addrs rs) \<longleftrightarrow> x \<in> dom (rs_owner rs)"
    by (auto simp: rs_owner_def split: option.splits)
qed

lemma GetUnusedAddr_dom:
  "\<lbrakk>rs_wf rs; iter_ok it; GetUnusedAddr it coin ex c rs = (res, rs')\<rbrakk> \<Longrightarrow> dom (rs_owner rs') = dom (rs_owner rs)"
  using ep.take_dom [of rs "(it, coin)" ex c res rs'] by (simp add: rs_take_def)

lemma GiveBack_dom:
  assumes "rs_wf rs"
  shows "dom (rs_owner (snd (Regions_GiveBack now err a rs))) = dom (rs_owner rs)" "rs_wf (snd (Regions_GiveBack now err a rs))"
  using ep.give_dom [OF assms, of "(now, err)" a] ep.give_back [OF assms, of "(now, err)" a]
  by (cases "Regions_GiveBack now err a rs"; simp)+

lemma edge_step_addrs:
  assumes "rs_wf rs" and "edge_op_ok op"
  shows "set (rs_addrs (edge_step op rs)) = set (rs_addrs rs)"
proof (cases op)
  case (OpGetAddr it coin c)
  with assms GetUnusedAddr_dom [of rs it coin None c] show ?thesis
    by (auto simp: rs_addrs_dom GetAddr_def split: option.splits prod.splits)
next
  case (OpGetDifferentAddr it coin now c err)
  define rs1 where "rs1 = (case Regions_AddrUsedBy it c rs of None \<Rightarrow> rs | Some a \<Rightarrow> snd (Regions_GiveBack now err a rs))"
  have "rs_wf rs1 \<and> dom (rs_owner rs1) = dom (rs_owner rs)"
    using assms(1) GiveBack_dom [OF assms(1)] by (simp add: rs1_def split: option.splits)
  with OpGetDifferentAddr assms(2) GetUnusedAddr_dom [of rs1 it coin "Regions_AddrUsedBy it c rs" c] show ?thesis
    by (auto simp: rs_addrs_dom GetDifferentAddr_def rs1_def [symmetric] Let_def split: option.splits prod.splits)
next
  case (OpGiveBack now err a)
  with GiveBack_dom(1) [OF assms(1)] show ?thesis by (simp add: rs_addrs_dom Edge_GiveBack_def)
qed

text \<open>C26. Exclusive addresses: from the regions of a discovery with disjoint address lists, after any
  sequence of GetAddr, GetDifferentAddr and GiveBack calls with any map iteration orders, random
  choices, clocks and connectivity errors, no connection holds more than one address (and an
  address has one owner), and no address is lost, added or duplicated: the regions hold exactly the
  addresses they started with.\<close>

theorem edge_exclusive_addresses:
  assumes "allregions_ResolveEdge (a1 # a2 # as) v = Some rs" and "set a1 \<inter> set a2 = {}"
    and "list_all edge_op_ok ops" and "rs' = foldl (\<lambda>rs op. edge_step op rs) rs ops"
  shows "distinct (rs_addrs rs') \<and> set (rs_addrs rs') = set (rs_addrs rs)
    \<and> (\<forall>c a b. rs_owner rs' a = Some (InUse c) \<and> rs_owner rs' b = Some (InUse c) \<longrightarrow> a = b)"
proof -
  have "rs_wf (foldl (\<lambda>rs op. edge_step op rs) rs ops) \<and> ep.single (foldl (\<lambda>rs op. edge_step op rs) rs ops)
      \<and> set (rs_addrs (foldl (\<lambda>rs op. edge_step op rs) rs ops)) = set (rs_addrs rs)"
    if "rs_wf rs" "ep.single rs" for rs
    using assms(3) that
  proof (induction ops arbitrary: rs)
    case (Cons op ops)
    then show ?case using edge_step_inv [of rs op] edge_step_addrs [of rs op] by simp
  qed simp
  then show ?thesis
    using ResolveEdge_init [OF assms(1,2)]
    unfolding assms(4) by (auto simp: ep.single_def ep.holds_def rs_wf_def)
qed

definition sample_edge :: Regions where
  "sample_edge = the (allregions_ResolveEdge [[EdgeAddr 1 V4, EdgeAddr 2 V6], [EdgeAddr 3 V4]] Auto)"

theorem edge_exclusive_addresses_witness:
  "let rs' = foldl (\<lambda>rs op. edge_step op rs) sample_edge
       [OpGetAddr id True 0, OpGetAddr id True 1, OpGetDifferentAddr id False 5 0 True]
   in distinct (rs_addrs rs') \<and> rs_owner rs' (EdgeAddr 3 V4) = Some (InUse 1)
     \<and> (\<forall>c a b. rs_owner rs' a = Some (InUse c) \<and> rs_owner rs' b = Some (InUse c) \<longrightarrow> a = b)"
proof -
  let ?ops = "[OpGetAddr id True 0, OpGetAddr id True 1, OpGetDifferentAddr id False 5 0 True]"
  have r: "allregions_ResolveEdge [[EdgeAddr 1 V4, EdgeAddr 2 V6], [EdgeAddr 3 V4]] Auto = Some sample_edge"
    by (simp add: sample_edge_def allregions_ResolveEdge_def)
  have "rs_owner (foldl (\<lambda>rs op. edge_step op rs) sample_edge ?ops) (EdgeAddr 3 V4) = Some (InUse 1)"
    by code_simp
  moreover have "list_all edge_op_ok ?ops" by (simp add: iter_ok_def)
  ultimately show ?thesis
    using edge_exclusive_addresses [OF r _ _ refl, of ?ops] by (simp add: Let_def)
qed

text \<open>A different address is different: GetDifferentAddr gives the connection an address it did
  not hold before, or fails and leaves it without one; in both cases the old address is free for
  others and nobody else's assignment changes.\<close>

theorem different_addr_differs:
  assumes "rs_wf rs" "ep.single rs" "iter_ok it" and "GetDifferentAddr it coin now c err rs = (res, rs')"
  shows "(case res of
       Inr a \<Rightarrow> rs_owner rs a \<noteq> Some (InUse c) \<and> rs_owner rs' a = Some (InUse c)
     | Inl e \<Rightarrow> \<forall>a. rs_owner rs' a \<noteq> Some (InUse c))
    \<and> (\<forall>a. rs_owner rs a = Some (InUse c) \<longrightarrow> rs_owner rs' a = Some Unused)
    \<and> (\<forall>d b. d \<noteq> c \<longrightarrow> (rs_owner rs' b = Some (InUse d) \<longleftrightarrow> rs_owner rs b = Some (InUse d)))"
  using GetDifferentAddr_spec [OF assms] by (auto simp: ep.holds_def split: sum.split)

theorem different_addr_differs_witness:
  "let rs = snd (GetAddr id True 7 sample_edge)
   in \<exists>a. fst (GetDifferentAddr id True 0 7 False rs) = Inr a \<and> rs_owner rs a \<noteq> Some (InUse 7)"
proof -
  let ?rs = "snd (GetAddr id True 7 sample_edge)"
  have r: "allregions_ResolveEdge [[EdgeAddr 1 V4, EdgeAddr 2 V6], [EdgeAddr 3 V4]] Auto = Some sample_edge"
    by (simp add: sample_edge_def allregions_ResolveEdge_def)
  have i: "rs_wf sample_edge" "ep.single sample_edge"
    using ResolveEdge_init [OF r] by (auto simp: ep.single_def)
  have s: "rs_wf ?rs" "ep.single ?rs"
    using edge_step_inv [OF i, of "OpGetAddr id True 7"] by (auto simp: iter_ok_def)
  have g: "fst (GetDifferentAddr id True 0 7 False ?rs) = Inr (EdgeAddr 3 V4)" by code_simp
  obtain rs' where G: "GetDifferentAddr id True 0 7 False ?rs = (Inr (EdgeAddr 3 V4), rs')"
    using g by (metis prod.collapse)
  from different_addr_differs [OF s _ G] show ?thesis by (simp add: iter_ok_def Let_def g)
qed

text \<open>Even use of the regions: when the two regions' numbers of available addresses differ by at
  most one, handing out an address keeps it so, and GetUnusedAddr without an exclusion fails only
  when both active pools are used up.\<close>

theorem regions_used_evenly:
  assumes "rs_wf rs" "iter_ok it" and "GetUnusedAddr it coin None c rs = (res, rs')"
    and "\<bar>int (Region_AvailableAddrs (region1 rs)) - int (Region_AvailableAddrs (region2 rs))\<bar> \<le> 1"
  shows "\<bar>int (Region_AvailableAddrs (region1 rs')) - int (Region_AvailableAddrs (region2 rs'))\<bar> \<le> 1
    \<and> (res = None \<longleftrightarrow> Regions_AvailableAddrs rs = 0)"
proof -
  note W = rs_wf_regions [OF assms(1)]
  obtain a1 s1 where A: "AssignAnyAddress it None c (region1 rs) = (a1, s1)" by fastforce
  obtain a2 s2 where B: "AssignAnyAddress it None c (region2 rs) = (a2, s2)" by fastforce
  have n1: "case a1 of None \<Rightarrow> Region_AvailableAddrs (region1 rs) = 0
      | Some a \<Rightarrow> Suc (Region_AvailableAddrs s1) = Region_AvailableAddrs (region1 rs)"
    using A Region_take_None [OF assms(2)] Region_take_available [OF W(1) assms(2)]
    by (auto split: option.split)
  have n2: "case a2 of None \<Rightarrow> Region_AvailableAddrs (region2 rs) = 0
      | Some a \<Rightarrow> Suc (Region_AvailableAddrs s2) = Region_AvailableAddrs (region2 rs)"
    using B Region_take_None [OF assms(2)] Region_take_available [OF W(2) assms(2)]
    by (auto split: option.split)
  show ?thesis
    using assms(3,4) A B n1 n2
    by (cases rs; cases a1; cases a2)
       (auto simp: GetUnusedAddr_def getAddrs_def Let_def Regions_AvailableAddrs_def split: if_splits)
qed

theorem regions_used_evenly_witness:
  "fst (GetUnusedAddr id True None 3 sample_edge) \<noteq> None"
proof -
  have r: "allregions_ResolveEdge [[EdgeAddr 1 V4, EdgeAddr 2 V6], [EdgeAddr 3 V4]] Auto = Some sample_edge"
    by (simp add: sample_edge_def allregions_ResolveEdge_def)
  have w: "rs_wf sample_edge" using ResolveEdge_init [OF r] by simp
  obtain res rs' where g: "GetUnusedAddr id True None 3 sample_edge = (res, rs')" by fastforce
  have a: "Region_AvailableAddrs (region1 sample_edge) = 1" "Region_AvailableAddrs (region2 sample_edge) = 1"
    by code_simp+
  then have "res \<noteq> None"
    using regions_used_evenly [OF w _ g] by (simp add: iter_ok_def Regions_AvailableAddrs_def)
  with g show ?thesis by simp
qed

text \<open>The IP fallback of a region: giving back an address without a connectivity error never
  switches the pool; with one, the primary pool is left exactly for an IPv6 address when there is
  a secondary pool, and it is returned to exactly on an IPv4 address or after the ten minute
  timeout.\<close>

theorem region_ip_fallback:
  assumes "Region_GiveBack now err a r = (True, r')"
  shows "rg_primaryIsActive r' =
    (if \<not> err then rg_primaryIsActive r
     else if rg_primaryIsActive r then \<not> (IPVersion a = V6 \<and> rg_secondary r \<noteq> [])
     else IPVersion a = V4 \<or> rg_primaryTimeout r < now)"
proof -
  obtain ok1 p where p: "AddrSet_GiveBack a (rg_primary r) = (ok1, p)" by fastforce
  obtain ok2 q where q: "AddrSet_GiveBack a (rg_secondary r) = (ok2, q)" by fastforce
  have "map fst q = map fst (rg_secondary r)" using AddrSet_GiveBack_eq [OF q] by simp
  then have e: "q = [] \<longleftrightarrow> rg_secondary r = []" by (metis map_is_Nil_conv)
  show ?thesis
    using assms p q e
    by (auto simp: Region_GiveBack_def Let_def switch_pool_def activatePrimary_def split: if_splits)
qed

theorem region_ip_fallback_witness:
  "rg_primaryIsActive (snd (Region_GiveBack 0 True (EdgeAddr 2 V6) (NewRegion [EdgeAddr 2 V6, EdgeAddr 1 V4] Auto))) = False"
proof -
  let ?r = "NewRegion [EdgeAddr 2 V6, EdgeAddr 1 V4] Auto"
  have "fst (Region_GiveBack 0 True (EdgeAddr 2 V6) ?r) = True" by code_simp
  then obtain r' where g: "Region_GiveBack 0 True (EdgeAddr 2 V6) ?r = (True, r')"
    by (metis prod.collapse)
  from region_ip_fallback [OF g] g show ?thesis by (simp add: NewRegion_def Let_def)
qed

end
