(* ===== verification/Edge_Server.thy ===== *)
theory Edge_Server
  imports Control_Stream Edge_Addrs
begin

text \<open>
  \<^verbatim>\<open>supervisor/tunnel.go\<close>: one attempt of one connection to the edge.  It takes an edge address, serves
  the connection, rotates the address after network errors, waits for the backoff and may fall back to
  another protocol.  What the network did during the attempt is a record of inputs; clock, random
  source and map iteration orders are arguments too.  The attempt is one function from the state it finds
  to the state it leaves: changes that other connections make to the addresses, the selector and the
  tracker while it lasts are not seen.
\<close>

subsection \<open>Connectivity errors and the edge address handler\<close>

datatype ConnectivityError = NewConnectivityError (HasReachedMaxRetries: bool)

definition connectivity_message :: "ConnectivityError \<Rightarrow> string" where
  "connectivity_message e =
     ''connectivity error - reached max retries: '' @ (if HasReachedMaxRetries e then ''true'' else ''false'')"

record IpAddrFallback =
  retriesByConnIndex :: "byte \<Rightarrow> byte option"
  ipf_maxRetries :: byte

definition NewIPAddrFallback :: "byte \<Rightarrow> IpAddrFallback" where
  "NewIPAddrFallback m = \<lparr>retriesByConnIndex = (\<lambda>_. None), ipf_maxRetries = m\<rparr>"

definition retries_of :: "IpAddrFallback \<Rightarrow> byte \<Rightarrow> byte" where
  "retries_of f i = (case retriesByConnIndex f i of None \<Rightarrow> 0 | Some r \<Rightarrow> r)"

definition network_retry :: "byte \<Rightarrow> IpAddrFallback \<Rightarrow> bool \<times> ConnectivityError option \<times> IpAddrFallback" where
  "network_retry i f =
     (if ipf_maxRetries f \<le> retries_of f i
      then (True, Some (NewConnectivityError True), f\<lparr>retriesByConnIndex := (retriesByConnIndex f)(i \<mapsto> 0)\<rparr>)
      else (True, Some (NewConnectivityError False),
            f\<lparr>retriesByConnIndex := (retriesByConnIndex f)(i \<mapsto> retries_of f i + 1)\<rparr>))"

fun ShouldGetNewAddress ::
    "byte \<Rightarrow> conn_error option \<Rightarrow> IpAddrFallback \<Rightarrow> bool \<times> ConnectivityError option \<times> IpAddrFallback" where
  "ShouldGetNewAddress i None f = (False, None, f)"
| "ShouldGetNewAddress i (Some DupConnRegisterTunnelError) f = (True, None, f)"
| "ShouldGetNewAddress i (Some (QuicIdleTimeoutError m)) f = (True, None, f)"
| "ShouldGetNewAddress i (Some (DialError c)) f = network_retry i f"
| "ShouldGetNewAddress i (Some (EdgeQuicDialError c)) f = network_retry i f"
| "ShouldGetNewAddress i (Some e) f = (False, None, f)"

subsection \<open>Choosing the next protocol\<close>

definition isQuicBroken :: "conn_error option \<Rightarrow> bool" where
  "isQuicBroken cause =
     (case cause of
        None \<Rightarrow> False
      | Some e \<Rightarrow>
          list_ex (\<lambda>x. case x of QuicIdleTimeoutError m \<Rightarrow> True | _ \<Rightarrow> False) (unwrap_chain e)
          \<or> (list_ex (\<lambda>x. case x of QuicTransportError m \<Rightarrow> True | _ \<Rightarrow> False) (unwrap_chain e)
             \<and> str_contains (err_message e) ''operation not permitted''))"

text \<open>One call of a selector: its two clock readings and the result of the lookup.\<close>

type_synonym sel_input = "int \<times> int \<times> (string + ProtocolPercent list)"

text \<open>A call that never returns is the error \<open>NeverReturns\<close>.\<close>

datatype stuck = NeverReturns

definition selectNextProtocol ::
    "int \<Rightarrow> sel_input \<Rightarrow> conn_error option \<Rightarrow> protocolFallback \<Rightarrow> ProtocolSelector
     \<Rightarrow> (stuck, bool \<times> protocolFallback \<times> ProtocolSelector) outcome" where
  "selectNextProtocol now inp cause pf sel =
     (let broken = isQuicBroken cause;
          hasFallback = snd (sel_Fallback sel)
      in if ReachedMaxRetries (pf_backoff pf) \<or> (hasFallback \<and> broken)
         then (let (fb, hasFallback') = sel_Fallback sel
               in if \<not> hasFallback' then Ok (False, pf, sel)
                  else if pf_protocol pf = fb then Ok (False, pf, sel)
                  else Ok (True, pf_fallback now fb pf, sel))
         else if \<not> inFallback pf
         then obind (sel_Current (fst inp) (fst (snd inp)) (snd (snd inp)) sel)
                (\<lambda>(sel', current).
                   Ok (True, if pf_protocol pf \<noteq> current then pf\<lparr>pf_protocol := current\<rparr> else pf, sel'))
         else Ok (True, pf, sel))"

subsection \<open>Serving\<close>

text \<open>
  What the network did in one attempt: the TLS configuration and the dial, the control stream if it
  was served, how the routines of the connection ended, and what \<^verbatim>\<open>listenReconnect\<close> returned and
  whether it ended before the connection.  \<open>at_panic\<close> is a panic of the attempt.
\<close>

record attempt =
  at_tls :: "conn_error option"
  at_dial :: "conn_error option"
  at_open :: "conn_error option"
  at_control :: "control_inputs option"
  at_routines :: "quic_routine list"
  at_reconnect :: "conn_error option"
  at_reconnect_first :: bool
  at_panic :: "(conn_error + string) option"

definition run_control :: "attempt \<Rightarrow> controlStream \<Rightarrow> conn_error option \<times> controlStream" where
  "run_control a c =
     (case at_control a of
        None \<Rightarrow> (None, c)
      | Some ins \<Rightarrow> (case ServeControlStream ins c of (err, c', calls) \<Rightarrow> (err, c')))"

definition wait_both :: "attempt \<Rightarrow> conn_error option \<Rightarrow> conn_error option" where
  "wait_both a err =
     errgroup_Wait (if at_reconnect_first a then [at_reconnect a, err] else [err, at_reconnect a])"

definition tls_error :: "conn_error \<Rightarrow> conn_error" where
  "tls_error e = WrappedError ''could not create TLS configuration'' e"

definition serveQUIC :: "attempt \<Rightarrow> controlStream \<Rightarrow> (conn_error option \<times> bool) \<times> controlStream" where
  "serveQUIC a c =
     (case at_tls a of
        Some e \<Rightarrow> ((Some (tls_error e), True), c)
      | None \<Rightarrow>
          (case at_dial a of
             Some e \<Rightarrow> ((Some e, True), c)
           | None \<Rightarrow>
               let (cerr, c') = (case at_open a of Some e \<Rightarrow> (None, c) | None \<Rightarrow> run_control a c);
                   ended = map (\<lambda>r. case r of ControlRoutine _ \<Rightarrow> ControlRoutine cerr | _ \<Rightarrow> r) (at_routines a)
               in ((wait_both a (quic_Serve (at_open a) ended), False), c')))"

definition serveHTTP2 :: "attempt \<Rightarrow> controlStream \<Rightarrow> conn_error option \<times> controlStream" where
  "serveHTTP2 a c =
     (let (cerr, c') = run_control a c
      in (wait_both a (http2_Serve c' cerr), c'))"

definition serveConnection ::
    "attempt \<Rightarrow> Protocol \<Rightarrow> controlStream \<Rightarrow> (conn_error option \<times> bool) \<times> controlStream" where
  "serveConnection a protocol c =
     (if protocol = QUIC then serveQUIC a c
      else if protocol = HTTP2 then
        (case at_tls a of
           Some e \<Rightarrow> ((Some (tls_error e), True), c)
         | None \<Rightarrow>
             (case at_dial a of
                Some e \<Rightarrow> ((Some e, True), c)
              | None \<Rightarrow>
                  (case serveHTTP2 a c of
                     (Some e, c') \<Rightarrow> ((Some e, False), c')
                   | (None, c') \<Rightarrow> ((None, False), c'))))
      else ((Some (OtherError (''invalid protocol selected: '' @ protocol_String protocol)), False), c))"

text \<open>The type switch of \<^verbatim>\<open>serveTunnel\<close> on a non-nil error.\<close>

fun classify :: "conn_error \<Rightarrow> conn_error \<times> bool" where
  "classify DupConnRegisterTunnelError = (DupConnRegisterTunnelError, False)"
| "classify (ServerRegisterTunnelError c p) = (c, \<not> p)"
| "classify (EdgeQuicDialError c) = (EdgeQuicDialError c, False)"
| "classify (ReconnectSignal d) = (ReconnectSignal d, True)"
| "classify ContextCanceled = (ContextCanceled, False)"
| "classify (UnrecoverableError c) = (UnrecoverableError c, False)"
| "classify e = (e, True)"

fun recover_error :: "conn_error + string \<Rightarrow> conn_error" where
  "recover_error (Inl e) = WrappedError ''stack trace'' e"
| "recover_error (Inr v) = WrappedError ''stack trace'' (OtherError (''ServeTunnel: '' @ v))"

definition serveTunnel ::
    "attempt \<Rightarrow> Protocol \<Rightarrow> controlStream \<Rightarrow> (conn_error option \<times> bool) \<times> controlStream" where
  "serveTunnel a protocol c =
     (let ((err, recoverable), c') = serveConnection a protocol c;
          c'' = c'\<lparr>cs_observer := SendDisconnect (cs_connIndex c) (cs_observer c')\<rparr>
      in case at_panic a of
           Some v \<Rightarrow> ((Some (recover_error v), True), c'')
         | None \<Rightarrow>
             (case err of
                Some e \<Rightarrow> (case classify e of (e', r) \<Rightarrow> ((Some e', r), c''))
              | None \<Rightarrow> ((None, False), c'')))"

subsection \<open>The tunnel server\<close>

record EdgeTunnelServer =
  edgeAddrs :: Regions
  edgeAddrHandler :: IpAddrFallback
  es_observer :: observer
  es_tracker :: ConnTracker
  es_selector :: ProtocolSelector

datatype wait_case = WaitCtxDone conn_error | WaitGraceful | WaitTimer

text \<open>
  The inputs of one call of \<^verbatim>\<open>Serve\<close>: the iteration orders and coins of the two address requests,
  the network's part, the clock readings, the random source of the backoff, whether the context
  is done when the backoff is asked, the case the \<^verbatim>\<open>select\<close> takes, how many events the observer
  has dispatched by then, and the inputs of the two selector calls.
\<close>

record serve_inputs =
  sv_iter :: iter
  sv_coin :: bool
  sv_attempt :: attempt
  sv_now :: int
  sv_iter2 :: iter
  sv_coin2 :: bool
  sv_ctx_done :: bool
  sv_later :: int
  sv_rnd :: "int \<Rightarrow> int"
  sv_wait :: wait_case
  sv_dispatched :: nat
  sv_sel1 :: sel_input
  sv_sel2 :: sel_input

fun dispatch_n :: "nat \<Rightarrow> observer \<Rightarrow> ConnTracker \<Rightarrow> observer \<times> ConnTracker" where
  "dispatch_n 0 ch ct = (ch, ct)"
| "dispatch_n (Suc n) ch ct = (case dispatch ch ct of (ch', ct') \<Rightarrow> dispatch_n n ch' ct')"

record serve_result =
  sr_err :: "conn_error option"
  sr_server :: EdgeTunnelServer
  sr_fallback :: protocolFallback
  sr_connected :: bool

definition after_wait ::
    "serve_inputs \<Rightarrow> conn_error option \<Rightarrow> bool \<Rightarrow> bool \<Rightarrow> EdgeTunnelServer \<Rightarrow> protocolFallback
     \<Rightarrow> (stuck, serve_result) outcome" where
  "after_wait ins err shouldFallback connected es pf =
     (if \<not> shouldFallback then Ok \<lparr>sr_err = err, sr_server = es, sr_fallback = pf, sr_connected = connected\<rparr>
      else obind (sel_Current (fst (sv_sel1 ins)) (fst (snd (sv_sel1 ins))) (snd (snd (sv_sel1 ins))) (es_selector es))
        (\<lambda>(sel, current).
           let es1 = es\<lparr>es_selector := sel\<rparr>
           in if HasConnectedWith current (es_tracker es1)
              then Ok \<lparr>sr_err = err, sr_server = es1, sr_fallback = pf, sr_connected = connected\<rparr>
              else obind (selectNextProtocol (sv_later ins) (sv_sel2 ins) err pf sel)
                (\<lambda>(ok, pf', sel').
                   Ok \<lparr>sr_err = err, sr_server = es1\<lparr>es_selector := sel'\<rparr>, sr_fallback = pf', sr_connected = connected\<rparr>)))"

definition serve_retry ::
    "serve_inputs \<Rightarrow> byte \<Rightarrow> conn_error option \<Rightarrow> bool \<Rightarrow> bool \<Rightarrow> EdgeTunnelServer \<Rightarrow> protocolFallback
     \<Rightarrow> (stuck, serve_result) outcome" where
  "serve_retry ins i err shouldFallback connected es pf =
     (let result = (\<lambda>e es pf. \<lparr>sr_err = e, sr_server = es, sr_fallback = pf, sr_connected = connected\<rparr>)
      in case GetMaxBackoffDuration (sv_ctx_done ins) (sv_later ins) (pf_backoff pf) of
           (duration, ok) \<Rightarrow>
             if \<not> ok then Ok (result err es pf)
             else
               let (ch, ct) = dispatch_n (sv_dispatched ins) (SendReconnect i (es_observer es)) (es_tracker es);
                   es1 = es\<lparr>es_observer := ch, es_tracker := ct\<rparr>
               in obind (BackoffTimer (sv_later ins) (sv_rnd ins) (pf_backoff pf))
                    (\<lambda>(b, timer).
                       let pf1 = pf\<lparr>pf_backoff := b\<rparr>
                       in case sv_wait ins of
                            WaitCtxDone e \<Rightarrow> Ok (result (Some e) es1 pf1)
                          | WaitGraceful \<Rightarrow> Ok (result None es1 pf1)
                          | WaitTimer \<Rightarrow>
                              (case timer of
                                 None \<Rightarrow> Err NeverReturns
                               | Some d \<Rightarrow> after_wait ins err shouldFallback connected es1 pf1)))"

text \<open>
  \<open>ip\<close> reads the address bytes behind an \<^verbatim>\<open>EdgeAddr\<close> pointer.  The control stream of an attempt
  starts with an unset fuse and shares the protocol fallback of the connection.
\<close>

definition serve_stream ::
    "(EdgeAddr \<Rightarrow> byte list) \<Rightarrow> byte \<Rightarrow> protocolFallback \<Rightarrow> EdgeTunnelServer \<Rightarrow> EdgeAddr \<Rightarrow> controlStream" where
  "serve_stream ip i pf es addr =
     NewControlStream (es_observer es) \<lparr>cf_fuse = newBooleanFuse, cf_backoff = pf\<rparr> i (ip addr) (pf_protocol pf)"

definition EdgeTunnelServer_Serve ::
    "(EdgeAddr \<Rightarrow> byte list) \<Rightarrow> serve_inputs \<Rightarrow> byte \<Rightarrow> protocolFallback \<Rightarrow> EdgeTunnelServer
     \<Rightarrow> (stuck, serve_result) outcome" where
  "EdgeTunnelServer_Serve ip ins i pf es =
     (case GetAddr (sv_iter ins) (sv_coin ins) (uint i) (edgeAddrs es) of
        (Inl ErrNoAddressesLeft, rs) \<Rightarrow>
          Ok \<lparr>sr_err = Some NoAddressesLeft, sr_server = es\<lparr>edgeAddrs := rs\<rparr>, sr_fallback = pf, sr_connected = False\<rparr>
      | (Inr addr, rs) \<Rightarrow>
          let ((err, recoverable), c) = serveTunnel (sv_attempt ins) (pf_protocol pf) (serve_stream ip i pf es addr);
              connected = cf_IsConnected (cs_connectedFuse c);
              pf1 = cf_backoff (cs_connectedFuse c);
              (rotate, cErr, handler) = ShouldGetNewAddress i err (edgeAddrHandler es);
              es1 = es\<lparr>edgeAddrs := rs, edgeAddrHandler := handler, es_observer := cs_observer c\<rparr>
          in if rotate then
               (case GetDifferentAddr (sv_iter2 ins) (sv_coin2 ins) (sv_now ins) (uint i) True rs of
                  (Inl ErrNoAddressesLeft, rs') \<Rightarrow>
                    Ok \<lparr>sr_err = Some NoAddressesLeft, sr_server = es1\<lparr>edgeAddrs := rs'\<rparr>, sr_fallback = pf1, sr_connected = connected\<rparr>
                | (Inr a, rs') \<Rightarrow>
                    serve_retry ins i err
                      (case cErr of Some ce \<Rightarrow> HasReachedMaxRetries ce | None \<Rightarrow> recoverable)
                      connected (es1\<lparr>edgeAddrs := rs'\<rparr>) pf1)
             else serve_retry ins i err recoverable connected es1 pf1)"

subsection \<open>The address handler over time\<close>

fun is_network_error :: "conn_error option \<Rightarrow> bool" where
  "is_network_error (Some (DialError c)) = True"
| "is_network_error (Some (EdgeQuicDialError c)) = True"
| "is_network_error _ = False"

fun is_rotating_error :: "conn_error option \<Rightarrow> bool" where
  "is_rotating_error (Some DupConnRegisterTunnelError) = True"
| "is_rotating_error (Some (QuicIdleTimeoutError m)) = True"
| "is_rotating_error e = is_network_error e"

fun handle_errors :: "(byte \<times> conn_error option) list \<Rightarrow> IpAddrFallback \<Rightarrow> IpAddrFallback" where
  "handle_errors [] f = f"
| "handle_errors ((i, e) # es) f = handle_errors es (snd (snd (ShouldGetNewAddress i e f)))"

definition network_errors :: "byte \<Rightarrow> (byte \<times> conn_error option) list \<Rightarrow> nat" where
  "network_errors i es = length (filter (\<lambda>(j, e). j = i \<and> is_network_error e) es)"

lemma ShouldGetNewAddress_cases:
  "ShouldGetNewAddress i e f =
     (if is_network_error e then network_retry i f else (is_rotating_error e, None, f))"
  by (cases "(i, e, f)" rule: ShouldGetNewAddress.cases) auto

lemma handle_errors_append: "handle_errors (es @ ds) f = handle_errors ds (handle_errors es f)"
  by (induction es arbitrary: f) auto

lemma handle_errors_max: "ipf_maxRetries (handle_errors es f) = ipf_maxRetries f"
  by (induction es arbitrary: f) (auto simp: ShouldGetNewAddress_cases network_retry_def)

lemma byte_suc: "(r :: byte) < m \<Longrightarrow> unat (r + 1) = Suc (unat r)"
proof -
  assume l: "r < m"
  then have "unat r + 1 < 2 ^ LENGTH(8)"
    using unsigned_less [of m, where ?'a = nat] unfolding word_less_nat_alt by linarith
  then show ?thesis by (simp add: unat_word_ariths(1))
qed

lemma network_retry_count:
  assumes "retries_of f i \<le> ipf_maxRetries f"
  shows "unat (retries_of (snd (snd (network_retry i f))) i)
       = (if retries_of f i = ipf_maxRetries f then 0 else Suc (unat (retries_of f i)))"
    and "j \<noteq> i \<Longrightarrow> retries_of (snd (snd (network_retry i f))) j = retries_of f j"
proof -
  show "unat (retries_of (snd (snd (network_retry i f))) i)
       = (if retries_of f i = ipf_maxRetries f then 0 else Suc (unat (retries_of f i)))"
  proof (cases "retries_of f i = ipf_maxRetries f")
    case True
    then show ?thesis by (simp add: network_retry_def) (simp add: retries_of_def)
  next
    case False
    with assms have l: "retries_of f i < ipf_maxRetries f" by simp
    then have "\<not> ipf_maxRetries f \<le> retries_of f i" by simp
    then have "snd (snd (network_retry i f)) = f\<lparr>retriesByConnIndex := (retriesByConnIndex f)(i \<mapsto> retries_of f i + 1)\<rparr>"
      by (simp add: network_retry_def)
    then have "retries_of (snd (snd (network_retry i f))) i = retries_of f i + 1"
      by (simp only:) (simp add: retries_of_def)
    with byte_suc [OF l] False show ?thesis by simp
  qed
  show "j \<noteq> i \<Longrightarrow> retries_of (snd (snd (network_retry i f))) j = retries_of f j"
    by (simp add: network_retry_def retries_of_def)
qed

lemma retry_counter:
  "unat (retries_of (handle_errors es (NewIPAddrFallback m)) i) = network_errors i es mod (unat m + 1)"
proof (induction es rule: rev_induct)
  case Nil
  then show ?case by (simp add: NewIPAddrFallback_def retries_of_def network_errors_def)
next
  case (snoc x es)
  obtain j e where x: "x = (j, e)" by (cases x)
  let ?f = "handle_errors es (NewIPAddrFallback m)"
  have max: "ipf_maxRetries ?f = m" by (simp add: handle_errors_max NewIPAddrFallback_def)
  have le: "retries_of ?f i \<le> ipf_maxRetries ?f"
    unfolding max word_le_nat_alt snoc by (simp add: less_Suc_eq_le [symmetric])
  show ?case
  proof (cases "is_network_error e \<and> j = i")
    case False
    have "retries_of (snd (snd (ShouldGetNewAddress j e ?f))) i = retries_of ?f i"
      using False by (auto simp: ShouldGetNewAddress_cases network_retry_def retries_of_def)
    moreover have "network_errors i (es @ [x]) = network_errors i es"
      using False x by (auto simp: network_errors_def)
    ultimately show ?thesis
      using snoc x by (simp add: handle_errors_append)
  next
    case True
    have n: "network_errors i (es @ [x]) = Suc (network_errors i es)"
      using True x by (simp add: network_errors_def)
    have "unat (retries_of (handle_errors (es @ [x]) (NewIPAddrFallback m)) i)
        = (if retries_of ?f i = m then 0 else Suc (unat (retries_of ?f i)))"
      using True x network_retry_count(1) [OF le] max by (simp add: handle_errors_append ShouldGetNewAddress_cases)
    also have "\<dots> = (if network_errors i es mod (unat m + 1) = unat m then 0 else Suc (network_errors i es mod (unat m + 1)))"
      using snoc by (simp add: word_unat_eq_iff)
    also have "\<dots> = network_errors i (es @ [x]) mod (unat m + 1)"
      unfolding n by (simp add: mod_Suc)
    finally show ?thesis .
  qed
qed

text \<open>
  Whatever errors the other connections had in between, the network errors of a connection report
  that the retries are exhausted exactly on every \<open>m + 1\<close>-st of them, and every network error,
  every idle timeout and every duplicate connection asks for a new address; no other error does.
\<close>

theorem address_handler_exact:
  "\<exists>f'. ShouldGetNewAddress i e (handle_errors es (NewIPAddrFallback m)) =
     (is_rotating_error e,
      if is_network_error e
      then Some (NewConnectivityError (network_errors i es mod (unat m + 1) = unat m)) else None, f')
     \<and> unat (retries_of f' i) \<le> unat m"
proof -
  let ?f = "handle_errors es (NewIPAddrFallback m)"
  have max: "ipf_maxRetries ?f = m" by (simp add: handle_errors_max NewIPAddrFallback_def)
  have cnt: "unat (retries_of ?f i) = network_errors i es mod (unat m + 1)" by (rule retry_counter)
  have bound: "network_errors i es mod (unat m + 1) \<le> unat m"
    using mod_less_divisor [of "unat m + 1" "network_errors i es"] by linarith
  have reached: "m \<le> retries_of ?f i \<longleftrightarrow> network_errors i es mod (unat m + 1) = unat m"
    unfolding word_le_nat_alt cnt using bound by linarith
  have le: "retries_of ?f i \<le> ipf_maxRetries ?f"
    unfolding max word_le_nat_alt cnt by (rule bound)
  have rot: "is_network_error e \<Longrightarrow> is_rotating_error e"
    by (cases e rule: is_rotating_error.cases) auto
  have after: "unat (retries_of (snd (snd (network_retry i ?f))) i) \<le> unat m"
    unfolding network_retry_count(1) [OF le] max
    using cnt bound by (simp add: word_unat_eq_iff Suc_le_eq le_neq_implies_less)
  show ?thesis
  proof (cases "is_network_error e")
    case True
    have "network_retry i ?f = (True, Some (NewConnectivityError (network_errors i es mod (unat m + 1) = unat m)),
        snd (snd (network_retry i ?f)))"
      by (simp add: network_retry_def max reached)
    with True rot after show ?thesis
      unfolding ShouldGetNewAddress_cases by auto
  next
    case False
    with cnt bound show ?thesis by (simp add: ShouldGetNewAddress_cases)
  qed
qed

subsection \<open>One attempt\<close>

lemma after_wait_edge:
  "after_wait ins err sf conn es pf = Ok r \<Longrightarrow>
     edgeAddrs (sr_server r) = edgeAddrs es \<and> es_tracker (sr_server r) = es_tracker es"
  by (auto simp: after_wait_def obind_Ok_iff Let_def split: if_splits)

lemma serve_retry_edge:
  assumes "serve_retry ins i err sf conn es pf = Ok r"
  shows "edgeAddrs (sr_server r) = edgeAddrs es"
proof -
  obtain d ok where g: "GetMaxBackoffDuration (sv_ctx_done ins) (sv_later ins) (pf_backoff pf) = (d, ok)"
    by (cases "GetMaxBackoffDuration (sv_ctx_done ins) (sv_later ins) (pf_backoff pf)")
  show ?thesis
  proof (cases ok)
    case False
    with assms g show ?thesis by (simp add: serve_retry_def Let_def) auto
  next
    case True
    obtain ch ct where d: "dispatch_n (sv_dispatched ins) (SendReconnect i (es_observer es)) (es_tracker es) = (ch, ct)"
      by (cases "dispatch_n (sv_dispatched ins) (SendReconnect i (es_observer es)) (es_tracker es)")
    from assms g True d show ?thesis
      by (cases "sv_wait ins")
         (auto simp: serve_retry_def Let_def obind_Ok_iff split: option.splits dest!: after_wait_edge)
  qed
qed

text \<open>The error the attempt at address \<open>a\<close> ends with.\<close>

definition served_error ::
    "(EdgeAddr \<Rightarrow> byte list) \<Rightarrow> serve_inputs \<Rightarrow> byte \<Rightarrow> protocolFallback \<Rightarrow> EdgeTunnelServer \<Rightarrow> EdgeAddr
     \<Rightarrow> conn_error option" where
  "served_error ip ins i pf es a =
     fst (fst (serveTunnel (sv_attempt ins) (pf_protocol pf) (serve_stream ip i pf es a)))"

lemma ShouldGetNewAddress_rotates: "fst (ShouldGetNewAddress i e f) = is_rotating_error e"
proof -
  have "is_network_error e \<Longrightarrow> is_rotating_error e"
    by (cases e rule: is_rotating_error.cases) auto
  then show ?thesis by (simp add: ShouldGetNewAddress_cases network_retry_def)
qed

lemma EdgeTunnelServer_Serve_cases:
  assumes "EdgeTunnelServer_Serve ip ins i pf es = Ok r" and "GetAddr (sv_iter ins) (sv_coin ins) (uint i) (edgeAddrs es) = (res, rs)"
  shows "(res = Inl ErrNoAddressesLeft \<and> sr_err r = Some NoAddressesLeft \<and> edgeAddrs (sr_server r) = rs)
    \<or> (\<exists>a. res = Inr a \<and> \<not> is_rotating_error (served_error ip ins i pf es a) \<and> edgeAddrs (sr_server r) = rs)
    \<or> (\<exists>a res' rs'. res = Inr a \<and> is_rotating_error (served_error ip ins i pf es a)
         \<and> GetDifferentAddr (sv_iter2 ins) (sv_coin2 ins) (sv_now ins) (uint i) True rs = (res', rs')
         \<and> edgeAddrs (sr_server r) = rs' \<and> (res' = Inl ErrNoAddressesLeft \<longrightarrow> sr_err r = Some NoAddressesLeft))"
proof (cases res)
  case (Inl e)
  with assms show ?thesis by (cases e) (auto simp: EdgeTunnelServer_Serve_def)
next
  case (Inr a)
  obtain err rec c where t: "serveTunnel (sv_attempt ins) (pf_protocol pf) (serve_stream ip i pf es a) = ((err, rec), c)"
    by (cases "serveTunnel (sv_attempt ins) (pf_protocol pf) (serve_stream ip i pf es a)") auto
  obtain rot cErr h where h: "ShouldGetNewAddress i err (edgeAddrHandler es) = (rot, cErr, h)"
    by (cases "ShouldGetNewAddress i err (edgeAddrHandler es)") auto
  have rot: "rot = is_rotating_error (served_error ip ins i pf es a)"
    using ShouldGetNewAddress_rotates [of i err "edgeAddrHandler es"] h t by (simp add: served_error_def)
  show ?thesis
  proof (cases rot)
    case False
    with assms Inr t h have "\<exists>sf conn es1 pf1. serve_retry ins i err sf conn es1 pf1 = Ok r \<and> edgeAddrs es1 = rs"
      by (auto simp: EdgeTunnelServer_Serve_def Let_def) (rule exI conjI | assumption | simp)+
    with serve_retry_edge Inr False rot show ?thesis by fastforce
  next
    case True
    obtain res' rs' where g: "GetDifferentAddr (sv_iter2 ins) (sv_coin2 ins) (sv_now ins) (uint i) True rs = (res', rs')"
      by (cases "GetDifferentAddr (sv_iter2 ins) (sv_coin2 ins) (sv_now ins) (uint i) True rs")
    have "edgeAddrs (sr_server r) = rs' \<and> (res' = Inl ErrNoAddressesLeft \<longrightarrow> sr_err r = Some NoAddressesLeft)"
    proof (cases res')
      case (Inl e)
      with assms Inr t h True g show ?thesis by (cases e) (auto simp: EdgeTunnelServer_Serve_def Let_def)
    next
      case (Inr b)
      with assms \<open>res = Inr a\<close> t h True g
      have "\<exists>sf conn es1 pf1. serve_retry ins i err sf conn es1 pf1 = Ok r \<and> edgeAddrs es1 = rs'"
        by (auto simp: EdgeTunnelServer_Serve_def Let_def) (rule exI conjI | assumption | simp)+
      with serve_retry_edge Inr show ?thesis by fastforce
    qed
    with True rot g Inr show ?thesis by blast
  qed
qed

subsection \<open>Properties of an attempt\<close>

text \<open>
  The edge addresses across one attempt of connection \<open>i\<close>: the pool stays well formed with at most
  one address per connection, and no other connection's address changes.  Without a free address
  nothing is served.  After a network error, an idle timeout or a duplicate connection the
  connection holds an address other than the one it tried, or none and the attempt fails for want of
  addresses; after any other end it keeps its address.
\<close>

theorem serve_rotates_address:
  assumes "rs_wf (edgeAddrs es)" and "ep.single (edgeAddrs es)"
    and "iter_ok (sv_iter ins)" and "iter_ok (sv_iter2 ins)"
    and "EdgeTunnelServer_Serve ip ins i pf es = Ok r"
  shows "rs_wf (edgeAddrs (sr_server r)) \<and> ep.single (edgeAddrs (sr_server r))
    \<and> (\<forall>d b. d \<noteq> uint i \<longrightarrow> (rs_owner (edgeAddrs (sr_server r)) b = Some (InUse d)
           \<longleftrightarrow> rs_owner (edgeAddrs es) b = Some (InUse d)))
    \<and> (case fst (GetAddr (sv_iter ins) (sv_coin ins) (uint i) (edgeAddrs es)) of
         Inl e \<Rightarrow> sr_err r = Some NoAddressesLeft
       | Inr a \<Rightarrow>
           (if is_rotating_error (served_error ip ins i pf es a)
            then (\<exists>b. b \<noteq> a \<and> rs_owner (edgeAddrs (sr_server r)) b = Some (InUse (uint i)))
                 \<or> sr_err r = Some NoAddressesLeft \<and> (\<forall>b. rs_owner (edgeAddrs (sr_server r)) b \<noteq> Some (InUse (uint i)))
            else rs_owner (edgeAddrs (sr_server r)) a = Some (InUse (uint i))))"
proof -
  obtain res rs where g: "GetAddr (sv_iter ins) (sv_coin ins) (uint i) (edgeAddrs es) = (res, rs)"
    by (cases "GetAddr (sv_iter ins) (sv_coin ins) (uint i) (edgeAddrs es)")
  note G = GetAddr_spec [OF assms(1-3) g, unfolded ep.holds_def]
  from EdgeTunnelServer_Serve_cases [OF assms(5) g] show ?thesis
  proof (elim disjE exE conjE)
    fix a res' rs'
    assume res: "res = Inr a" and rot: "is_rotating_error (served_error ip ins i pf es a)"
      and d: "GetDifferentAddr (sv_iter2 ins) (sv_coin2 ins) (sv_now ins) (uint i) True rs = (res', rs')"
      and r: "edgeAddrs (sr_server r) = rs'" and e: "res' = Inl ErrNoAddressesLeft \<longrightarrow> sr_err r = Some NoAddressesLeft"
    have w: "rs_wf rs" "ep.single rs" using G by simp_all
    note D = GetDifferentAddr_spec [OF w assms(4) d, unfolded ep.holds_def]
    have held: "rs_owner rs a = Some (InUse (uint i))" using G res by blast
    have "(\<exists>b. b \<noteq> a \<and> rs_owner rs' b = Some (InUse (uint i)))
        \<or> sr_err r = Some NoAddressesLeft \<and> (\<forall>b. rs_owner rs' b \<noteq> Some (InUse (uint i)))"
    proof (cases res')
      case (Inl x)
      with D e show ?thesis by (cases x) auto
    next
      case (Inr b)
      with D held have "rs_owner rs' b = Some (InUse (uint i))" "b \<noteq> a" by auto
      then show ?thesis by blast
    qed
    with D G res rot r show ?thesis by (simp add: g)
  qed (use G in \<open>auto simp: g\<close>)
qed

definition dial_failed :: attempt where
  "dial_failed = \<lparr>at_tls = None, at_dial = Some (EdgeQuicDialError (OtherError ''timeout'')), at_open = None,
     at_control = None, at_routines = [], at_reconnect = None, at_reconnect_first = False, at_panic = None\<rparr>"

definition sample_serve :: "attempt \<Rightarrow> serve_inputs" where
  "sample_serve a = \<lparr>sv_iter = id, sv_coin = True, sv_attempt = a, sv_now = 0, sv_iter2 = id, sv_coin2 = False,
     sv_ctx_done = False, sv_later = 1, sv_rnd = (\<lambda>n. 0), sv_wait = WaitTimer, sv_dispatched = 9,
     sv_sel1 = (1, 1, Inl []), sv_sel2 = (1, 1, Inl [])\<rparr>"

definition sample_fallback :: protocolFallback where
  "sample_fallback = \<lparr>pf_backoff = NewBackoff 5 0 True, pf_protocol = QUIC, inFallback = False\<rparr>"

definition sample_server :: "byte \<Rightarrow> EdgeTunnelServer" where
  "sample_server m = \<lparr>edgeAddrs = sample_edge, edgeAddrHandler = NewIPAddrFallback m, es_observer = [],
     es_tracker = NewConnTracker, es_selector = DefaultSel (newDefaultProtocolSelector QUIC)\<rparr>"

lemma sample_edge_ok: "rs_wf sample_edge \<and> ep.single sample_edge"
proof -
  have "allregions_ResolveEdge [[EdgeAddr 1 V4, EdgeAddr 2 V6], [EdgeAddr 3 V4]] Auto = Some sample_edge"
    by (simp add: sample_edge_def allregions_ResolveEdge_def)
  from ResolveEdge_init [OF this] show ?thesis by (auto simp: ep.single_def)
qed

theorem serve_rotates_address_witness:
  "\<exists>r b. EdgeTunnelServer_Serve (\<lambda>_. [10, 0, 0, 1]) (sample_serve dial_failed) 2 sample_fallback (sample_server 0) = Ok r
     \<and> b \<noteq> EdgeAddr 1 V4 \<and> rs_owner (edgeAddrs (sr_server r)) b = Some (InUse 2)"
proof -
  have g: "fst (GetAddr (sv_iter (sample_serve dial_failed)) (sv_coin (sample_serve dial_failed)) (uint (2 :: byte))
      (edgeAddrs (sample_server 0))) = Inr (EdgeAddr 1 V4)" by code_simp
  have e: "served_error (\<lambda>_. [10, 0, 0, 1]) (sample_serve dial_failed) 2 sample_fallback (sample_server 0) (EdgeAddr 1 V4)
      = Some (EdgeQuicDialError (OtherError ''timeout''))" by code_simp
  have "(case EdgeTunnelServer_Serve (\<lambda>_. [10, 0, 0, 1]) (sample_serve dial_failed) 2 sample_fallback (sample_server 0) of
      Ok r \<Rightarrow> sr_err r \<noteq> Some NoAddressesLeft | _ \<Rightarrow> False)" by code_simp
  then obtain r where r: "EdgeTunnelServer_Serve (\<lambda>_. [10, 0, 0, 1]) (sample_serve dial_failed) 2 sample_fallback (sample_server 0) = Ok r"
      "sr_err r \<noteq> Some NoAddressesLeft"
    by (auto split: outcome.splits)
  have "rs_wf (edgeAddrs (sample_server 0))" "ep.single (edgeAddrs (sample_server 0))"
    "iter_ok (sv_iter (sample_serve dial_failed))" "iter_ok (sv_iter2 (sample_serve dial_failed))"
    using sample_edge_ok by (simp_all add: sample_server_def sample_serve_def iter_ok_def)
  note rotated = serve_rotates_address [OF this r(1), unfolded g sum.case e is_rotating_error.simps is_network_error.simps if_True]
  have "\<exists>b. b \<noteq> EdgeAddr 1 V4 \<and> rs_owner (edgeAddrs (sr_server r)) b = Some (InUse (uint (2 :: byte)))"
    using rotated r(2) by blast
  with r(1) show ?thesis by auto
qed

subsection \<open>Properties of the protocol choice\<close>

lemma sel_Current_ok:
  assumes "sel_valid s"
  shows "\<exists>s'. sel_Current now later fetch s = (Ok (s', sel_cur s') :: (stuck, _) outcome) \<and> sel_valid s'"
  using sel_call_ok [OF assms] .

lemma next_protocol_step:
  assumes "sel_valid sel"
  shows "\<exists>ok pf' sel'. selectNextProtocol now inp cause pf sel = Ok (ok, pf', sel') \<and> sel_valid sel'
    \<and> (if ReachedMaxRetries (pf_backoff pf) \<or> snd (sel_Fallback sel) \<and> isQuicBroken cause
       then sel' = sel \<and> ok = (snd (sel_Fallback sel) \<and> pf_protocol pf \<noteq> HTTP2)
          \<and> (if ok then pf_protocol pf' = HTTP2 \<and> inFallback pf' \<and> retries (pf_backoff pf') = 0 \<and> sel_cur sel = QUIC
             else pf' = pf)
       else ok \<and> pf_backoff pf' = pf_backoff pf \<and> inFallback pf' = inFallback pf
          \<and> (if inFallback pf then pf' = pf \<and> sel' = sel else pf_protocol pf' = sel_cur sel'))"
proof (cases "ReachedMaxRetries (pf_backoff pf) \<or> snd (sel_Fallback sel) \<and> isQuicBroken cause")
  case True
  obtain fb has where f: "sel_Fallback sel = (fb, has)" by (cases "sel_Fallback sel")
  have down: "has \<Longrightarrow> sel_cur sel = QUIC \<and> fb = HTTP2" using sel_Fallback_down f by simp
  show ?thesis
    using True f down assms
    by (auto simp: selectNextProtocol_def Let_def pf_fallback_def ResetNow_def)
next
  case False
  show ?thesis
  proof (cases "inFallback pf")
    case True
    then show ?thesis using False assms by (auto simp: selectNextProtocol_def Let_def)
  next
    case n: False
    obtain s' where s': "sel_Current (fst inp) (fst (snd inp)) (snd (snd inp)) sel = (Ok (s', sel_cur s') :: (stuck, _) outcome)"
        "sel_valid s'"
      using sel_Current_ok [OF assms] by blast
    have "selectNextProtocol now inp cause pf sel
        = Ok (True, if pf_protocol pf \<noteq> sel_cur s' then pf\<lparr>pf_protocol := sel_cur s'\<rparr> else pf, s')"
      using False n s'(1) by (auto simp: selectNextProtocol_def Let_def)
    with False n s'(2) show ?thesis by auto
  qed
qed

text \<open>
  Choosing the next protocol never fails and never stops the selector from being valid.  With
  retries exhausted, or QUIC known to be broken and a fallback at hand, the connection moves to the
  fallback, which is HTTP2, or keeps its protocol and gets \<open>False\<close> when there is none or it is in use
  already; otherwise a connection in fallback keeps its protocol and one that is not follows the
  selector.
\<close>

theorem next_protocol_exact:
  assumes "sel_valid sel"
  shows "\<exists>ok pf' sel'. selectNextProtocol now inp cause pf sel = Ok (ok, pf', sel') \<and> sel_valid sel'
    \<and> (if ReachedMaxRetries (pf_backoff pf) \<or> snd (sel_Fallback sel) \<and> isQuicBroken cause
       then sel' = sel \<and> ok = (snd (sel_Fallback sel) \<and> pf_protocol pf \<noteq> HTTP2)
          \<and> (if ok then pf_protocol pf' = HTTP2 \<and> inFallback pf' \<and> retries (pf_backoff pf') = 0 \<and> sel_cur sel = QUIC
             else pf' = pf)
       else ok \<and> pf_backoff pf' = pf_backoff pf \<and> inFallback pf' = inFallback pf
          \<and> (if inFallback pf then pf' = pf \<and> sel' = sel else pf_protocol pf' = sel_cur sel'))"
  by (rule next_protocol_step [OF assms])

theorem next_protocol_exact_witness:
  "\<exists>pf' sel'. selectNextProtocol 0 (1, 1, Inl []) (Some (EdgeQuicDialError (QuicIdleTimeoutError ''timeout''))) sample_fallback
      (DefaultSel (newDefaultProtocolSelector QUIC)) = Ok (True, pf', sel') \<and> pf_protocol pf' = HTTP2"
proof -
  have v: "sel_valid (DefaultSel (newDefaultProtocolSelector QUIC))"
    by (simp add: default_valid_def newDefaultProtocolSelector_def ProtocolList_def)
  have c: "snd (sel_Fallback (DefaultSel (newDefaultProtocolSelector QUIC)))"
      "isQuicBroken (Some (EdgeQuicDialError (QuicIdleTimeoutError ''timeout'')))"
      "pf_protocol sample_fallback \<noteq> HTTP2" by code_simp+
  from next_protocol_exact [OF v, of 0 "(1, 1, Inl [])" "Some (EdgeQuicDialError (QuicIdleTimeoutError ''timeout''))"
      sample_fallback] c
  show ?thesis by auto
qed

lemma ServeControlStream_protocol:
  "ServeControlStream ins c = (err, c', calls) \<Longrightarrow>
     pf_protocol (cf_backoff (cs_connectedFuse c')) = pf_protocol (cf_backoff (cs_connectedFuse c))"
  by (auto simp: ServeControlStream_def waitForUnregister_def Let_def cf_Connected_def pf_reset_def
      split: sum.splits option.splits wait_choice.splits if_splits)

lemma run_control_protocol:
  "run_control a c = (err, c') \<Longrightarrow>
     pf_protocol (cf_backoff (cs_connectedFuse c')) = pf_protocol (cf_backoff (cs_connectedFuse c))"
  by (auto simp: run_control_def split: option.splits prod.splits dest: ServeControlStream_protocol)

lemma serveConnection_protocol:
  "serveConnection a p c = (res, c') \<Longrightarrow>
     pf_protocol (cf_backoff (cs_connectedFuse c')) = pf_protocol (cf_backoff (cs_connectedFuse c))"
  by (auto simp: serveConnection_def serveQUIC_def serveHTTP2_def Let_def
      split: if_splits option.splits prod.splits dest: run_control_protocol)

lemma serveTunnel_protocol:
  "serveTunnel a p c = (res, c') \<Longrightarrow>
     pf_protocol (cf_backoff (cs_connectedFuse c')) = pf_protocol (cf_backoff (cs_connectedFuse c))"
  by (auto simp: serveTunnel_def Let_def split: option.splits prod.splits dest: serveConnection_protocol)

text \<open>The first selector call of an attempt.\<close>

definition first_choice :: "serve_inputs \<Rightarrow> ProtocolSelector \<Rightarrow> (stuck, ProtocolSelector \<times> Protocol) outcome" where
  "first_choice ins sel = sel_Current (fst (sv_sel1 ins)) (fst (snd (sv_sel1 ins))) (snd (snd (sv_sel1 ins))) sel"

lemma after_wait_change:
  assumes "after_wait ins err sf conn es pf = Ok r" and "sel_valid (es_selector es)"
    and "pf_protocol (sr_fallback r) \<noteq> pf_protocol pf"
  shows "sf \<and> (\<exists>sel. first_choice ins (es_selector es) = Ok (sel, sel_cur sel)
           \<and> \<not> HasConnectedWith (sel_cur sel) (es_tracker (sr_server r)))
     \<and> pf_protocol (sr_fallback r) \<in> {HTTP2, sel_cur (es_selector (sr_server r))}"
proof -
  have sf: sf
  proof (rule ccontr)
    assume "\<not> sf"
    with assms(1,3) show False by (auto simp: after_wait_def)
  qed
  obtain sel where sel: "first_choice ins (es_selector es) = Ok (sel, sel_cur sel)" "sel_valid sel"
    using sel_Current_ok [OF assms(2)] unfolding first_choice_def by blast
  have run: "after_wait ins err sf conn es pf =
      (if HasConnectedWith (sel_cur sel) (es_tracker es)
       then Ok \<lparr>sr_err = err, sr_server = es\<lparr>es_selector := sel\<rparr>, sr_fallback = pf, sr_connected = conn\<rparr>
       else obind (selectNextProtocol (sv_later ins) (sv_sel2 ins) err pf sel)
         (\<lambda>(ok, pf', sel'). Ok \<lparr>sr_err = err, sr_server = es\<lparr>es_selector := sel'\<rparr>, sr_fallback = pf', sr_connected = conn\<rparr>))"
    using sf sel(1) by (simp add: after_wait_def first_choice_def Let_def)
  have n: "\<not> HasConnectedWith (sel_cur sel) (es_tracker es)"
    using run assms(1,3) by auto
  obtain ok pf' sel' where next': "selectNextProtocol (sv_later ins) (sv_sel2 ins) err pf sel = Ok (ok, pf', sel')"
      "pf_protocol pf' \<noteq> pf_protocol pf \<longrightarrow> pf_protocol pf' \<in> {HTTP2, sel_cur sel'}"
    using next_protocol_step [OF sel(2), of "sv_later ins" "sv_sel2 ins" err pf] by (auto split: if_splits)
  have r: "r = \<lparr>sr_err = err, sr_server = es\<lparr>es_selector := sel'\<rparr>, sr_fallback = pf', sr_connected = conn\<rparr>"
    using run n next'(1) assms(1) by simp
  show ?thesis using sf sel n next'(2) assms(3) by (auto simp: r)
qed

lemma serve_retry_change:
  assumes "serve_retry ins i err sf conn es pf = Ok r" and "sel_valid (es_selector es)"
    and "pf_protocol (sr_fallback r) \<noteq> pf_protocol pf"
  shows "sv_wait ins = WaitTimer \<and> sf \<and> (\<exists>sel. first_choice ins (es_selector es) = Ok (sel, sel_cur sel)
           \<and> \<not> HasConnectedWith (sel_cur sel) (es_tracker (sr_server r)))
     \<and> pf_protocol (sr_fallback r) \<in> {HTTP2, sel_cur (es_selector (sr_server r))}"
proof -
  obtain d ok where g: "GetMaxBackoffDuration (sv_ctx_done ins) (sv_later ins) (pf_backoff pf) = (d, ok)"
    by (cases "GetMaxBackoffDuration (sv_ctx_done ins) (sv_later ins) (pf_backoff pf)")
  have ok: ok using assms(1,3) g by (cases ok) (auto simp: serve_retry_def Let_def)
  obtain ch ct where d: "dispatch_n (sv_dispatched ins) (SendReconnect i (es_observer es)) (es_tracker es) = (ch, ct)"
    by (cases "dispatch_n (sv_dispatched ins) (SendReconnect i (es_observer es)) (es_tracker es)")
  let ?es = "es\<lparr>es_observer := ch, es_tracker := ct\<rparr>"
  obtain b t where b: "BackoffTimer (sv_later ins) (sv_rnd ins) (pf_backoff pf) = (Ok (b, t) :: (stuck, _) outcome)"
    using assms(1) g ok d by (auto simp: serve_retry_def Let_def obind_Ok_iff)
  have w: "sv_wait ins = WaitTimer"
    using assms(1,3) g ok d b by (cases "sv_wait ins") (auto simp: serve_retry_def Let_def)
  have "after_wait ins err sf conn ?es (pf\<lparr>pf_backoff := b\<rparr>) = Ok r"
    using assms(1) g ok d b w by (cases t) (auto simp: serve_retry_def Let_def)
  from after_wait_change [OF this] w assms(2,3) show ?thesis by simp
qed

text \<open>C25. 
  When an attempt changes the protocol of its connection, the backoff timer had fired, the tracker
  has no connection that succeeded with the protocol the selector favours, the error was recoverable
  or, for a network error, the address retries of this connection were used up; and the new protocol
  is HTTP2 or what the selector answers.
\<close>

theorem serve_changes_protocol_only_if:
  assumes "EdgeTunnelServer_Serve ip ins i pf es = Ok r" and "sel_valid (es_selector es)"
    and "pf_protocol (sr_fallback r) \<noteq> pf_protocol pf"
  shows "sv_wait ins = WaitTimer
    \<and> (\<exists>sel. first_choice ins (es_selector es) = Ok (sel, sel_cur sel)
         \<and> \<not> HasConnectedWith (sel_cur sel) (es_tracker (sr_server r)))
    \<and> pf_protocol (sr_fallback r) \<in> {HTTP2, sel_cur (es_selector (sr_server r))}
    \<and> (\<exists>a. fst (GetAddr (sv_iter ins) (sv_coin ins) (uint i) (edgeAddrs es)) = Inr a
         \<and> (if is_network_error (served_error ip ins i pf es a)
            then ipf_maxRetries (edgeAddrHandler es) \<le> retries_of (edgeAddrHandler es) i
            else snd (fst (serveTunnel (sv_attempt ins) (pf_protocol pf) (serve_stream ip i pf es a)))))"
proof -
  obtain res rs where g: "GetAddr (sv_iter ins) (sv_coin ins) (uint i) (edgeAddrs es) = (res, rs)"
    by (cases "GetAddr (sv_iter ins) (sv_coin ins) (uint i) (edgeAddrs es)")
  obtain a where a: "res = Inr a"
  proof (cases res)
    case (Inl e)
    with assms(1,3) g have False by (cases e) (auto simp: EdgeTunnelServer_Serve_def)
    then show ?thesis ..
  qed (use that in blast)
  obtain err rec c where t: "serveTunnel (sv_attempt ins) (pf_protocol pf) (serve_stream ip i pf es a) = ((err, rec), c)"
    by (cases "serveTunnel (sv_attempt ins) (pf_protocol pf) (serve_stream ip i pf es a)") auto
  obtain rot cErr h where h: "ShouldGetNewAddress i err (edgeAddrHandler es) = (rot, cErr, h)"
    by (cases "ShouldGetNewAddress i err (edgeAddrHandler es)") auto
  have pf1: "pf_protocol (cf_backoff (cs_connectedFuse c)) = pf_protocol pf"
    using serveTunnel_protocol [OF t] by (simp add: serve_stream_def NewControlStream_def)
  let ?sf = "if rot then (case cErr of Some ce \<Rightarrow> HasReachedMaxRetries ce | None \<Rightarrow> rec) else rec"
  have sf: "?sf \<Longrightarrow> if is_network_error err then ipf_maxRetries (edgeAddrHandler es) \<le> retries_of (edgeAddrHandler es) i else rec"
    using h by (auto simp: ShouldGetNewAddress_cases network_retry_def split: if_splits)
  have "\<exists>conn es1. serve_retry ins i err ?sf conn es1 (cf_backoff (cs_connectedFuse c)) = Ok r \<and> es_selector es1 = es_selector es"
  proof (cases rot)
    case False
    with assms(1) g a t h show ?thesis
      by (auto simp: EdgeTunnelServer_Serve_def Let_def) (rule exI conjI | assumption | simp)+
  next
    case True
    obtain res' rs' where d: "GetDifferentAddr (sv_iter2 ins) (sv_coin2 ins) (sv_now ins) (uint i) True rs = (res', rs')"
      by (cases "GetDifferentAddr (sv_iter2 ins) (sv_coin2 ins) (sv_now ins) (uint i) True rs")
    show ?thesis
    proof (cases res')
      case (Inl e)
      with assms(1,3) g a t h True d pf1 have False by (cases e) (auto simp: EdgeTunnelServer_Serve_def Let_def)
      then show ?thesis ..
    next
      case (Inr b)
      with assms(1) g a t h True d show ?thesis
        by (auto simp: EdgeTunnelServer_Serve_def Let_def) (rule exI conjI | assumption | simp)+
    qed
  qed
  then obtain conn es1 where "serve_retry ins i err ?sf conn es1 (cf_backoff (cs_connectedFuse c)) = Ok r"
      "es_selector es1 = es_selector es" by blast
  from serve_retry_change [OF this(1)] this(2) assms(2,3) pf1
  have "sv_wait ins = WaitTimer \<and> ?sf \<and> (\<exists>sel. first_choice ins (es_selector es) = Ok (sel, sel_cur sel)
           \<and> \<not> HasConnectedWith (sel_cur sel) (es_tracker (sr_server r)))
     \<and> pf_protocol (sr_fallback r) \<in> {HTTP2, sel_cur (es_selector (sr_server r))}" by simp
  moreover from this have "if is_network_error err then ipf_maxRetries (edgeAddrHandler es) \<le> retries_of (edgeAddrHandler es) i else rec"
    using sf by blast
  ultimately show ?thesis using g a t by (simp add: served_error_def)
qed

definition idle_dial :: attempt where
  "idle_dial = dial_failed\<lparr>at_dial := Some (EdgeQuicDialError (QuicIdleTimeoutError ''timeout''))\<rparr>"

theorem serve_changes_protocol_only_if_witness:
  "\<exists>r. EdgeTunnelServer_Serve (\<lambda>_. [10, 0, 0, 1]) (sample_serve idle_dial) 2 sample_fallback (sample_server 0) = Ok r
     \<and> pf_protocol (sr_fallback r) = HTTP2 \<and> sv_wait (sample_serve idle_dial) = WaitTimer"
proof -
  have "(case EdgeTunnelServer_Serve (\<lambda>_. [10, 0, 0, 1]) (sample_serve idle_dial) 2 sample_fallback (sample_server 0) of
      Ok r \<Rightarrow> pf_protocol (sr_fallback r) = HTTP2 | _ \<Rightarrow> False)" by code_simp
  then obtain r where r: "EdgeTunnelServer_Serve (\<lambda>_. [10, 0, 0, 1]) (sample_serve idle_dial) 2 sample_fallback (sample_server 0) = Ok r"
      "pf_protocol (sr_fallback r) = HTTP2"
    by (auto split: outcome.splits)
  have "sel_valid (es_selector (sample_server 0))" "pf_protocol (sr_fallback r) \<noteq> pf_protocol sample_fallback"
    using r(2) by (simp_all add: sample_server_def sample_fallback_def default_valid_def
        newDefaultProtocolSelector_def ProtocolList_def)
  from serve_changes_protocol_only_if [OF r(1) this] r show ?thesis by blast
qed

lemma serveQUIC_error:
  assumes "at_tls a = None" "at_dial a = None" "at_open a = None" "at_reconnect a = None"
    and "at_routines a \<noteq> []"
  shows "\<exists>c'. serveQUIC a c = ((Some (case hd (at_routines a) of ControlRoutine e \<Rightarrow> ControlStreamError
      | AcceptRoutine e \<Rightarrow> StreamListenerError | DatagramRoutine e \<Rightarrow> DatagramManagerError), False), c')"
proof -
  obtain r rs where r: "at_routines a = r # rs" using assms(5) by (cases "at_routines a") auto
  obtain e c' where run: "run_control a c = (e, c')" by (cases "run_control a c")
  have wait: "wait_both a (Some x) = Some x" for x
    using assms(4) by (simp add: wait_both_def)
  show ?thesis
    using assms(1-3) r run by (cases r) (simp_all add: serveQUIC_def quic_Serve_def wait)
qed

text \<open>
  The edge refuses a registration, as a duplicate or for good.  Over HTTP2 the supervisor sees the
  refusal: a duplicate asks for a new address, a permanent refusal is not recoverable.  Over QUIC the
  error of the routine that ended first stands in for it, always counted as recoverable and never
  asking for a new address.
\<close>

theorem quic_hides_registration_errors:
  assumes "at_tls a = None" "at_dial a = None" "at_open a = None" "at_reconnect a = None" "at_panic a = None"
    and "at_control a = Some ins" and "in_register ins = Inl (OtherError m)"
    and "at_routines a \<noteq> []" and "\<not> IsStopped c"
  shows "(\<exists>c'. serveTunnel a HTTP2 c =
            ((Some (if m = ''EDUPCONN'' then DupConnRegisterTunnelError else OtherError m), False), c'))
     \<and> fst (ShouldGetNewAddress i (fst (fst (serveTunnel a HTTP2 c))) f) = (m = ''EDUPCONN'')
     \<and> snd (fst (serveTunnel a QUIC c))
     \<and> fst (fst (serveTunnel a QUIC c)) \<in> {Some ControlStreamError, Some StreamListenerError, Some DatagramManagerError}
     \<and> fst (ShouldGetNewAddress i (fst (fst (serveTunnel a QUIC c))) f) = False"
proof -
  have wait: "wait_both a (Some x) = Some x" for x
    using assms(4) by (simp add: wait_both_def)
  have h: "\<exists>c'. serveTunnel a HTTP2 c =
            ((Some (if m = ''EDUPCONN'' then DupConnRegisterTunnelError else OtherError m), False), c')"
    using assms by (auto simp: serveTunnel_def serveConnection_def serveHTTP2_def run_control_def
        ServeControlStream_def DuplicateConnectionError_def http2_Serve_def wait Let_def)
  obtain c' where q: "serveQUIC a c = ((Some (case hd (at_routines a) of ControlRoutine e \<Rightarrow> ControlStreamError
      | AcceptRoutine e \<Rightarrow> StreamListenerError | DatagramRoutine e \<Rightarrow> DatagramManagerError), False), c')"
    using serveQUIC_error [OF assms(1-4,8)] by blast
  have "fst (serveTunnel a QUIC c) \<in> {(Some ControlStreamError, True), (Some StreamListenerError, True), (Some DatagramManagerError, True)}"
    using q assms(5) by (cases "hd (at_routines a)") (simp_all add: serveTunnel_def serveConnection_def)
  with h show ?thesis by (cases "m = ''EDUPCONN''") auto
qed

definition dup_attempt :: attempt where
  "dup_attempt = dial_failed\<lparr>at_dial := None, at_routines := [ControlRoutine None],
     at_control := Some (sample_inputs\<lparr>in_register := Inl (OtherError ''EDUPCONN'')\<rparr>)\<rparr>"

theorem quic_hides_registration_errors_witness:
  "fst (ShouldGetNewAddress 0 (fst (fst (serveTunnel dup_attempt HTTP2 sample_control))) (NewIPAddrFallback 3))
   \<and> \<not> fst (ShouldGetNewAddress 0 (fst (fst (serveTunnel dup_attempt QUIC sample_control))) (NewIPAddrFallback 3))"
  using quic_hides_registration_errors [of dup_attempt "sample_inputs\<lparr>in_register := Inl (OtherError ''EDUPCONN'')\<rparr>" "''EDUPCONN''"
      sample_control 0 "NewIPAddrFallback 3"]
  by (simp add: dup_attempt_def dial_failed_def sample_control_def NewControlStream_def IsStopped_def)

end
