(* ===== verification/Supervisor.thy ===== *)
theory Supervisor
  imports Edge_Server
begin

text \<open>
  \<^verbatim>\<open>supervisor/supervisor.go\<close>: the supervisor keeps a number of edge connections (tunnels) running.
  Every tunnel runs in a goroutine that ends by sending its error on \<^verbatim>\<open>tunnelErrors\<close>.  \<open>run_step\<close> is one
  turn of the \<^verbatim>\<open>select\<close> loop of \<^verbatim>\<open>Run\<close>: it returns the new state and the indices of the goroutines
  it starts.  The goroutines themselves are one attempt of \<^theory_text>\<open>Edge_Server\<close> each; here they are
  the environment of a step relation.
\<close>

subsection \<open>State\<close>

definition tunnelRetryDuration :: duration where
  "tunnelRetryDuration = 10 * second_ns"

text \<open>
  A connected signal is named by a number; \<open>nextSignal\<close> is the next unused one.  The Go map
  \<^verbatim>\<open>tunnelsConnecting\<close> is an association list read through an iteration order.
\<close>

record supervisor =
  tunnelsConnecting :: "(int \<times> nat) list"
  tunnelsProtocolFallback :: "int \<Rightarrow> protocolFallback option"
  nextConnectedIndex :: int
  nextConnectedSignal :: "nat option"
  nextSignal :: nat
  tunnelsWaiting :: "int list"
  tunnelsActive :: int
  sup_backoff :: backoff_handler
  backoffTimer :: "duration option"
  shuttingDown :: bool

definition map_delete :: "int \<Rightarrow> (int \<times> nat) list \<Rightarrow> (int \<times> nat) list" where
  "map_delete k m = filter (\<lambda>(j, v). j \<noteq> k) m"

definition newConnectedTunnelSignal :: "int \<Rightarrow> supervisor \<Rightarrow> supervisor" where
  "newConnectedTunnelSignal i s =
     s\<lparr>tunnelsConnecting := (i, nextSignal s) # map_delete i (tunnelsConnecting s),
       nextConnectedSignal := Some (nextSignal s), nextConnectedIndex := i, nextSignal := nextSignal s + 1\<rparr>"

text \<open>The loop body returns in its first iteration: it takes the first entry in iteration order.\<close>

type_synonym conn_iter = "(int \<times> nat) list \<Rightarrow> (int \<times> nat) list"

definition waitForNextTunnel :: "conn_iter \<Rightarrow> int \<Rightarrow> supervisor \<Rightarrow> bool \<times> supervisor" where
  "waitForNextTunnel it i s =
     (let s1 = s\<lparr>tunnelsConnecting := map_delete i (tunnelsConnecting s), nextConnectedSignal := None\<rparr>
      in case it (tunnelsConnecting s1) of
           [] \<Rightarrow> (False, s1)
         | (k, v) # rest \<Rightarrow> (True, s1\<lparr>nextConnectedIndex := k, nextConnectedSignal := Some v\<rparr>))"

subsection \<open>Starting\<close>

definition newProtocolFallback :: "u64 \<Rightarrow> Protocol \<Rightarrow> protocolFallback" where
  "newProtocolFallback retr p = \<lparr>pf_backoff = NewBackoff retr DefaultBaseTime True, pf_protocol = p, inFallback = False\<rparr>"

text \<open>
  What \<^verbatim>\<open>initialize\<close> waits for: the context, the first tunnel's error, the graceful shutdown, or the
  first connection.  Then it starts the remaining tunnels with the protocol of the first.
\<close>

datatype init_case = InitCtxDone conn_error | InitTunnelError "conn_error option" | InitGraceful | InitConnected

datatype init_error = EarlyShutdown | InitError conn_error

fun start_rest :: "u64 \<Rightarrow> int list \<Rightarrow> supervisor \<Rightarrow> (stuck, supervisor) outcome" where
  "start_rest retr [] s = Ok s"
| "start_rest retr (i # is) s =
     (case tunnelsProtocolFallback s 0 of
        None \<Rightarrow> Panic
      | Some pf0 \<Rightarrow>
          start_rest retr is
            (newConnectedTunnelSignal i
              (s\<lparr>tunnelsProtocolFallback := (tunnelsProtocolFallback s)(i \<mapsto> newProtocolFallback retr (pf_protocol pf0))\<rparr>)))"

definition initial_supervisor :: "u64 \<Rightarrow> Protocol \<Rightarrow> supervisor" where
  "initial_supervisor retr current =
     \<lparr>tunnelsConnecting = [], tunnelsProtocolFallback = (\<lambda>_. None)(0 \<mapsto> newProtocolFallback retr current),
      nextConnectedIndex = 0, nextConnectedSignal = None, nextSignal = 0, tunnelsWaiting = [], tunnelsActive = 0,
      sup_backoff = NewBackoff retr tunnelRetryDuration True, backoffTimer = None, shuttingDown = False\<rparr>"

text \<open>
  \<open>pf0\<close> is the first tunnel's fallback as its goroutine has left it when the choice is made.  The
  result is the state, the indices started (0 included) and the number of connections \<^verbatim>\<open>Run\<close> counts.
\<close>

definition initialize ::
    "u64 \<Rightarrow> Protocol \<Rightarrow> int \<Rightarrow> int \<Rightarrow> init_case \<Rightarrow> protocolFallback
     \<Rightarrow> (stuck, (init_error option) \<times> supervisor \<times> int list \<times> int) outcome" where
  "initialize retr current haConnections availableAddrs choice pf0 =
     (let ha = (if haConnections > availableAddrs then availableAddrs else haConnections);
          s0 = initial_supervisor retr current;
          s1 = s0\<lparr>tunnelsProtocolFallback := (tunnelsProtocolFallback s0)(0 \<mapsto> pf0)\<rparr>
      in case choice of
           InitCtxDone e \<Rightarrow> Ok (Some (InitError e), s1, [], ha)
         | InitTunnelError (Some e) \<Rightarrow> Ok (Some (InitError e), s1, [], ha)
         | InitTunnelError None \<Rightarrow> Ok (None, s1, [], ha)
         | InitGraceful \<Rightarrow> Ok (Some EarlyShutdown, s1, [0], ha)
         | InitConnected \<Rightarrow>
             obind (start_rest retr [1..ha - 1] s1) (\<lambda>s2. Ok (None, s2, 0 # [1..ha - 1], ha)))"

text \<open>
  The errors \<^verbatim>\<open>startFirstTunnel\<close> tries again after, and its loop over what the attempts returned:
  each entry is the error, whether the context was done and whether the backoff still allowed a retry.
\<close>

fun first_tunnel_retries :: "bool \<Rightarrow> conn_error \<Rightarrow> bool" where
  "first_tunnel_retries isStaticEdge e =
     (if str_contains (err_message e) ''Unauthorized'' then True
      else case e of
             NoAddressesLeft \<Rightarrow> isStaticEdge
           | DupConnRegisterTunnelError \<Rightarrow> True
           | QuicIdleTimeoutError m \<Rightarrow> True
           | QuicApplicationError m \<Rightarrow> True
           | DialError c \<Rightarrow> True
           | EdgeQuicDialError c \<Rightarrow> True
           | ControlStreamError \<Rightarrow> True
           | StreamListenerError \<Rightarrow> True
           | DatagramManagerError \<Rightarrow> True
           | _ \<Rightarrow> False)"

fun startFirstTunnel :: "bool \<Rightarrow> (conn_error option \<times> bool \<times> bool) list \<Rightarrow> conn_error option option" where
  "startFirstTunnel isStaticEdge [] = None"
| "startFirstTunnel isStaticEdge ((err, ctx_done, retry) # attempts) =
     (if ctx_done then Some err
      else case err of
             None \<Rightarrow> Some None
           | Some e \<Rightarrow>
               if \<not> retry then Some err
               else if first_tunnel_retries isStaticEdge e then startFirstTunnel isStaticEdge attempts
               else Some err)"

subsection \<open>The loop\<close>

text \<open>
  The cases of the \<^verbatim>\<open>select\<close>.  A tunnel error carries the protocol fallback as its goroutine left it,
  which the supervisor shares.
\<close>

datatype run_event =
    EvCtxDone
  | EvTunnelError int "conn_error option" protocolFallback
  | EvBackoffTimer
  | EvNextConnected
  | EvGracefulShutdown

record run_inputs =
  ri_now :: int
  ri_rnd :: "int \<Rightarrow> int"
  ri_ctx_done :: bool
  ri_iter :: conn_iter

datatype run_result = Running supervisor "int list" | Returned supervisor

definition start_tunnels :: "int list \<Rightarrow> supervisor \<Rightarrow> supervisor" where
  "start_tunnels is s = fold newConnectedTunnelSignal is s"

definition queue_tunnel :: "run_inputs \<Rightarrow> int \<Rightarrow> supervisor \<Rightarrow> (stuck, run_result) outcome" where
  "queue_tunnel ri i s =
     (let s1 = s\<lparr>tunnelsWaiting := tunnelsWaiting s @ [i]\<rparr>;
          s2 = snd (waitForNextTunnel (ri_iter ri) i s1)
      in if backoffTimer s2 = None
         then obind (BackoffTimer (ri_now ri) (ri_rnd ri) (sup_backoff s2))
                (\<lambda>(b, t). Ok (Running (s2\<lparr>sup_backoff := b, backoffTimer := t\<rparr>) []))
         else Ok (Running s2 []))"

definition tunnel_ended ::
    "run_inputs \<Rightarrow> int \<Rightarrow> conn_error option \<Rightarrow> supervisor \<Rightarrow> (stuck, run_result) outcome" where
  "tunnel_ended ri i err s0 =
     (let s = s0\<lparr>tunnelsActive := tunnelsActive s0 - 1\<rparr>
      in if err \<noteq> None \<and> \<not> shuttingDown s
         then (case err of
                 Some (ReconnectSignal d) \<Rightarrow>
                   let s1 = newConnectedTunnelSignal i s
                   in Ok (Running (s1\<lparr>tunnelsActive := tunnelsActive s1 + 1\<rparr>) [i])
               | _ \<Rightarrow>
                   (case tunnelsProtocolFallback s i of
                      None \<Rightarrow> Panic
                    | Some pf \<Rightarrow>
                        if \<not> snd (GetMaxBackoffDuration (ri_ctx_done ri) (ri_now ri) (pf_backoff pf))
                        then Ok (Running s [])
                        else queue_tunnel ri i s))
         else if tunnelsActive s = 0 then Ok (Returned s)
         else Ok (Running s []))"

fun run_step :: "run_inputs \<Rightarrow> run_event \<Rightarrow> supervisor \<Rightarrow> (stuck, run_result) outcome" where
  "run_step ri EvCtxDone s = Ok (Returned (s\<lparr>tunnelsActive := min 0 (tunnelsActive s)\<rparr>))"
| "run_step ri (EvTunnelError i err pf) s =
     tunnel_ended ri i err (s\<lparr>tunnelsProtocolFallback := (tunnelsProtocolFallback s)(i \<mapsto> pf)\<rparr>)"
| "run_step ri EvBackoffTimer s =
     (let waiting = tunnelsWaiting s;
          s1 = start_tunnels waiting (s\<lparr>backoffTimer := None\<rparr>)
      in Ok (Running (s1\<lparr>tunnelsActive := tunnelsActive s1 + int (length waiting), tunnelsWaiting := []\<rparr>) waiting))"
| "run_step ri EvNextConnected s =
     (let (again, s1) = waitForNextTunnel (ri_iter ri) (nextConnectedIndex s) s
      in if \<not> again \<and> tunnelsWaiting s1 = []
         then obind (SetGracePeriod (ri_now ri) (ri_rnd ri) (sup_backoff s1))
                (\<lambda>(b, d). Ok (Running (s1\<lparr>sup_backoff := b\<rparr>) []))
         else Ok (Running s1 []))"
| "run_step ri EvGracefulShutdown s = Ok (Running (s\<lparr>shuttingDown := True\<rparr>) [])"

subsection \<open>The connected signals\<close>

definition conn_iter_ok :: "conn_iter \<Rightarrow> bool" where
  "conn_iter_ok it = (\<forall>m. set (it m) = set m)"

text \<open>
  The supervisor waits for a signal exactly while some tunnel is connecting, and then for one of
  theirs.
\<close>

definition signals_ok :: "supervisor \<Rightarrow> bool" where
  "signals_ok s =
     (distinct (map fst (tunnelsConnecting s))
      \<and> (case nextConnectedSignal s of
           None \<Rightarrow> tunnelsConnecting s = []
         | Some v \<Rightarrow> (nextConnectedIndex s, v) \<in> set (tunnelsConnecting s)))"

lemma signals_ok_update [simp]:
  "signals_ok (s\<lparr>tunnelsProtocolFallback := a\<rparr>) = signals_ok s"
  "signals_ok (s\<lparr>tunnelsWaiting := b\<rparr>) = signals_ok s"
  "signals_ok (s\<lparr>tunnelsActive := c\<rparr>) = signals_ok s"
  "signals_ok (s\<lparr>sup_backoff := d\<rparr>) = signals_ok s"
  "signals_ok (s\<lparr>backoffTimer := e\<rparr>) = signals_ok s"
  "signals_ok (s\<lparr>shuttingDown := f\<rparr>) = signals_ok s"
  by (auto simp: signals_ok_def split: option.split)

lemma map_delete_fst: "map fst (map_delete k m) = filter (\<lambda>j. j \<noteq> k) (map fst m)"
  by (induction m) (auto simp: map_delete_def)

lemma map_delete_keys: "fst ` set (map_delete k m) = fst ` set m - {k}"
  by (auto simp: map_delete_def)

lemma newConnectedTunnelSignal_signals [inv_intros]:
  "signals_ok s \<Longrightarrow> signals_ok (newConnectedTunnelSignal i s)"
  by (simp add: signals_ok_def newConnectedTunnelSignal_def map_delete_fst map_delete_keys)

lemma start_tunnels_signals [inv_intros]: "signals_ok s \<Longrightarrow> signals_ok (start_tunnels is s)"
  unfolding start_tunnels_def by (induction "is" arbitrary: s) (simp_all add: newConnectedTunnelSignal_signals)

lemma waitForNextTunnel_signals:
  assumes "signals_ok s" and "conn_iter_ok it" and "waitForNextTunnel it i s = (again, s')"
  shows "signals_ok s'" and "again \<longleftrightarrow> tunnelsConnecting s' \<noteq> []"
proof -
  let ?m = "map_delete i (tunnelsConnecting s)"
  have d: "distinct (map fst ?m)" using assms(1) by (simp add: signals_ok_def map_delete_fst)
  have "signals_ok s' \<and> (again \<longleftrightarrow> tunnelsConnecting s' \<noteq> [])"
  proof (cases "it ?m")
    case Nil
    then have "?m = []" using assms(2) by (metis conn_iter_ok_def set_empty)
    with Nil assms(3) show ?thesis by (auto simp: waitForNextTunnel_def Let_def signals_ok_def)
  next
    case (Cons kv rest)
    obtain k v where kv: "kv = (k, v)" by (cases kv)
    have "(k, v) \<in> set ?m" using assms(2) Cons kv by (metis conn_iter_ok_def list.set_intros(1))
    with Cons kv d assms(3) show ?thesis
      by (auto simp: waitForNextTunnel_def Let_def signals_ok_def)
  qed
  then show "signals_ok s'" "again \<longleftrightarrow> tunnelsConnecting s' \<noteq> []" by simp_all
qed

text \<open>What the signal operations leave alone.\<close>

definition same_tunnels :: "supervisor \<Rightarrow> supervisor \<Rightarrow> bool" where
  "same_tunnels s s' =
     (tunnelsWaiting s' = tunnelsWaiting s \<and> tunnelsActive s' = tunnelsActive s
      \<and> tunnelsProtocolFallback s' = tunnelsProtocolFallback s \<and> sup_backoff s' = sup_backoff s
      \<and> backoffTimer s' = backoffTimer s \<and> shuttingDown s' = shuttingDown s)"

lemma same_tunnels_refl: "same_tunnels s s"
  by (simp add: same_tunnels_def)

lemma same_tunnels_trans: "\<lbrakk>same_tunnels s s'; same_tunnels s' s''\<rbrakk> \<Longrightarrow> same_tunnels s s''"
  by (simp add: same_tunnels_def)

lemma newConnectedTunnelSignal_same: "same_tunnels s (newConnectedTunnelSignal i s)"
  by (simp add: same_tunnels_def newConnectedTunnelSignal_def)

lemma start_tunnels_same: "same_tunnels s (start_tunnels is s)"
  unfolding start_tunnels_def
proof (induction "is" arbitrary: s)
  case Nil
  then show ?case by (simp add: same_tunnels_refl)
next
  case (Cons i "is")
  then show ?case
    using same_tunnels_trans [OF newConnectedTunnelSignal_same [of s i]] by simp
qed

lemma waitForNextTunnel_same: "same_tunnels s (snd (waitForNextTunnel it i s))"
  by (simp add: waitForNextTunnel_def Let_def same_tunnels_def split: list.split)

subsection \<open>The system\<close>

text \<open>
  The supervisor with the indices whose goroutine has not delivered its error.  The label of a step
  is the event; a goroutine ends only once, the timer fires only while armed, and the connected case
  is taken only while a signal is awaited.
\<close>

inductive sup_step :: "supervisor \<times> int list \<Rightarrow> run_inputs \<times> run_event \<Rightarrow> supervisor \<times> int list \<Rightarrow> bool" where
  ended: "\<lbrakk>i \<in> set running; conn_iter_ok (ri_iter ri);
           run_step ri (EvTunnelError i err pf) s = Ok (Running s' started)\<rbrakk>
          \<Longrightarrow> sup_step (s, running) (ri, EvTunnelError i err pf) (s', remove1 i running @ started)"
| fired: "\<lbrakk>backoffTimer s \<noteq> None; run_step ri EvBackoffTimer s = Ok (Running s' started)\<rbrakk>
          \<Longrightarrow> sup_step (s, running) (ri, EvBackoffTimer) (s', running @ started)"
| connected: "\<lbrakk>nextConnectedSignal s \<noteq> None; conn_iter_ok (ri_iter ri);
               run_step ri EvNextConnected s = Ok (Running s' started)\<rbrakk>
          \<Longrightarrow> sup_step (s, running) (ri, EvNextConnected) (s', running @ started)"
| graceful: "run_step ri EvGracefulShutdown s = Ok (Running s' started)
          \<Longrightarrow> sup_step (s, running) (ri, EvGracefulShutdown) (s', running @ started)"

inductive_cases sup_step_endedE: "sup_step (s, running) (ri, EvTunnelError i err pf) c"
inductive_cases sup_step_firedE: "sup_step (s, running) (ri, EvBackoffTimer) c"
inductive_cases sup_step_connectedE: "sup_step (s, running) (ri, EvNextConnected) c"
inductive_cases sup_step_gracefulE: "sup_step (s, running) (ri, EvGracefulShutdown) c"

inductive sup_steps :: "supervisor \<times> int list \<Rightarrow> (run_inputs \<times> run_event) list \<Rightarrow> supervisor \<times> int list \<Rightarrow> bool" where
  steps_none: "sup_steps c [] c"
| steps_snoc: "\<lbrakk>sup_steps c ls c'; sup_step c' l c''\<rbrakk> \<Longrightarrow> sup_steps c (ls @ [l]) c''"

definition sup_inv :: "int set \<Rightarrow> supervisor \<times> int list \<Rightarrow> bool" where
  "sup_inv idx c =
     (case c of (s, running) \<Rightarrow>
        tunnelsActive s = int (length running)
        \<and> distinct (running @ tunnelsWaiting s)
        \<and> set running \<union> set (tunnelsWaiting s) \<subseteq> idx
        \<and> (tunnelsWaiting s \<noteq> [] \<longrightarrow> backoffTimer s \<noteq> None)
        \<and> retryForever (sup_backoff s)
        \<and> signals_ok s)"

lemma BackoffTimer_forever:
  "\<lbrakk>BackoffTimer now rnd b = Ok (b', t); retryForever b\<rbrakk> \<Longrightarrow> t \<noteq> None \<and> retryForever b'"
  by (auto simp: BackoffTimer_def arm_timer_def reset_if_due_def obind_Ok_iff Let_def split: if_splits)

lemma SetGracePeriod_forever:
  "\<lbrakk>SetGracePeriod now rnd b = Ok (b', d); retryForever b\<rbrakk> \<Longrightarrow> retryForever b'"
  by (auto simp: SetGracePeriod_def obind_Ok_iff)

lemma remove1_length: "i \<in> set xs \<Longrightarrow> int (length (remove1 i xs)) = int (length xs) - 1"
  using length_pos_if_in_set [of i xs] by (simp add: length_remove1 of_nat_diff Suc_le_eq)

text \<open>
  What a tunnel's end does to the tunnels: restart at once after a reconnect signal, queue, or drop.
\<close>

lemma queue_tunnel_Running:
  assumes "queue_tunnel ri i s = Ok res" and "conn_iter_ok (ri_iter ri)"
    and "retryForever (sup_backoff s)" and "signals_ok s"
  shows "\<exists>s'. res = Running s' [] \<and> tunnelsWaiting s' = tunnelsWaiting s @ [i] \<and> tunnelsActive s' = tunnelsActive s
     \<and> backoffTimer s' \<noteq> None \<and> retryForever (sup_backoff s') \<and> signals_ok s' \<and> shuttingDown s' = shuttingDown s"
proof -
  let ?s1 = "s\<lparr>tunnelsWaiting := tunnelsWaiting s @ [i]\<rparr>"
  obtain again s2 where w: "waitForNextTunnel (ri_iter ri) i ?s1 = (again, s2)"
    by (cases "waitForNextTunnel (ri_iter ri) i ?s1")
  have same: "same_tunnels ?s1 s2" using waitForNextTunnel_same [of ?s1 "ri_iter ri" i] w by simp
  have "signals_ok ?s1" using assms(4) by simp
  then have sig: "signals_ok s2" using waitForNextTunnel_signals(1) [OF _ assms(2) w] by blast
  show ?thesis
  proof (cases "backoffTimer s2")
    case (Some d)
    with assms(1) w have "res = Running s2 []" by (auto simp: queue_tunnel_def Let_def)
    moreover have "backoffTimer s2 \<noteq> None" using Some by simp
    ultimately show ?thesis
      using assms(3) same sig by (intro exI [of _ s2] conjI) (simp_all add: same_tunnels_def)
  next
    case None
    with assms(1) w obtain b t where b: "BackoffTimer (ri_now ri) (ri_rnd ri) (sup_backoff s2) = (Ok (b, t) :: (stuck, _) outcome)"
        "res = Running (s2\<lparr>sup_backoff := b, backoffTimer := t\<rparr>) []"
      by (auto simp: queue_tunnel_def Let_def obind_Ok_iff)
    have "t \<noteq> None \<and> retryForever b"
      using BackoffTimer_forever [OF b(1)] same assms(3) by (simp add: same_tunnels_def)
    with b(2) same sig show ?thesis by (simp add: same_tunnels_def)
  qed
qed

lemma tunnel_ended_cases:
  assumes "tunnel_ended ri i err s = Ok res" and "conn_iter_ok (ri_iter ri)"
    and "retryForever (sup_backoff s)" and "signals_ok s"
  shows "(\<exists>s'. res = Running s' [i] \<and> tunnelsWaiting s' = tunnelsWaiting s \<and> tunnelsActive s' = tunnelsActive s
            \<and> backoffTimer s' = backoffTimer s \<and> retryForever (sup_backoff s') \<and> signals_ok s'
            \<and> \<not> shuttingDown s \<and> (\<exists>d. err = Some (ReconnectSignal d)))
     \<or> (\<exists>s'. res = Running s' [] \<and> tunnelsWaiting s' = tunnelsWaiting s @ [i] \<and> tunnelsActive s' = tunnelsActive s - 1
            \<and> backoffTimer s' \<noteq> None \<and> retryForever (sup_backoff s') \<and> signals_ok s' \<and> \<not> shuttingDown s)
     \<or> (\<exists>s'. (res = Running s' [] \<or> res = Returned s' \<and> tunnelsActive s' = 0)
            \<and> tunnelsWaiting s' = tunnelsWaiting s \<and> tunnelsActive s' = tunnelsActive s - 1
            \<and> backoffTimer s' = backoffTimer s \<and> retryForever (sup_backoff s') \<and> signals_ok s'
            \<and> (err = None \<or> shuttingDown s \<or>
               (\<exists>pf. tunnelsProtocolFallback s i = Some pf
                  \<and> \<not> snd (GetMaxBackoffDuration (ri_ctx_done ri) (ri_now ri) (pf_backoff pf)))))"
proof -
  let ?s = "s\<lparr>tunnelsActive := tunnelsActive s - 1\<rparr>"
  have sig: "signals_ok ?s" using assms(4) by simp
  show ?thesis
  proof (cases "err \<noteq> None \<and> \<not> shuttingDown s")
    case False
    with assms sig show ?thesis by (auto simp: tunnel_ended_def Let_def split: if_splits)
  next
    case up: True
    show ?thesis
    proof (cases "\<exists>d. err = Some (ReconnectSignal d)")
      case True
      let ?n = "newConnectedTunnelSignal i ?s"
      have "res = Running (?n\<lparr>tunnelsActive := tunnelsActive ?n + 1\<rparr>) [i]"
        using assms(1) up True by (auto simp: tunnel_ended_def Let_def)
      moreover have "signals_ok (?n\<lparr>tunnelsActive := tunnelsActive ?n + 1\<rparr>)"
        using newConnectedTunnelSignal_signals [OF sig, of i] by simp
      moreover have "same_tunnels ?s ?n" by (rule newConnectedTunnelSignal_same)
      ultimately show ?thesis using up True assms(3) by (simp add: same_tunnels_def)
    next
      case False
      then have t: "tunnel_ended ri i err s =
          (case tunnelsProtocolFallback ?s i of
             None \<Rightarrow> Panic
           | Some pf \<Rightarrow>
               if \<not> snd (GetMaxBackoffDuration (ri_ctx_done ri) (ri_now ri) (pf_backoff pf))
               then Ok (Running ?s []) else queue_tunnel ri i ?s)"
        using up by (auto simp: tunnel_ended_def Let_def split: conn_error.split)
      obtain pf where pf: "tunnelsProtocolFallback s i = Some pf"
        using assms(1) t by (cases "tunnelsProtocolFallback s i") auto
      show ?thesis
      proof (cases "snd (GetMaxBackoffDuration (ri_ctx_done ri) (ri_now ri) (pf_backoff pf))")
        case False
        with assms t pf sig show ?thesis by auto
      next
        case True
        with assms(1) t pf have "queue_tunnel ri i ?s = Ok res" by simp
        from queue_tunnel_Running [OF this assms(2) _ sig] assms(3) up show ?thesis by auto
      qed
    qed
  qed
qed

text \<open>One step keeps the invariant, and says what became of each tunnel.\<close>

lemma sup_step_inv:
  assumes "sup_step (s, running) (ri, ev) (s', running')" and "sup_inv idx (s, running)"
  shows "sup_inv idx (s', running')
    \<and> (\<forall>j. j \<in> set running \<union> set (tunnelsWaiting s) \<and> j \<notin> set running' \<union> set (tunnelsWaiting s')
         \<longrightarrow> (\<exists>err pf. ev = EvTunnelError j err pf
               \<and> (err = None \<or> shuttingDown s \<or> \<not> snd (GetMaxBackoffDuration (ri_ctx_done ri) (ri_now ri) (pf_backoff pf)))))"
  using assms(1)
proof cases
  case (ended i err pf started)
  let ?s = "s\<lparr>tunnelsProtocolFallback := (tunnelsProtocolFallback s)(i \<mapsto> pf)\<rparr>"
  have t: "tunnel_ended ri i err ?s = Ok (Running s' started)" using ended by simp
  have f: "retryForever (sup_backoff ?s)" "signals_ok ?s"
    using assms(2) by (simp_all add: sup_inv_def)
  have inv: "tunnelsActive s = int (length running)" "distinct (running @ tunnelsWaiting s)"
      "set running \<union> set (tunnelsWaiting s) \<subseteq> idx" "tunnelsWaiting s \<noteq> [] \<longrightarrow> backoffTimer s \<noteq> None"
    using assms(2) by (simp_all add: sup_inv_def)
  have r: "int (length (remove1 i running)) = int (length running) - 1" "set (remove1 i running) = set running - {i}"
    using remove1_length [OF ended(3)] inv(2) by simp_all
  from tunnel_ended_cases [OF t ended(4) f] show ?thesis
    using inv r ended by (auto simp: sup_inv_def)
next
  case (fired started)
  let ?s = "start_tunnels (tunnelsWaiting s) (s\<lparr>backoffTimer := None\<rparr>)"
  have same: "same_tunnels (s\<lparr>backoffTimer := None\<rparr>) ?s" by (rule start_tunnels_same)
  have sig: "signals_ok ?s"
    using assms(2) by (intro start_tunnels_signals) (simp add: sup_inv_def)
  have "s' = ?s\<lparr>tunnelsActive := tunnelsActive ?s + int (length (tunnelsWaiting s)), tunnelsWaiting := []\<rparr>"
    and "started = tunnelsWaiting s"
    using fired by (auto simp: Let_def)
  with fired same sig assms(2) show ?thesis
    by (auto simp: sup_inv_def same_tunnels_def)
next
  case (connected started)
  obtain again s1 where w: "waitForNextTunnel (ri_iter ri) (nextConnectedIndex s) s = (again, s1)"
    by (cases "waitForNextTunnel (ri_iter ri) (nextConnectedIndex s) s")
  have same: "same_tunnels s s1" using waitForNextTunnel_same [of s "ri_iter ri" "nextConnectedIndex s"] w by simp
  have sig: "signals_ok s1"
    using waitForNextTunnel_signals(1) [OF _ connected(4) w] assms(2) by (simp add: sup_inv_def)
  have "started = [] \<and> (s' = s1 \<or> (\<exists>b d. SetGracePeriod (ri_now ri) (ri_rnd ri) (sup_backoff s1) = (Ok (b, d) :: (stuck, _) outcome)
      \<and> s' = s1\<lparr>sup_backoff := b\<rparr>))"
    using connected w by (auto simp: Let_def obind_Ok_iff split: if_splits)
  with connected same sig assms(2) show ?thesis
    by (auto simp: sup_inv_def same_tunnels_def dest: SetGracePeriod_forever)
next
  case (graceful started)
  with assms(2) show ?thesis by (auto simp: sup_inv_def)
qed

lemma sup_step_shutdown:
  assumes "sup_step (s, running) (ri, ev) (s', running')" and "ev \<noteq> EvGracefulShutdown"
  shows "shuttingDown s' = shuttingDown s"
  using assms(1)
proof cases
  case (ended i err pf started)
  have w: "shuttingDown (snd (waitForNextTunnel it i u)) = shuttingDown u" for it u
    using waitForNextTunnel_same [of u it i] by (simp add: same_tunnels_def)
  have n: "shuttingDown (newConnectedTunnelSignal i u) = shuttingDown u" for u
    using newConnectedTunnelSignal_same [of u i] by (simp add: same_tunnels_def)
  from ended(5) show ?thesis
    by (auto simp: tunnel_ended_def queue_tunnel_def Let_def obind_Ok_iff w n
        split: if_splits conn_error.splits option.splits)
next
  case (fired started)
  then show ?thesis
    using start_tunnels_same [of "s\<lparr>backoffTimer := None\<rparr>" "tunnelsWaiting s"]
    by (auto simp: Let_def same_tunnels_def)
next
  case (connected started)
  then show ?thesis
    using waitForNextTunnel_same [of s "ri_iter ri" "nextConnectedIndex s"]
    by (auto simp: Let_def obind_Ok_iff same_tunnels_def split: prod.splits if_splits)
qed (use assms(2) in simp)

subsection \<open>Starting\<close>

lemma start_rest_ok:
  assumes "tunnelsProtocolFallback s 0 = Some pf" and "0 \<notin> set is" and "signals_ok s"
  shows "\<exists>s'. start_rest retr is s = Ok s' \<and> signals_ok s' \<and> tunnelsWaiting s' = tunnelsWaiting s
     \<and> sup_backoff s' = sup_backoff s \<and> shuttingDown s' = shuttingDown s
     \<and> (\<forall>j. tunnelsProtocolFallback s' j =
          (if j \<in> set is then Some (newProtocolFallback retr (pf_protocol pf)) else tunnelsProtocolFallback s j))"
  using assms
proof (induction "is" arbitrary: s)
  case Nil
  then show ?case by simp
next
  case (Cons i "is")
  let ?s = "s\<lparr>tunnelsProtocolFallback := (tunnelsProtocolFallback s)(i \<mapsto> newProtocolFallback retr (pf_protocol pf))\<rparr>"
  let ?n = "newConnectedTunnelSignal i ?s"
  have same: "same_tunnels ?s ?n" by (rule newConnectedTunnelSignal_same)
  have sig: "signals_ok ?n" using Cons.prems(3) by (simp add: newConnectedTunnelSignal_signals)
  have "tunnelsProtocolFallback ?n 0 = Some pf" "0 \<notin> set is"
    using Cons.prems same by (auto simp: same_tunnels_def)
  from Cons.IH [OF this sig] obtain s' where s': "start_rest retr is ?n = Ok s'" "signals_ok s'"
      "tunnelsWaiting s' = tunnelsWaiting ?n" "sup_backoff s' = sup_backoff ?n" "shuttingDown s' = shuttingDown ?n"
      "\<forall>j. tunnelsProtocolFallback s' j =
          (if j \<in> set is then Some (newProtocolFallback retr (pf_protocol pf)) else tunnelsProtocolFallback ?n j)"
    by blast
  have "start_rest retr (i # is) s = Ok s'" using Cons.prems(1) s'(1) by simp
  with s' same show ?case by (intro exI [of _ s']) (auto simp: same_tunnels_def)
qed

lemma initialize_connected:
  "\<exists>s. initialize retr current hac avail InitConnected pf0
        = Ok (None, s, 0 # [1..min hac avail - 1], min hac avail)
     \<and> signals_ok s \<and> tunnelsWaiting s = [] \<and> retryForever (sup_backoff s) \<and> \<not> shuttingDown s
     \<and> tunnelsProtocolFallback s 0 = Some pf0
     \<and> (\<forall>j \<in> {1..<min hac avail}. tunnelsProtocolFallback s j = Some (newProtocolFallback retr (pf_protocol pf0)))"
proof -
  let ?s0 = "initial_supervisor retr current"
  let ?s1 = "?s0\<lparr>tunnelsProtocolFallback := (tunnelsProtocolFallback ?s0)(0 \<mapsto> pf0)\<rparr>"
  have "signals_ok ?s1" by (simp add: initial_supervisor_def signals_ok_def)
  moreover have "0 \<notin> set [1..min hac avail - 1]" by simp
  ultimately obtain s where s: "start_rest retr [1..min hac avail - 1] ?s1 = Ok s" "signals_ok s"
      "tunnelsWaiting s = tunnelsWaiting ?s1" "sup_backoff s = sup_backoff ?s1" "shuttingDown s = shuttingDown ?s1"
      "\<forall>j. tunnelsProtocolFallback s j = (if j \<in> set [1..min hac avail - 1]
          then Some (newProtocolFallback retr (pf_protocol pf0)) else tunnelsProtocolFallback ?s1 j)"
    using start_rest_ok [of ?s1 pf0 "[1..min hac avail - 1]" retr] by fastforce
  have ha: "(if avail < hac then avail else hac) = min hac avail" by simp
  show ?thesis
    using s unfolding initialize_def Let_def ha
    by (intro exI [of _ s]) (auto simp: initial_supervisor_def NewBackoff_def)
qed

subsection \<open>Properties\<close>

text \<open>
  A step at which no tunnel may be given up: the tunnel that ends does so with an error and its
  backoff still allows a retry, and no shutdown is asked for.
\<close>

fun keeps_tunnels :: "run_inputs \<times> run_event \<Rightarrow> bool" where
  "keeps_tunnels (ri, EvTunnelError i err pf) =
     (err \<noteq> None \<and> snd (GetMaxBackoffDuration (ri_ctx_done ri) (ri_now ri) (pf_backoff pf)))"
| "keeps_tunnels (ri, EvGracefulShutdown) = False"
| "keeps_tunnels (ri, _) = True"

lemma sup_steps_inv:
  assumes "sup_steps c ls c'" and "sup_inv idx c"
  shows "sup_inv idx c' \<and> (list_all keeps_tunnels ls \<and> \<not> shuttingDown (fst c)
     \<and> set (snd c) \<union> set (tunnelsWaiting (fst c)) = idx
     \<longrightarrow> \<not> shuttingDown (fst c') \<and> set (snd c') \<union> set (tunnelsWaiting (fst c')) = idx)"
  using assms
proof (induction rule: sup_steps.induct)
  case (steps_none c)
  then show ?case by simp
next
  case (steps_snoc c ls c' l c'')
  obtain s running where c': "c' = (s, running)" by (cases c')
  obtain s' running' where c'': "c'' = (s', running')" by (cases c'')
  obtain ri ev where l: "l = (ri, ev)" by (cases l)
  have step: "sup_step (s, running) (ri, ev) (s', running')" using steps_snoc.hyps c' c'' l by simp
  have inv: "sup_inv idx (s, running)" using steps_snoc.IH steps_snoc.prems c' by simp
  note S = sup_step_inv [OF step inv]
  have "\<not> shuttingDown s' \<and> set running' \<union> set (tunnelsWaiting s') = idx"
    if k: "keeps_tunnels (ri, ev)" and ns: "\<not> shuttingDown s" and all: "set running \<union> set (tunnelsWaiting s) = idx"
  proof -
    have ev: "ev \<noteq> EvGracefulShutdown" using k by auto
    have "idx \<subseteq> set running' \<union> set (tunnelsWaiting s')"
    proof
      fix j
      assume "j \<in> idx"
      show "j \<in> set running' \<union> set (tunnelsWaiting s')"
      proof (rule ccontr)
        assume "j \<notin> set running' \<union> set (tunnelsWaiting s')"
        with S all \<open>j \<in> idx\<close> obtain err pf where "ev = EvTunnelError j err pf"
            "err = None \<or> shuttingDown s \<or> \<not> snd (GetMaxBackoffDuration (ri_ctx_done ri) (ri_now ri) (pf_backoff pf))"
          by blast
        with k ns show False by simp
      qed
    qed
    with S sup_step_shutdown [OF step ev] ns show ?thesis by (auto simp: sup_inv_def)
  qed
  with S steps_snoc.IH steps_snoc.prems c' c'' l show ?case by simp
qed

text \<open>C19. 
  The tunnels over any run of the supervisor, started by the first connection with at least one
  connection to keep: it counts exactly the goroutines that run, no index runs or waits twice or is out
  of range, a waiting tunnel always has the backoff timer armed, and the awaited signal is one of a
  connecting tunnel.  As long as no tunnel ends without an error, is refused a retry, or a shutdown is
  asked for, every tunnel runs or waits: none is lost.
\<close>

theorem supervisor_loses_no_tunnel:
  assumes "initialize retr current hac avail InitConnected pf0 = Ok (None, s0, started, ha)"
    and "1 \<le> ha" and "sup_steps (s0\<lparr>tunnelsActive := ha\<rparr>, started) ls (s, running)"
  shows "ha = min hac avail \<and> tunnelsActive s = int (length running)
    \<and> distinct (running @ tunnelsWaiting s) \<and> set running \<union> set (tunnelsWaiting s) \<subseteq> {0..<ha}
    \<and> (tunnelsWaiting s \<noteq> [] \<longrightarrow> backoffTimer s \<noteq> None)
    \<and> (nextConnectedSignal s = None \<longleftrightarrow> tunnelsConnecting s = [])
    \<and> (list_all keeps_tunnels ls \<longrightarrow> set running \<union> set (tunnelsWaiting s) = {0..<ha})"
proof -
  obtain s1 where s1: "initialize retr current hac avail InitConnected pf0
        = Ok (None, s1, 0 # [1..min hac avail - 1], min hac avail)"
      "signals_ok s1" "tunnelsWaiting s1 = []" "retryForever (sup_backoff s1)" "\<not> shuttingDown s1"
    using initialize_connected by blast
  have e: "s0 = s1" "ha = min hac avail" "started = 0 # [1..ha - 1]" using assms(1) unfolding s1(1) by auto
  have r: "set started = {0..<ha}" "distinct started" "int (length started) = ha"
    using assms(2) by (auto simp: e(3))
  have inv: "sup_inv {0..<ha} (s0\<lparr>tunnelsActive := ha\<rparr>, started)"
    unfolding sup_inv_def using s1 r by (simp add: e(1))
  note S = sup_steps_inv [OF assms(3) inv]
  have "nextConnectedSignal s = None \<longleftrightarrow> tunnelsConnecting s = []"
    using S by (auto simp: sup_inv_def signals_ok_def split: option.splits)
  with S r s1 e show ?thesis by (simp add: sup_inv_def)
qed

definition sample_run :: run_inputs where
  "sample_run = \<lparr>ri_now = 0, ri_rnd = (\<lambda>n. 0), ri_ctx_done = False, ri_iter = id\<rparr>"

theorem supervisor_loses_no_tunnel_witness:
  "\<exists>s0 s running. initialize 5 QUIC 3 2 InitConnected sample_fallback = Ok (None, s0, [0, 1], 2)
     \<and> sup_steps (s0\<lparr>tunnelsActive := 2\<rparr>, [0, 1])
         [(sample_run, EvTunnelError 1 (Some ControlStreamError) sample_fallback)] (s, running)
     \<and> set running \<union> set (tunnelsWaiting s) = {0..<2} \<and> tunnelsWaiting s \<noteq> []"
proof -
  obtain s0 where s0: "initialize 5 QUIC 3 2 InitConnected sample_fallback = Ok (None, s0, [0, 1], 2)"
    using initialize_connected [of 5 QUIC 3 2 sample_fallback] by (auto simp: upto.simps)
  let ?s = "s0\<lparr>tunnelsActive := 2\<rparr>"
  let ?ev = "EvTunnelError 1 (Some ControlStreamError) sample_fallback"
  have "(case initialize 5 QUIC 3 2 InitConnected sample_fallback of
      Ok (x, u, r, n) \<Rightarrow> (case run_step sample_run ?ev (u\<lparr>tunnelsActive := 2\<rparr>) of
         Ok (Running s st) \<Rightarrow> st = [] \<and> tunnelsWaiting s = [1] | _ \<Rightarrow> False) | _ \<Rightarrow> False)" by code_simp
  then obtain s where s: "run_step sample_run ?ev ?s = Ok (Running s [])" "tunnelsWaiting s = [1]"
    unfolding s0 by (auto split: outcome.splits run_result.splits)
  have "sup_step (?s, [0, 1]) (sample_run, ?ev) (s, remove1 1 [0, 1] @ [])"
    by (rule sup_step.ended) (use s in \<open>simp_all add: conn_iter_ok_def sample_run_def\<close>)
  then have run: "sup_steps (?s, [0, 1]) [(sample_run, ?ev)] (s, [0])"
    using sup_steps.steps_snoc [OF sup_steps.steps_none, of "(?s, [0, 1])"] by simp
  have "list_all keeps_tunnels [(sample_run, ?ev)]" by code_simp
  with supervisor_loses_no_tunnel [OF s0 _ run] have "set [0] \<union> set (tunnelsWaiting s) = {0..<2}" by simp
  with s0 run s(2) show ?thesis
    by (intro exI [of _ s0] exI [of _ s] exI [of _ "[0]"] conjI) simp_all
qed

text \<open>
  The loop of \<^verbatim>\<open>Run\<close> returns only when the context is done, or when the last running goroutine ended
  and either ended without an error or a shutdown had been asked for.
\<close>

theorem supervisor_returns_only_when_done:
  assumes "sup_inv idx (s, running)" and "run_step ri ev s = Ok (Returned s')"
    and "conn_iter_ok (ri_iter ri)" and "\<forall>i err pf. ev = EvTunnelError i err pf \<longrightarrow> i \<in> set running"
  shows "ev = EvCtxDone \<or> (\<exists>i err pf. ev = EvTunnelError i err pf \<and> running = [i] \<and> (err = None \<or> shuttingDown s))"
proof (cases ev)
  case (EvTunnelError i err pf)
  let ?s = "s\<lparr>tunnelsProtocolFallback := (tunnelsProtocolFallback s)(i \<mapsto> pf)\<rparr>"
  have t: "tunnel_ended ri i err ?s = Ok (Returned s')" using assms(2) EvTunnelError by simp
  have "\<not> (err \<noteq> None \<and> \<not> shuttingDown s)"
  proof
    assume a: "err \<noteq> None \<and> \<not> shuttingDown s"
    have q: "queue_tunnel ri i u \<noteq> Ok (Returned v)" for u v
      by (auto simp: queue_tunnel_def Let_def obind_Ok_iff split: if_splits)
    from t a q show False
      by (auto simp: tunnel_ended_def Let_def split: conn_error.splits option.splits if_splits)
  qed
  then have "tunnelsActive s - 1 = 0" using t by (auto simp: tunnel_ended_def Let_def split: if_splits)
  then have "length running = 1" using assms(1) by (simp add: sup_inv_def)
  moreover have "i \<in> set running" using assms(4) EvTunnelError by simp
  ultimately have "running = [i]" by (cases running) auto
  with EvTunnelError \<open>\<not> (err \<noteq> None \<and> \<not> shuttingDown s)\<close> show ?thesis by auto
next
  case EvNextConnected
  with assms(2) show ?thesis by (auto simp: Let_def obind_Ok_iff split: prod.splits if_splits)
qed (use assms(2) in \<open>simp_all add: Let_def\<close>)

theorem supervisor_returns_only_when_done_witness:
  "let s = (initial_supervisor 5 QUIC)\<lparr>tunnelsActive := 1, shuttingDown := True\<rparr>
   in \<exists>s'. run_step sample_run (EvTunnelError 0 (Some ContextCanceled) sample_fallback) s = Ok (Returned s')
      \<and> shuttingDown s"
proof -
  let ?s = "(initial_supervisor 5 QUIC)\<lparr>tunnelsActive := 1, shuttingDown := True\<rparr>"
  let ?ev = "EvTunnelError 0 (Some ContextCanceled) sample_fallback"
  have inv: "sup_inv {0} (?s, [0])"
    by (simp add: sup_inv_def initial_supervisor_def NewBackoff_def signals_ok_def)
  have "(case run_step sample_run ?ev ?s of Ok (Returned s') \<Rightarrow> True | _ \<Rightarrow> False)" by code_simp
  then obtain s' where r: "run_step sample_run ?ev ?s = Ok (Returned s')"
    by (auto split: outcome.splits run_result.splits)
  have "conn_iter_ok (ri_iter sample_run)" by (simp add: conn_iter_ok_def sample_run_def)
  from supervisor_returns_only_when_done [OF inv r this] have "shuttingDown ?s" by auto
  with r show ?thesis by (simp add: Let_def)
qed

end
