(* ===== verification/Net_Addr.thy ===== *)
theory Net_Addr
  imports Cfd_Prelude
begin

text \<open>
  What the components use of Go's packages \<^verbatim>\<open>net\<close> and \<^verbatim>\<open>net/netip\<close>: textual addresses and CIDR
  prefixes, membership in a network, and splitting a host from its port.  An \<^verbatim>\<open>IP\<close> is a byte list of
  length 4 or 16.
\<close>

subsection \<open>Splitting host and port\<close>

definition brackets_ok :: "nat \<Rightarrow> nat \<Rightarrow> string \<Rightarrow> bool" where
  "brackets_ok j k hp = (CHR ''['' \<notin> set (drop j hp) \<and> CHR '']'' \<notin> set (drop k hp))"

definition SplitHostPort :: "string \<Rightarrow> (string \<times> string) option" where
  "SplitHostPort hp =
     (case last_index_byte CHR '':'' hp of
        None \<Rightarrow> None
      | Some i \<Rightarrow>
          if hd hp = CHR ''['' then
            (case index_byte CHR '']'' hp of
               None \<Rightarrow> None
             | Some e \<Rightarrow>
                 if e + 1 = i \<and> brackets_ok 1 (e + 1) hp then Some (take (e - 1) (drop 1 hp), drop (i + 1) hp) else None)
          else if CHR '':'' \<in> set (take i hp) then None
          else if brackets_ok 0 0 hp then Some (take i hp, drop (i + 1) hp)
          else None)"

lemma SplitHostPort_plain:
  assumes "CHR '':'' \<notin> set h" "CHR '':'' \<notin> set p" "CHR ''['' \<notin> set h \<union> set p" "CHR '']'' \<notin> set h \<union> set p"
  shows "SplitHostPort (h @ CHR '':'' # p) = Some (h, p)"
proof -
  have last: "last_index_byte CHR '':'' (h @ CHR '':'' # p) = Some (length h)"
    using assms(1,2) by (induction h) (auto simp: last_index_byte_None_iff [symmetric] split: option.splits)
  have hd: "hd (h @ CHR '':'' # p) \<noteq> CHR ''[''"
    using assms(3) by (cases h) auto
  show ?thesis
    using assms hd by (simp add: SplitHostPort_def last brackets_ok_def)
qed

lemma SplitHostPort_no_colon: "CHR '':'' \<notin> set h \<Longrightarrow> SplitHostPort h = None"
  using last_index_byte_None_iff [of "CHR '':''" h] by (simp add: SplitHostPort_def)

subsection \<open>Addresses\<close>

definition v4InV6Prefix :: "byte list" where
  "v4InV6Prefix = replicate 10 0 @ [255, 255]"

definition To4 :: "byte list \<Rightarrow> byte list option" where
  "To4 ip =
     (if length ip = 4 then Some ip
      else if length ip = 16 \<and> take 12 ip = v4InV6Prefix then Some (drop 12 ip)
      else None)"

text \<open>One decimal field of an IPv4 address: digits without a leading zero, at most 255.\<close>

definition octet :: "string \<Rightarrow> byte option" where
  "octet s =
     (if s \<noteq> [] \<and> list_all is_digit s \<and> (length s = 1 \<or> hd s \<noteq> CHR ''0'') \<and> digits_val s \<le> 255
      then Some (word_of_nat (digits_val s)) else None)"

fun all_some :: "'a option list \<Rightarrow> 'a list option" where
  "all_some [] = Some []"
| "all_some (None # xs) = None"
| "all_some (Some x # xs) = map_option ((#) x) (all_some xs)"

definition parse_ipv4 :: "string \<Rightarrow> byte list option" where
  "parse_ipv4 s =
     (let fields = split_on CHR ''.'' s
      in if length fields = 4 then all_some (map octet fields) else None)"

definition hex_val :: "char \<Rightarrow> nat option" where
  "hex_val c =
     (let n = of_char c :: nat
      in if 48 \<le> n \<and> n \<le> 57 then Some (n - 48)
         else if 97 \<le> n \<and> n \<le> 102 then Some (n - 87)
         else if 65 \<le> n \<and> n \<le> 70 then Some (n - 55)
         else None)"

text \<open>The hexadecimal digits in front: how many, and their value.\<close>

fun hex_prefix :: "string \<Rightarrow> nat \<Rightarrow> nat \<times> nat" where
  "hex_prefix [] acc = (0, acc)"
| "hex_prefix (c # s) acc =
     (case hex_val c of
        None \<Rightarrow> (0, acc)
      | Some v \<Rightarrow> (case hex_prefix s (16 * acc + v) of (n, a) \<Rightarrow> (Suc n, a)))"

text \<open>
  The groups of an IPv6 address after a leading ellipsis: the bytes so far and where the ellipsis is.
  At most eight groups fit, so a fuel of eight suffices.
\<close>

fun ipv6_groups :: "nat \<Rightarrow> string \<Rightarrow> byte list \<Rightarrow> nat option \<Rightarrow> (byte list \<times> nat option) option" where
  "ipv6_groups 0 s ip ell = (if s = [] then Some (ip, ell) else None)"
| "ipv6_groups (Suc n) s ip ell =
     (if 16 \<le> length ip then (if s = [] then Some (ip, ell) else None)
      else
       (let (off, acc) = hex_prefix s 0;
            rest = drop off s
        in if off = 0 \<or> 4 < off then None
           else if rest \<noteq> [] \<and> hd rest = CHR ''.'' then
             (if (ell = None \<and> length ip \<noteq> 12) \<or> 16 < length ip + 4 then None
              else map_option (\<lambda>v4. (ip @ v4, ell)) (parse_ipv4 s))
           else
             (let ip' = ip @ [word_of_nat (acc div 256), word_of_nat acc]
              in if rest = [] then Some (ip', ell)
                 else if hd rest \<noteq> CHR '':'' \<or> length rest = 1 then None
                 else
                   (let s' = tl rest
                    in if hd s' = CHR '':'' then
                         (if ell \<noteq> None then None
                          else if tl s' = [] then Some (ip', Some (length ip'))
                          else ipv6_groups n (tl s') ip' (Some (length ip')))
                       else ipv6_groups n s' ip' ell))))"

definition fill_ellipsis :: "byte list \<times> nat option \<Rightarrow> byte list option" where
  "fill_ellipsis r =
     (case r of (ip, ell) \<Rightarrow>
        (case ell of
           None \<Rightarrow> if length ip = 16 then Some ip else None
         | Some e \<Rightarrow> if length ip < 16 then Some (take e ip @ replicate (16 - length ip) 0 @ drop e ip) else None))"

definition parse_ipv6 :: "string \<Rightarrow> byte list option" where
  "parse_ipv6 s =
     (if take 2 s = ''::'' then
        (if drop 2 s = [] then Some (replicate 16 0)
         else Option.bind (ipv6_groups 8 (drop 2 s) [] (Some 0)) fill_ellipsis)
      else Option.bind (ipv6_groups 8 s [] None) fill_ellipsis)"

text \<open>\<^verbatim>\<open>netip.ParseAddr\<close>: the first dot, colon or percent sign decides the family.\<close>

definition ParseAddr :: "string \<Rightarrow> netip_addr option" where
  "ParseAddr s =
     (case dropWhile (\<lambda>c. c \<noteq> CHR ''.'' \<and> c \<noteq> CHR '':'' \<and> c \<noteq> CHR ''%'') s of
        [] \<Rightarrow> None
      | c # cs \<Rightarrow>
          if c = CHR ''.'' then map_option Addr4 (parse_ipv4 s)
          else if c = CHR '':'' then
            (case index_byte CHR ''%'' s of
               None \<Rightarrow> map_option (\<lambda>ip. Addr6 ip []) (parse_ipv6 s)
             | Some i \<Rightarrow> if drop (i + 1) s = [] then None
                         else map_option (\<lambda>ip. Addr6 ip (drop (i + 1) s)) (parse_ipv6 (take i s)))
          else None)"

subsection \<open>Networks\<close>

record IPNet =
  net_IP :: "byte list"
  net_Mask :: "byte list"

definition mask_byte :: "nat \<Rightarrow> byte" where
  "mask_byte n = (if 8 \<le> n then 255 else word_of_nat (256 - 2 ^ (8 - n)))"

definition CIDRMask :: "nat \<Rightarrow> nat \<Rightarrow> byte list" where
  "CIDRMask ones len = map (\<lambda>i. mask_byte (ones - 8 * i)) [0..<len]"

definition ip_mask :: "byte list \<Rightarrow> byte list \<Rightarrow> byte list" where
  "ip_mask ip m = map2 (AND) ip m"

text \<open>\<^verbatim>\<open>net.ParseCIDR\<close> rejects zones; the address is kept masked, IPv4 in four bytes.\<close>

definition ParseCIDR :: "string \<Rightarrow> IPNet option" where
  "ParseCIDR s =
     (case index_byte CHR ''/'' s of
        None \<Rightarrow> None
      | Some i \<Rightarrow>
          let ones = drop (i + 1) s
          in if ones = [] \<or> \<not> list_all is_digit ones then None
             else
               (case ParseAddr (take i s) of
                  Some (Addr4 ip) \<Rightarrow>
                    if digits_val ones \<le> 32 then
                      Some \<lparr>net_IP = ip_mask ip (CIDRMask (digits_val ones) 4), net_Mask = CIDRMask (digits_val ones) 4\<rparr>
                    else None
                | Some (Addr6 ip []) \<Rightarrow>
                    if digits_val ones \<le> 128 then
                      Some \<lparr>net_IP = ip_mask ip (CIDRMask (digits_val ones) 16), net_Mask = CIDRMask (digits_val ones) 16\<rparr>
                    else None
                | _ \<Rightarrow> None))"

definition networkNumberAndMask :: "IPNet \<Rightarrow> (byte list \<times> byte list) option" where
  "networkNumberAndMask n =
     (case (case To4 (net_IP n) of Some ip \<Rightarrow> Some ip | None \<Rightarrow> if length (net_IP n) = 16 then Some (net_IP n) else None) of
        None \<Rightarrow> None
      | Some ip \<Rightarrow>
          if length (net_Mask n) = 4 then (if length ip = 4 then Some (ip, net_Mask n) else None)
          else if length (net_Mask n) = 16 then Some (ip, if length ip = 4 then drop 12 (net_Mask n) else net_Mask n)
          else None)"

definition Contains :: "IPNet \<Rightarrow> byte list \<Rightarrow> bool" where
  "Contains n ip0 =
     (let ip = (case To4 ip0 of Some x \<Rightarrow> x | None \<Rightarrow> ip0)
      in case networkNumberAndMask n of
           None \<Rightarrow> ip = []
         | Some (nn, m) \<Rightarrow> length ip = length nn \<and> ip_mask nn m = ip_mask ip m)"

subsection \<open>Printing\<close>

fun join_with :: "char \<Rightarrow> string list \<Rightarrow> string" where
  "join_with c [] = []"
| "join_with c [w] = w"
| "join_with c (w # v # ws) = w @ c # join_with c (v # ws)"

definition ipv4_String :: "byte list \<Rightarrow> string" where
  "ipv4_String ip = join_with CHR ''.'' (map (\<lambda>b. nat_to_string (unat b)) ip)"

definition hex_digit :: "nat \<Rightarrow> char" where
  "hex_digit n = (if n < 10 then char_of (48 + n) else char_of (87 + n))"

definition group_String :: "nat \<Rightarrow> string" where
  "group_String g =
     (let ds = [hex_digit (g div 4096), hex_digit (g div 256 mod 16), hex_digit (g div 16 mod 16)]
      in dropWhile (\<lambda>c. c = CHR ''0'') ds @ [hex_digit (g mod 16)])"

fun groups_of :: "byte list \<Rightarrow> nat list" where
  "groups_of (a # b # ip) = (256 * unat a + unat b) # groups_of ip"
| "groups_of _ = []"

text \<open>The first longest run of at least two zero groups is printed as an ellipsis.\<close>

definition zero_run :: "nat list \<Rightarrow> nat \<Rightarrow> nat" where
  "zero_run gs i = length (takeWhile (\<lambda>g. g = 0) (drop i gs))"

definition ellipsis_at :: "nat list \<Rightarrow> (nat \<times> nat) option" where
  "ellipsis_at gs =
     (let best = foldl max 0 (map (zero_run gs) [0..<length gs])
      in if best < 2 then None
         else map_option (\<lambda>i. (i, best)) (List.find (\<lambda>i. zero_run gs i = best) [0..<length gs]))"

definition ipv6_String :: "byte list \<Rightarrow> string" where
  "ipv6_String ip =
     (let gs = groups_of ip
      in case ellipsis_at gs of
           None \<Rightarrow> join_with CHR '':'' (map group_String gs)
         | Some (i, n) \<Rightarrow>
             join_with CHR '':'' (map group_String (take i gs)) @ ''::''
             @ join_with CHR '':'' (map group_String (drop (i + n) gs)))"

fun byte_ones :: "nat \<Rightarrow> byte \<Rightarrow> nat" where
  "byte_ones 0 b = 0"
| "byte_ones (Suc n) b = (if bit b n then Suc (byte_ones n b) else 0)"

definition mask_ones :: "byte list \<Rightarrow> nat" where
  "mask_ones m = foldl (\<lambda>acc (i, b). if acc = 8 * i then acc + byte_ones 8 b else acc) 0 (enumerate 0 m)"

text \<open>\<^verbatim>\<open>simpleMaskLength\<close>: the number of leading ones, when nothing else is set.\<close>

definition simpleMaskLength :: "byte list \<Rightarrow> nat option" where
  "simpleMaskLength m = (if m = CIDRMask (mask_ones m) (length m) then Some (mask_ones m) else None)"

definition mask_String :: "byte list \<Rightarrow> string" where
  "mask_String m = concat (map (\<lambda>b. [hex_digit (unat b div 16), hex_digit (unat b mod 16)]) m)"

definition IPNet_String :: "IPNet \<Rightarrow> string" where
  "IPNet_String n =
     (case networkNumberAndMask n of
        None \<Rightarrow> ''<nil>''
      | Some (nn, m) \<Rightarrow>
          (if length nn = 4 then ipv4_String nn else ipv6_String nn) @ CHR ''/'' #
          (case simpleMaskLength m of None \<Rightarrow> mask_String m | Some l \<Rightarrow> nat_to_string l))"

subsection \<open>An IPv4 network is printed and parsed back\<close>

lemma split_on_none: "c \<notin> set w \<Longrightarrow> split_on c w = [w]"
  by (induction w) auto

lemma split_on_append: "c \<notin> set w \<Longrightarrow> split_on c (w @ c # s) = w # split_on c s"
  by (induction w) auto

lemma split_join: "\<lbrakk>ws \<noteq> []; \<forall>w \<in> set ws. c \<notin> set w\<rbrakk> \<Longrightarrow> split_on c (join_with c ws) = ws"
  by (induction c ws rule: join_with.induct) (auto simp: split_on_none split_on_append)

lemma digit_not: "\<lbrakk>list_all is_digit w; \<not> is_digit c\<rbrakk> \<Longrightarrow> c \<notin> set w"
  by (auto simp: list_all_iff)

lemma not_digits: "\<not> is_digit CHR ''.''" "\<not> is_digit CHR ''/''" "\<not> is_digit CHR ''%''" "\<not> is_digit CHR '':''"
  by (simp_all add: is_digit_def)

lemma nat_to_string_hd: "0 < n \<Longrightarrow> hd (nat_to_string n) \<noteq> CHR ''0''"
proof (induction n rule: less_induct)
  case (less n)
  show ?case
  proof (cases "n < 10")
    case True
    have "char_of (48 + n) \<noteq> CHR ''0''"
    proof
      assume "char_of (48 + n) = CHR ''0''"
      then have "digit_val (char_of (48 + n)) = digit_val CHR ''0''" by (rule arg_cong)
      also have "digit_val CHR ''0'' = 0" by code_simp
      finally show False using digit_val_char_of [OF True] less.prems by simp
    qed
    with True show ?thesis by (subst nat_to_string_rec) simp
  next
    case False
    then have "hd (nat_to_string (n div 10)) \<noteq> CHR ''0''" using less.IH [of "n div 10"] by simp
    with False show ?thesis by (subst nat_to_string_rec) (simp add: nat_to_string_not_Nil)
  qed
qed

lemma nat_to_string_zero: "length (nat_to_string 0) = 1"
  by (subst nat_to_string_rec) simp

lemma octet_nat_to_string: "octet (nat_to_string (unat b)) = Some b"
proof -
  have "length (nat_to_string (unat b)) = 1 \<or> hd (nat_to_string (unat b)) \<noteq> CHR ''0''"
    by (cases "unat b = 0") (use nat_to_string_zero nat_to_string_hd [of "unat b"] in auto)
  moreover have "unat b \<le> 255" using unat_byte_less [of b] by simp
  ultimately show ?thesis
    by (simp add: octet_def nat_to_string_not_Nil nat_to_string_digits digits_val_nat_to_string)
qed

lemma mask_ones_all: "list_all (\<lambda>l. mask_ones (CIDRMask l 4) = l) [0..<33]"
  by code_simp

lemma simpleMaskLength_CIDR: "l \<le> 32 \<Longrightarrow> simpleMaskLength (CIDRMask l 4) = Some l"
  using mask_ones_all by (auto simp: list_all_iff simpleMaskLength_def CIDRMask_def)

lemma all_some_map: "(\<And>x. x \<in> set xs \<Longrightarrow> f x = Some (g x)) \<Longrightarrow> all_some (map f xs) = Some (map g xs)"
  by (induction xs) auto

lemma parse_ipv4_String:
  assumes "length ip = 4"
  shows "parse_ipv4 (ipv4_String ip) = Some ip"
proof -
  let ?ws = "map (\<lambda>b. nat_to_string (unat b)) ip"
  have "CHR ''.'' \<notin> set (nat_to_string n)" for n
    by (rule digit_not [OF nat_to_string_digits not_digits(1)])
  then have "split_on CHR ''.'' (ipv4_String ip) = ?ws"
    using assms unfolding ipv4_String_def by (intro split_join) auto
  moreover have "all_some (map octet ?ws) = Some ip"
    using all_some_map [of ip "\<lambda>b. octet (nat_to_string (unat b))" "\<lambda>b. b"]
    by (simp add: octet_nat_to_string comp_def)
  ultimately show ?thesis using assms by (simp add: parse_ipv4_def)
qed

lemma ipv4_String_chars: "c \<in> set (ipv4_String ip) \<Longrightarrow> is_digit c \<or> c = CHR ''.''"
proof -
  have "c \<in> set (join_with d ws) \<Longrightarrow> c = d \<or> (\<exists>w \<in> set ws. c \<in> set w)" for d ws
    by (induction d ws rule: join_with.induct) auto
  then show "c \<in> set (ipv4_String ip) \<Longrightarrow> is_digit c \<or> c = CHR ''.''"
    using nat_to_string_digits unfolding ipv4_String_def list_all_iff by fastforce
qed

lemma ParseAddr_ipv4_String:
  assumes "length ip = 4"
  shows "ParseAddr (ipv4_String ip) = Some (Addr4 ip)"
proof -
  obtain a b ip' where ip: "ip = a # b # ip'" using assms by (cases ip; cases "tl ip") auto
  let ?w = "nat_to_string (unat a)"
  obtain r where s: "ipv4_String ip = ?w @ CHR ''.'' # r" by (simp add: ipv4_String_def ip)
  have "\<forall>c \<in> set ?w. c \<noteq> CHR ''.'' \<and> c \<noteq> CHR '':'' \<and> c \<noteq> CHR ''%''"
    using digit_not [OF nat_to_string_digits] not_digits by metis
  then have "dropWhile (\<lambda>c. c \<noteq> CHR ''.'' \<and> c \<noteq> CHR '':'' \<and> c \<noteq> CHR ''%'') (ipv4_String ip) = CHR ''.'' # r"
    unfolding s by (subst dropWhile_append2) auto
  then show ?thesis using parse_ipv4_String [OF assms] by (simp add: ParseAddr_def)
qed

lemma index_byte_append: "c \<notin> set s \<Longrightarrow> index_byte c (s @ c # t) = Some (length s)"
  by (induction s) auto

definition ipv4_net :: "IPNet \<Rightarrow> bool" where
  "ipv4_net n = (length (net_IP n) = 4 \<and> ip_mask (net_IP n) (net_Mask n) = net_IP n
     \<and> (\<exists>l \<le> 32. net_Mask n = CIDRMask l 4))"

lemma ParseCIDR_String:
  assumes "ipv4_net n"
  shows "ParseCIDR (IPNet_String n) = Some n"
proof -
  obtain l where l: "l \<le> 32" "net_Mask n = CIDRMask l 4" and ip: "length (net_IP n) = 4"
      "ip_mask (net_IP n) (net_Mask n) = net_IP n"
    using assms by (auto simp: ipv4_net_def)
  have "networkNumberAndMask n = Some (net_IP n, CIDRMask l 4)"
    using ip(1) l(2) by (simp add: networkNumberAndMask_def To4_def CIDRMask_def)
  then have s: "IPNet_String n = ipv4_String (net_IP n) @ CHR ''/'' # nat_to_string l"
    using ip(1) simpleMaskLength_CIDR [OF l(1)] by (simp add: IPNet_String_def)
  have "CHR ''/'' \<notin> set (ipv4_String (net_IP n))"
    using ipv4_String_chars not_digits(2) by force
  then have i: "index_byte CHR ''/'' (IPNet_String n) = Some (length (ipv4_String (net_IP n)))"
    unfolding s by (rule index_byte_append)
  have "ParseCIDR (IPNet_String n) = Some \<lparr>net_IP = ip_mask (net_IP n) (CIDRMask l 4), net_Mask = CIDRMask l 4\<rparr>"
    unfolding ParseCIDR_def i using l(1)
    by (simp add: s Let_def nat_to_string_not_Nil nat_to_string_digits ParseAddr_ipv4_String [OF ip(1)] digits_val_nat_to_string)
  then show ?thesis using ip(2) l(2) by simp
qed

end
