(* ===== verification/IP_Access.thy ===== *)
theory IP_Access
  imports Net_Addr
begin

text \<open>
  \<^verbatim>\<open>ipaccess/access.go\<close>: an ordered list of rules that allow or deny an address and a port, used by
  the SOCKS proxy.  A rule's \<^verbatim>\<open>*net.IPNet\<close> may be nil (\<open>None\<close>), and calling a method on it that reads
  it panics.  Sorting the ports happens in place, so validating a rule changes it.
\<close>

subsection \<open>Rules and policies\<close>

record access_rule =
  ipNet :: "IPNet option"
  ports :: "int list"
  allow :: bool

datatype access_error = NoPrefix | UnparsableCIDR string | NoIPNet | InvalidPort int

record Policy =
  defaultAllow :: bool
  policy_rules :: "access_rule list"

text \<open>The first error, and the rule as validation leaves it.\<close>

definition Validate :: "access_rule \<Rightarrow> access_error option \<times> access_rule" where
  "Validate r =
     (case ipNet r of
        None \<Rightarrow> (Some NoIPNet, r)
      | Some n \<Rightarrow>
          if ports r \<noteq> [] then
            (let r' = r\<lparr>ports := sort (ports r)\<rparr>
             in (map_option InvalidPort (List.find (\<lambda>port. port < 1 \<or> 65535 < port) (ports r')), r'))
          else (None, r))"

definition NewRule :: "IPNet option \<Rightarrow> int list \<Rightarrow> bool \<Rightarrow> access_error option \<times> access_rule" where
  "NewRule n ps a = Validate \<lparr>ipNet = n, ports = ps, allow = a\<rparr>"

definition zero_rule :: access_rule where
  "zero_rule = \<lparr>ipNet = None, ports = [], allow = False\<rparr>"

definition NewRuleByCIDR :: "string option \<Rightarrow> int list \<Rightarrow> bool \<Rightarrow> access_error option \<times> access_rule" where
  "NewRuleByCIDR prefix ps a =
     (case prefix of
        None \<Rightarrow> (Some NoPrefix, zero_rule)
      | Some p \<Rightarrow>
          if p = [] then (Some NoPrefix, zero_rule)
          else (case ParseCIDR p of
                  None \<Rightarrow> (Some (UnparsableCIDR p), zero_rule)
                | Some n \<Rightarrow> NewRule (Some n) ps a))"

fun validate_all :: "access_rule list \<Rightarrow> access_error + access_rule list" where
  "validate_all [] = Inr []"
| "validate_all (r # rs) =
     (case Validate r of
        (Some e, r') \<Rightarrow> Inl e
      | (None, r') \<Rightarrow> (case validate_all rs of Inl e \<Rightarrow> Inl e | Inr rs' \<Rightarrow> Inr (r' # rs')))"

definition NewPolicy :: "bool \<Rightarrow> access_rule list \<Rightarrow> access_error + Policy" where
  "NewPolicy d rules =
     (case validate_all rules of
        Inl e \<Rightarrow> Inl e
      | Inr rs \<Rightarrow> Inr \<lparr>defaultAllow = d, policy_rules = rs\<rparr>)"

subsection \<open>Searching the ports\<close>

text \<open>\<^verbatim>\<open>sort.SearchInts\<close>: the smallest index whose element is not below \<open>x\<close>, by halving.\<close>

function search :: "(nat \<Rightarrow> bool) \<Rightarrow> nat \<Rightarrow> nat \<Rightarrow> nat" where
  "search f i j =
     (if i < j then (let h = (i + j) div 2 in if \<not> f h then search f (h + 1) j else search f i h) else i)"
  by pat_completeness auto
termination
  by (relation "measure (\<lambda>(f, i, j). j - i)") auto

declare search.simps [simp del]

definition SearchInts :: "int list \<Rightarrow> int \<Rightarrow> nat" where
  "SearchInts a x = search (\<lambda>i. x \<le> a ! i) 0 (length a)"

definition port_listed :: "int list \<Rightarrow> int \<Rightarrow> bool" where
  "port_listed ps port =
     (let pos = SearchInts ps port in pos < length ps \<and> ps ! pos = port)"

fun allowed_by :: "bool \<Rightarrow> access_rule list \<Rightarrow> byte list \<Rightarrow> int \<Rightarrow> (access_error, bool \<times> access_rule option) outcome" where
  "allowed_by d [] ip port = Ok (d, None)"
| "allowed_by d (r # rs) ip port =
     (case ipNet r of
        None \<Rightarrow> Panic
      | Some n \<Rightarrow>
          if Contains n ip then
            (if ports r = [] then Ok (allow r, Some r)
             else if port_listed (ports r) port then Ok (allow r, Some r)
             else allowed_by d rs ip port)
          else allowed_by d rs ip port)"

definition Allowed :: "Policy \<Rightarrow> byte list \<Rightarrow> int \<Rightarrow> (access_error, bool \<times> access_rule option) outcome" where
  "Allowed p ip port =
     (if policy_rules p = [] then Ok (defaultAllow p, None)
      else allowed_by (defaultAllow p) (policy_rules p) ip port)"

subsection \<open>Accessors\<close>

definition ports_String :: "access_rule \<Rightarrow> string" where
  "ports_String r =
     (if ports r \<noteq> [] then CHR ''['' # join_with CHR '' '' (map int_to_string (ports r)) @ '']'' else ''all'')"

definition StringCIDR :: "access_rule \<Rightarrow> string" where
  "StringCIDR r = (case ipNet r of None \<Rightarrow> ''<nil>'' | Some n \<Rightarrow> IPNet_String n)"

definition rule_String :: "access_rule \<Rightarrow> string" where
  "rule_String r =
     ''prefix:'' @ StringCIDR r @ ''/port:'' @ ports_String r @ ''/allow:'' @ (if allow r then ''true'' else ''false'')"

subsection \<open>Binary search\<close>

lemma search_unfold:
  "search f i j = (if i < j then (if f ((i + j) div 2) then search f i ((i + j) div 2) else search f ((i + j) div 2 + 1) j) else i)"
  by (subst search.simps) (simp add: Let_def)

definition first_index :: "(nat \<Rightarrow> bool) \<Rightarrow> nat \<Rightarrow> nat \<Rightarrow> bool" where
  "first_index f n p = (p \<le> n \<and> (\<forall>k < p. \<not> f k) \<and> (\<forall>k. p \<le> k \<and> k < n \<longrightarrow> f k))"

lemma search_first:
  assumes "\<forall>k l. k \<le> l \<and> l < n \<and> f k \<longrightarrow> f l" and "i \<le> j" "j \<le> n"
    and "\<forall>k < i. \<not> f k" and "\<forall>k. j \<le> k \<and> k < n \<longrightarrow> f k"
  shows "first_index f n (search f i j)"
  using assms
proof (induction f i j rule: search.induct)
  case (1 f i j)
  let ?h = "(i + j) div 2"
  show ?case
  proof (cases "i < j")
    case False
    then have "search f i j = i" by (subst search_unfold) simp
    then show ?thesis using False 1(4-7) by (simp add: first_index_def)
  next
    case True
    then have h: "i \<le> ?h" "?h < j" by auto
    show ?thesis
    proof (cases "f ?h")
      case False
      have "\<forall>k < ?h + 1. \<not> f k"
      proof (intro allI impI notI)
        fix k assume "k < ?h + 1" "f k"
        have "k \<le> ?h \<and> ?h < n \<and> f k" using \<open>k < ?h + 1\<close> \<open>f k\<close> h 1(5) by simp
        then have "f ?h" using 1(3) by blast
        with False show "False" ..
      qed
      then have "first_index f n (search f (?h + 1) j)"
        using 1(1) [OF True refl False] 1(3,5,7) h by simp
      moreover have "search f i j = search f (?h + 1) j" using True False by (subst search_unfold) simp
      ultimately show ?thesis by simp
    next
      case t: True
      have "\<forall>k. ?h \<le> k \<and> k < n \<longrightarrow> f k" using t 1(3) by blast
      then have "first_index f n (search f i ?h)"
        using 1(2) [OF True refl] t 1(3,5,6) h by simp
      moreover have "search f i j = search f i ?h" using True t by (subst search_unfold) simp
      ultimately show ?thesis by simp
    qed
  qed
qed

lemma port_listed_iff:
  assumes "sorted ps"
  shows "port_listed ps port \<longleftrightarrow> port \<in> set ps"
proof -
  let ?f = "\<lambda>i. port \<le> ps ! i"
  have mono: "\<forall>k l. k \<le> l \<and> l < length ps \<and> ?f k \<longrightarrow> ?f l"
  proof (intro allI impI)
    fix k l assume "k \<le> l \<and> l < length ps \<and> port \<le> ps ! k"
    then show "port \<le> ps ! l" using sorted_nth_mono [OF assms, of k l] by simp
  qed
  have S: "first_index ?f (length ps) (SearchInts ps port)"
    unfolding SearchInts_def by (rule search_first [OF mono]) auto
  have le: "SearchInts ps port \<le> length ps" and below: "\<forall>k < SearchInts ps port. \<not> port \<le> ps ! k"
    and above: "\<forall>k. SearchInts ps port \<le> k \<and> k < length ps \<longrightarrow> port \<le> ps ! k"
    using S unfolding first_index_def by blast+
  show ?thesis
  proof
    assume "port_listed ps port"
    then have "SearchInts ps port < length ps" "ps ! SearchInts ps port = port"
      by (simp_all add: port_listed_def Let_def)
    then show "port \<in> set ps" using nth_mem by metis
  next
    assume "port \<in> set ps"
    then obtain k where k: "k < length ps" "ps ! k = port" by (auto simp: in_set_conv_nth)
    have pos: "SearchInts ps port \<le> k"
    proof (rule ccontr)
      assume "\<not> SearchInts ps port \<le> k"
      with below have "\<not> port \<le> ps ! k" by simp
      with k show False by simp
    qed
    with k have "ps ! SearchInts ps port \<le> port"
      using sorted_nth_mono [OF assms pos] by simp
    moreover have "port \<le> ps ! SearchInts ps port" using above pos k by simp
    ultimately show "port_listed ps port"
      using pos k by (simp add: port_listed_def Let_def)
  qed
qed

subsection \<open>The meaning of a policy\<close>

text \<open>
  The reference: the first rule whose network holds the address and whose ports, if it has any, hold
  the port, decides; without one the default does.
\<close>

definition rule_applies :: "byte list \<Rightarrow> int \<Rightarrow> access_rule \<Rightarrow> bool" where
  "rule_applies ip port r =
     (\<exists>n. ipNet r = Some n \<and> Contains n ip \<and> (ports r = [] \<or> port \<in> set (ports r)))"

definition decide :: "bool \<Rightarrow> access_rule list \<Rightarrow> byte list \<Rightarrow> int \<Rightarrow> bool" where
  "decide d rules ip port =
     (case List.find (rule_applies ip port) rules of None \<Rightarrow> d | Some r \<Rightarrow> allow r)"

definition rule_ok :: "access_rule \<Rightarrow> bool" where
  "rule_ok r = (ipNet r \<noteq> None \<and> sorted (ports r) \<and> (\<forall>p \<in> set (ports r). 1 \<le> p \<and> p \<le> 65535))"

lemma Validate_spec:
  assumes "Validate r = (e, r')"
  shows "ipNet r' = ipNet r \<and> allow r' = allow r \<and> set (ports r') = set (ports r)
     \<and> (e = None \<longleftrightarrow> ipNet r \<noteq> None \<and> (\<forall>p \<in> set (ports r). 1 \<le> p \<and> p \<le> 65535))
     \<and> (e = None \<longrightarrow> sorted (ports r'))"
proof (cases "ipNet r")
  case None
  with assms show ?thesis by (auto simp: Validate_def)
next
  case (Some n)
  show ?thesis
  proof (cases "ports r = []")
    case True
    with assms Some show ?thesis by (auto simp: Validate_def)
  next
    case False
    then have e: "e = map_option InvalidPort (List.find (\<lambda>port. port < 1 \<or> 65535 < port) (sort (ports r)))"
      and r': "r' = r\<lparr>ports := sort (ports r)\<rparr>"
      using assms Some by (simp_all add: Validate_def Let_def)
    have "e = None \<longleftrightarrow> (\<forall>p \<in> set (ports r). 1 \<le> p \<and> p \<le> 65535)"
      unfolding e option.map_disc_iff find_None_iff set_sort by (auto simp: not_less)
    with Some show ?thesis by (simp add: r')
  qed
qed

lemma rule_applies_sorted:
  "\<lbrakk>ipNet r' = ipNet r; set (ports r') = set (ports r)\<rbrakk> \<Longrightarrow> rule_applies ip port r' = rule_applies ip port r"
  unfolding rule_applies_def by (metis set_empty)

lemma validate_all_spec:
  assumes "validate_all rules = Inr rs"
  shows "list_all rule_ok rs \<and> decide d rs ip port = decide d rules ip port \<and> length rs = length rules"
  using assms
proof (induction rules arbitrary: rs)
  case Nil
  then show ?case by (simp add: decide_def)
next
  case (Cons r rules)
  obtain e r' where v: "Validate r = (e, r')" by (cases "Validate r")
  obtain rs' where rs: "e = None" "validate_all rules = Inr rs'" "rs = r' # rs'"
    using Cons.prems v by (auto split: option.splits sum.splits)
  have "rule_applies ip port r' = rule_applies ip port r" "allow r' = allow r" "rule_ok r'"
    using Validate_spec [OF v] rs(1) rule_applies_sorted [of r' r] by (auto simp: rule_ok_def)
  with Cons.IH [OF rs(2)] rs(3) show ?case by (simp add: decide_def)
qed

lemma allowed_by_decides:
  assumes "list_all rule_ok rs"
  shows "allowed_by d rs ip port = Ok (decide d rs ip port, List.find (rule_applies ip port) rs)"
  using assms
proof (induction rs)
  case Nil
  then show ?case by (simp add: decide_def)
next
  case (Cons r rs)
  obtain n where n: "ipNet r = Some n" "sorted (ports r)" using Cons.prems by (auto simp: rule_ok_def)
  have app: "rule_applies ip port r \<longleftrightarrow> Contains n ip \<and> (ports r = [] \<or> port_listed (ports r) port)"
    using n by (simp add: rule_applies_def port_listed_iff)
  have IH: "allowed_by d rs ip port = Ok (decide d rs ip port, List.find (rule_applies ip port) rs)"
    using Cons by simp
  show ?case
    using n(1) app IH by (auto simp: decide_def)
qed

text \<open>C28. 
  A policy that was accepted decides every request without a panic exactly as the first applicable
  rule of the list it was made from: the binary search over the ports, sorted in place by the
  validation, is membership.  A list is accepted exactly when every rule has a network and only ports
  from 1 to 65535.
\<close>

theorem policy_first_match:
  "case NewPolicy d rules of
     Inl e \<Rightarrow> \<exists>r \<in> set rules. ipNet r = None \<or> (\<exists>p \<in> set (ports r). p < 1 \<or> 65535 < p)
   | Inr p \<Rightarrow> (\<exists>r. Allowed p ip port = Ok (decide d rules ip port, r))
       \<and> list_all rule_ok (policy_rules p) \<and> length (policy_rules p) = length rules"
proof (cases "validate_all rules")
  case (Inr rs)
  note V = validate_all_spec [OF Inr, of d ip port]
  have "\<exists>r. Allowed \<lparr>defaultAllow = d, policy_rules = rs\<rparr> ip port = Ok (decide d rules ip port, r)"
  proof (cases "rs = []")
    case True
    with V show ?thesis by (simp add: Allowed_def decide_def)
  next
    case False
    with V allowed_by_decides [of rs d ip port] show ?thesis by (simp add: Allowed_def)
  qed
  with V Inr show ?thesis by (simp add: NewPolicy_def)
next
  case (Inl e)
  have "\<exists>r \<in> set rules. ipNet r = None \<or> (\<exists>p \<in> set (ports r). p < 1 \<or> 65535 < p)"
    using Inl
  proof (induction rules)
    case (Cons r rules)
    obtain x r' where v: "Validate r = (x, r')" by (cases "Validate r")
    show ?case
    proof (cases x)
      case None
      with Cons v have "validate_all rules = Inl e" by (auto split: sum.splits)
      with Cons.IH show ?thesis by auto
    next
      case (Some y)
      with Validate_spec [OF v] show ?thesis by (auto simp: not_le)
    qed
  qed simp
  with Inl show ?thesis by (simp add: NewPolicy_def)
qed

end
