(* ===== verification/Ingress_Config.thy ===== *)
theory Ingress_Config
  imports IP_Access
begin

text \<open>
  \<^verbatim>\<open>ingress/config.go\<close> and the types of \<^verbatim>\<open>config/configuration.go\<close> it reads: how the optional
  settings of a configuration become the settings of a rule.  A pointer field of the raw configuration
  is an option.  A \<^verbatim>\<open>CustomDuration\<close> is a duration in nanoseconds.  The command line is a record of
  its accessors.
\<close>

subsection \<open>Raw configuration\<close>

record AccessConfig =
  ac_Required :: bool
  ac_TeamName :: string
  ac_AudTag :: "string list"
  ac_Environment :: string

definition zero_access :: AccessConfig where
  "zero_access = \<lparr>ac_Required = False, ac_TeamName = [], ac_AudTag = [], ac_Environment = []\<rparr>"

record IngressIPRule =
  ir_Prefix :: "string option"
  ir_Ports :: "int list"
  ir_Allow :: bool

record raw_origin_request =
  raw_ConnectTimeout :: "duration option"
  raw_TLSTimeout :: "duration option"
  raw_TCPKeepAlive :: "duration option"
  raw_NoHappyEyeballs :: "bool option"
  raw_KeepAliveTimeout :: "duration option"
  raw_KeepAliveConnections :: "int option"
  raw_HTTPHostHeader :: "string option"
  raw_OriginServerName :: "string option"
  raw_MatchSNIToHost :: "bool option"
  raw_CAPool :: "string option"
  raw_NoTLSVerify :: "bool option"
  raw_DisableChunkedEncoding :: "bool option"
  raw_BastionMode :: "bool option"
  raw_ProxyAddress :: "string option"
  raw_ProxyPort :: "u64 option"
  raw_ProxyType :: "string option"
  raw_Http2Origin :: "bool option"
  raw_IPRules :: "IngressIPRule list"
  raw_Access :: "AccessConfig option"

definition empty_raw :: raw_origin_request where
  "empty_raw =
     \<lparr>raw_ConnectTimeout = None, raw_TLSTimeout = None, raw_TCPKeepAlive = None, raw_NoHappyEyeballs = None, raw_KeepAliveTimeout = None, raw_KeepAliveConnections = None, raw_HTTPHostHeader = None, raw_OriginServerName = None, raw_MatchSNIToHost = None, raw_CAPool = None, raw_NoTLSVerify = None, raw_DisableChunkedEncoding = None, raw_BastionMode = None, raw_ProxyAddress = None, raw_ProxyPort = None, raw_ProxyType = None, raw_Http2Origin = None, raw_IPRules = [], raw_Access = None\<rparr>"

subsection \<open>Settings of a rule\<close>

record origin_request =
  or_ConnectTimeout :: duration
  or_TLSTimeout :: duration
  or_TCPKeepAlive :: duration
  or_NoHappyEyeballs :: bool
  or_KeepAliveTimeout :: duration
  or_KeepAliveConnections :: int
  or_HTTPHostHeader :: string
  or_OriginServerName :: string
  or_MatchSNIToHost :: bool
  or_CAPool :: string
  or_NoTLSVerify :: bool
  or_DisableChunkedEncoding :: bool
  or_BastionMode :: bool
  or_ProxyAddress :: string
  or_ProxyPort :: u64
  or_ProxyType :: string
  or_Http2Origin :: bool
  or_IPRules :: "access_rule list"
  or_Access :: AccessConfig

definition defaultHTTPConnectTimeout :: duration where
  "defaultHTTPConnectTimeout = 30 * second_ns"

definition defaultWarpRoutingConnectTimeout :: duration where
  "defaultWarpRoutingConnectTimeout = 5 * second_ns"

definition defaultTLSTimeout :: duration where
  "defaultTLSTimeout = 10 * second_ns"

definition defaultTCPKeepAlive :: duration where
  "defaultTCPKeepAlive = 30 * second_ns"

definition defaultKeepAliveTimeout :: duration where
  "defaultKeepAliveTimeout = 90 * second_ns"

definition defaultProxyAddress :: string where
  "defaultProxyAddress = ''127.0.0.1''"

definition defaultKeepAliveConnections :: int where
  "defaultKeepAliveConnections = 100"

definition defaultMaxActiveFlows :: u64 where
  "defaultMaxActiveFlows = 0"

definition socksProxy :: string where
  "socksProxy = ''socks''"

subsection \<open>Warp routing\<close>

record raw_warp_routing =
  rw_ConnectTimeout :: "duration option"
  rw_MaxActiveFlows :: "u64 option"
  rw_TCPKeepAlive :: "duration option"

record WarpRoutingConfig =
  wr_ConnectTimeout :: duration
  wr_MaxActiveFlows :: u64
  wr_TCPKeepAlive :: duration

definition from_opt :: "'a \<Rightarrow> 'a option \<Rightarrow> 'a" where
  "from_opt d x = (case x of None \<Rightarrow> d | Some v \<Rightarrow> v)"

definition NewWarpRoutingConfig :: "raw_warp_routing \<Rightarrow> WarpRoutingConfig" where
  "NewWarpRoutingConfig raw =
     \<lparr>wr_ConnectTimeout = from_opt defaultWarpRoutingConnectTimeout (rw_ConnectTimeout raw),
      wr_MaxActiveFlows = from_opt defaultMaxActiveFlows (rw_MaxActiveFlows raw),
      wr_TCPKeepAlive = from_opt defaultTCPKeepAlive (rw_TCPKeepAlive raw)\<rparr>"

definition unless_default :: "'a \<Rightarrow> 'a \<Rightarrow> 'a option" where
  "unless_default d v = (if v \<noteq> d then Some v else None)"

definition warp_RawConfig :: "WarpRoutingConfig \<Rightarrow> raw_warp_routing" where
  "warp_RawConfig c =
     \<lparr>rw_ConnectTimeout = unless_default defaultWarpRoutingConnectTimeout (wr_ConnectTimeout c),
      rw_MaxActiveFlows = unless_default defaultMaxActiveFlows (wr_MaxActiveFlows c),
      rw_TCPKeepAlive = unless_default defaultTCPKeepAlive (wr_TCPKeepAlive c)\<rparr>"

subsection \<open>From the configuration file\<close>

text \<open>Rules that do not parse are dropped here.\<close>

fun parsed_rules :: "IngressIPRule list \<Rightarrow> access_rule list" where
  "parsed_rules [] = []"
| "parsed_rules (r # rs) =
     (case NewRuleByCIDR (ir_Prefix r) (ir_Ports r) (ir_Allow r) of
        (None, rule) \<Rightarrow> rule # parsed_rules rs
      | (Some e, rule) \<Rightarrow> parsed_rules rs)"

definition originRequestFromConfig :: "raw_origin_request \<Rightarrow> origin_request" where
  "originRequestFromConfig c =
     \<lparr>or_ConnectTimeout = from_opt defaultHTTPConnectTimeout (raw_ConnectTimeout c),
      or_TLSTimeout = from_opt defaultTLSTimeout (raw_TLSTimeout c),
      or_TCPKeepAlive = from_opt defaultTCPKeepAlive (raw_TCPKeepAlive c),
      or_NoHappyEyeballs = from_opt False (raw_NoHappyEyeballs c),
      or_KeepAliveTimeout = from_opt defaultKeepAliveTimeout (raw_KeepAliveTimeout c),
      or_KeepAliveConnections = from_opt defaultKeepAliveConnections (raw_KeepAliveConnections c),
      or_HTTPHostHeader = from_opt [] (raw_HTTPHostHeader c),
      or_OriginServerName = from_opt [] (raw_OriginServerName c),
      or_MatchSNIToHost = from_opt False (raw_MatchSNIToHost c),
      or_CAPool = from_opt [] (raw_CAPool c),
      or_NoTLSVerify = from_opt False (raw_NoTLSVerify c),
      or_DisableChunkedEncoding = from_opt False (raw_DisableChunkedEncoding c),
      or_BastionMode = from_opt False (raw_BastionMode c),
      or_ProxyAddress = from_opt defaultProxyAddress (raw_ProxyAddress c),
      or_ProxyPort = from_opt 0 (raw_ProxyPort c),
      or_ProxyType = from_opt [] (raw_ProxyType c),
      or_Http2Origin = from_opt False (raw_Http2Origin c),
      or_IPRules = parsed_rules (raw_IPRules c),
      or_Access = from_opt zero_access (raw_Access c)\<rparr>"

subsection \<open>From the command line\<close>

record cli_context =
  c_IsSet :: "string \<Rightarrow> bool"
  c_Duration :: "string \<Rightarrow> duration"
  c_Bool :: "string \<Rightarrow> bool"
  c_Int :: "string \<Rightarrow> int"
  c_String :: "string \<Rightarrow> string"
  c_Args :: "string list"

definition if_set :: "cli_context \<Rightarrow> string \<Rightarrow> (string \<Rightarrow> 'a) \<Rightarrow> 'a \<Rightarrow> 'a" where
  "if_set c flag get d = (if c_IsSet c flag then get flag else d)"

definition originRequestFromSingleRule :: "cli_context \<Rightarrow> origin_request" where
  "originRequestFromSingleRule c =
     \<lparr>or_ConnectTimeout = if_set c ''proxy-connect-timeout'' (c_Duration c) defaultHTTPConnectTimeout,
      or_TLSTimeout = if_set c ''proxy-tls-timeout'' (c_Duration c) defaultTLSTimeout,
      or_TCPKeepAlive = if_set c ''proxy-tcp-keepalive'' (c_Duration c) defaultTCPKeepAlive,
      or_NoHappyEyeballs = if_set c ''proxy-no-happy-eyeballs'' (c_Bool c) False,
      or_KeepAliveTimeout = if_set c ''proxy-keepalive-timeout'' (c_Duration c) defaultKeepAliveTimeout,
      or_KeepAliveConnections = if_set c ''proxy-keepalive-connections'' (c_Int c) defaultKeepAliveConnections,
      or_HTTPHostHeader = if_set c ''http-host-header'' (c_String c) [],
      or_OriginServerName = if_set c ''origin-server-name'' (c_String c) [],
      or_MatchSNIToHost = if_set c ''match-sni-to-host'' (c_Bool c) False,
      or_CAPool = if_set c ''origin-ca-pool'' (c_String c) [],
      or_NoTLSVerify = if_set c ''no-tls-verify'' (c_Bool c) False,
      or_DisableChunkedEncoding = if_set c ''no-chunked-encoding'' (c_Bool c) False,
      or_BastionMode = if_set c ''bastion'' (c_Bool c) False,
      or_ProxyAddress = if_set c ''proxy-address'' (c_String c) defaultProxyAddress,
      or_ProxyPort = if_set c ''proxy-port'' (\<lambda>f. word_of_int (c_Int c f)) 0,
      or_ProxyType = (if c_IsSet c ''socks5'' then socksProxy else []),
      or_Http2Origin = if_set c ''http2-origin'' (c_Bool c) False,
      or_IPRules = [], or_Access = zero_access\<rparr>"

subsection \<open>Overriding\<close>

definition set_ConnectTimeout :: "raw_origin_request \<Rightarrow> origin_request \<Rightarrow> origin_request" where
  "set_ConnectTimeout overrides d =
     (case raw_ConnectTimeout overrides of None \<Rightarrow> d | Some val \<Rightarrow> d\<lparr>or_ConnectTimeout := val\<rparr>)"

definition set_TLSTimeout :: "raw_origin_request \<Rightarrow> origin_request \<Rightarrow> origin_request" where
  "set_TLSTimeout overrides d =
     (case raw_TLSTimeout overrides of None \<Rightarrow> d | Some val \<Rightarrow> d\<lparr>or_TLSTimeout := val\<rparr>)"

definition set_TCPKeepAlive :: "raw_origin_request \<Rightarrow> origin_request \<Rightarrow> origin_request" where
  "set_TCPKeepAlive overrides d =
     (case raw_TCPKeepAlive overrides of None \<Rightarrow> d | Some val \<Rightarrow> d\<lparr>or_TCPKeepAlive := val\<rparr>)"

definition set_NoHappyEyeballs :: "raw_origin_request \<Rightarrow> origin_request \<Rightarrow> origin_request" where
  "set_NoHappyEyeballs overrides d =
     (case raw_NoHappyEyeballs overrides of None \<Rightarrow> d | Some val \<Rightarrow> d\<lparr>or_NoHappyEyeballs := val\<rparr>)"

definition set_KeepAliveTimeout :: "raw_origin_request \<Rightarrow> origin_request \<Rightarrow> origin_request" where
  "set_KeepAliveTimeout overrides d =
     (case raw_KeepAliveTimeout overrides of None \<Rightarrow> d | Some val \<Rightarrow> d\<lparr>or_KeepAliveTimeout := val\<rparr>)"

definition set_KeepAliveConnections :: "raw_origin_request \<Rightarrow> origin_request \<Rightarrow> origin_request" where
  "set_KeepAliveConnections overrides d =
     (case raw_KeepAliveConnections overrides of None \<Rightarrow> d | Some val \<Rightarrow> d\<lparr>or_KeepAliveConnections := val\<rparr>)"

definition set_HTTPHostHeader :: "raw_origin_request \<Rightarrow> origin_request \<Rightarrow> origin_request" where
  "set_HTTPHostHeader overrides d =
     (case raw_HTTPHostHeader overrides of None \<Rightarrow> d | Some val \<Rightarrow> d\<lparr>or_HTTPHostHeader := val\<rparr>)"

definition set_OriginServerName :: "raw_origin_request \<Rightarrow> origin_request \<Rightarrow> origin_request" where
  "set_OriginServerName overrides d =
     (case raw_OriginServerName overrides of None \<Rightarrow> d | Some val \<Rightarrow> d\<lparr>or_OriginServerName := val\<rparr>)"

definition set_MatchSNIToHost :: "raw_origin_request \<Rightarrow> origin_request \<Rightarrow> origin_request" where
  "set_MatchSNIToHost overrides d =
     (case raw_MatchSNIToHost overrides of None \<Rightarrow> d | Some val \<Rightarrow> d\<lparr>or_MatchSNIToHost := val\<rparr>)"

definition set_CAPool :: "raw_origin_request \<Rightarrow> origin_request \<Rightarrow> origin_request" where
  "set_CAPool overrides d =
     (case raw_CAPool overrides of None \<Rightarrow> d | Some val \<Rightarrow> d\<lparr>or_CAPool := val\<rparr>)"

definition set_NoTLSVerify :: "raw_origin_request \<Rightarrow> origin_request \<Rightarrow> origin_request" where
  "set_NoTLSVerify overrides d =
     (case raw_NoTLSVerify overrides of None \<Rightarrow> d | Some val \<Rightarrow> d\<lparr>or_NoTLSVerify := val\<rparr>)"

definition set_DisableChunkedEncoding :: "raw_origin_request \<Rightarrow> origin_request \<Rightarrow> origin_request" where
  "set_DisableChunkedEncoding overrides d =
     (case raw_DisableChunkedEncoding overrides of None \<Rightarrow> d | Some val \<Rightarrow> d\<lparr>or_DisableChunkedEncoding := val\<rparr>)"

definition set_BastionMode :: "raw_origin_request \<Rightarrow> origin_request \<Rightarrow> origin_request" where
  "set_BastionMode overrides d =
     (case raw_BastionMode overrides of None \<Rightarrow> d | Some val \<Rightarrow> d\<lparr>or_BastionMode := val\<rparr>)"

definition set_ProxyAddress :: "raw_origin_request \<Rightarrow> origin_request \<Rightarrow> origin_request" where
  "set_ProxyAddress overrides d =
     (case raw_ProxyAddress overrides of None \<Rightarrow> d | Some val \<Rightarrow> d\<lparr>or_ProxyAddress := val\<rparr>)"

definition set_ProxyPort :: "raw_origin_request \<Rightarrow> origin_request \<Rightarrow> origin_request" where
  "set_ProxyPort overrides d =
     (case raw_ProxyPort overrides of None \<Rightarrow> d | Some val \<Rightarrow> d\<lparr>or_ProxyPort := val\<rparr>)"

definition set_ProxyType :: "raw_origin_request \<Rightarrow> origin_request \<Rightarrow> origin_request" where
  "set_ProxyType overrides d =
     (case raw_ProxyType overrides of None \<Rightarrow> d | Some val \<Rightarrow> d\<lparr>or_ProxyType := val\<rparr>)"

definition set_Http2Origin :: "raw_origin_request \<Rightarrow> origin_request \<Rightarrow> origin_request" where
  "set_Http2Origin overrides d =
     (case raw_Http2Origin overrides of None \<Rightarrow> d | Some val \<Rightarrow> d\<lparr>or_Http2Origin := val\<rparr>)"

text \<open>Here a rule that does not parse leaves a zero rule in its place.\<close>

definition override_rule :: "IngressIPRule \<Rightarrow> access_rule" where
  "override_rule r =
     (case NewRuleByCIDR (ir_Prefix r) (ir_Ports r) (ir_Allow r) of
        (None, rule) \<Rightarrow> rule
      | (Some e, rule) \<Rightarrow> zero_rule)"

definition set_IPRules :: "raw_origin_request \<Rightarrow> origin_request \<Rightarrow> origin_request" where
  "set_IPRules overrides d =
     (if raw_IPRules overrides \<noteq> [] then d\<lparr>or_IPRules := map override_rule (raw_IPRules overrides)\<rparr> else d)"

definition set_Access :: "raw_origin_request \<Rightarrow> origin_request \<Rightarrow> origin_request" where
  "set_Access overrides d =
     (case raw_Access overrides of None \<Rightarrow> d | Some val \<Rightarrow> d\<lparr>or_Access := val\<rparr>)"

definition setConfig :: "origin_request \<Rightarrow> raw_origin_request \<Rightarrow> origin_request" where
  "setConfig defaults overrides =
     fold (\<lambda>f cfg. f overrides cfg)
       [set_ConnectTimeout, set_TLSTimeout, set_NoHappyEyeballs, set_KeepAliveConnections, set_KeepAliveTimeout,
        set_TCPKeepAlive, set_HTTPHostHeader, set_OriginServerName, set_MatchSNIToHost, set_CAPool, set_NoTLSVerify,
        set_DisableChunkedEncoding, set_BastionMode, set_ProxyPort, set_ProxyAddress, set_ProxyType, set_IPRules,
        set_Http2Origin, set_Access]
       defaults"

subsection \<open>Back to the raw configuration\<close>

definition defaultBoolToNil :: "bool \<Rightarrow> bool option" where
  "defaultBoolToNil b = (if \<not> b then None else Some b)"

definition emptyStringToNil :: "string \<Rightarrow> string option" where
  "emptyStringToNil s = (if s = [] then None else Some s)"

definition zeroUIntToNil :: "u64 \<Rightarrow> u64 option" where
  "zeroUIntToNil v = (if v = 0 then None else Some v)"

definition convertToRawIPRules :: "access_rule list \<Rightarrow> IngressIPRule list" where
  "convertToRawIPRules rs =
     map (\<lambda>r. \<lparr>ir_Prefix = Some (StringCIDR r), ir_Ports = ports r, ir_Allow = allow r\<rparr>) rs"

definition ConvertToRawOriginConfig :: "origin_request \<Rightarrow> raw_origin_request" where
  "ConvertToRawOriginConfig c =
     \<lparr>raw_ConnectTimeout = unless_default defaultHTTPConnectTimeout (or_ConnectTimeout c),
      raw_TLSTimeout = unless_default defaultTLSTimeout (or_TLSTimeout c),
      raw_TCPKeepAlive = unless_default defaultTCPKeepAlive (or_TCPKeepAlive c),
      raw_NoHappyEyeballs = defaultBoolToNil (or_NoHappyEyeballs c),
      raw_KeepAliveTimeout = unless_default defaultKeepAliveTimeout (or_KeepAliveTimeout c),
      raw_KeepAliveConnections = unless_default defaultKeepAliveConnections (or_KeepAliveConnections c),
      raw_HTTPHostHeader = emptyStringToNil (or_HTTPHostHeader c),
      raw_OriginServerName = emptyStringToNil (or_OriginServerName c),
      raw_MatchSNIToHost = defaultBoolToNil (or_MatchSNIToHost c),
      raw_CAPool = emptyStringToNil (or_CAPool c),
      raw_NoTLSVerify = defaultBoolToNil (or_NoTLSVerify c),
      raw_DisableChunkedEncoding = defaultBoolToNil (or_DisableChunkedEncoding c),
      raw_BastionMode = defaultBoolToNil (or_BastionMode c),
      raw_ProxyAddress = unless_default defaultProxyAddress (or_ProxyAddress c),
      raw_ProxyPort = zeroUIntToNil (or_ProxyPort c),
      raw_ProxyType = emptyStringToNil (or_ProxyType c),
      raw_Http2Origin = defaultBoolToNil (or_Http2Origin c),
      raw_IPRules = convertToRawIPRules (or_IPRules c),
      raw_Access = (if ac_Required (or_Access c) then Some (or_Access c) else None)\<rparr>"

subsection \<open>Properties\<close>

lemma from_opt_unless_default [simp]: "from_opt d (unless_default d v) = v"
  by (simp add: from_opt_def unless_default_def)

lemma from_opt_nil [simp]:
  "from_opt False (defaultBoolToNil b) = b" "from_opt [] (emptyStringToNil s) = s" "from_opt 0 (zeroUIntToNil v) = v"
  by (simp_all add: from_opt_def defaultBoolToNil_def emptyStringToNil_def zeroUIntToNil_def)

text \<open>A rule over an IPv4 network that validation accepted.\<close>

definition ipv4_rule :: "access_rule \<Rightarrow> bool" where
  "ipv4_rule r = (rule_ok r \<and> (\<exists>n. ipNet r = Some n \<and> ipv4_net n))"

lemma IPNet_String_not_Nil: "IPNet_String n \<noteq> []"
  by (simp add: IPNet_String_def split: option.split prod.split)

lemma Validate_ok: "rule_ok r \<Longrightarrow> Validate r = (None, r)"
  by (cases r) (auto simp: Validate_def rule_ok_def Let_def sorted_sort_id find_None_iff not_less split: option.split)

lemma NewRuleByCIDR_String:
  assumes "ipv4_rule r"
  shows "NewRuleByCIDR (Some (StringCIDR r)) (ports r) (allow r) = (None, r)"
proof -
  obtain n where n: "ipNet r = Some n" "ipv4_net n" "rule_ok r" using assms by (auto simp: ipv4_rule_def)
  have r: "\<lparr>ipNet = Some n, ports = ports r, allow = allow r\<rparr> = r" using n(1) by simp
  have "NewRuleByCIDR (Some (StringCIDR r)) (ports r) (allow r) = NewRule (Some n) (ports r) (allow r)"
    using n by (simp add: NewRuleByCIDR_def StringCIDR_def IPNet_String_not_Nil ParseCIDR_String)
  also have "\<dots> = (None, r)"
    unfolding NewRule_def r by (rule Validate_ok [OF n(3)])
  finally show ?thesis .
qed

lemma parsed_rules_convert: "list_all ipv4_rule rs \<Longrightarrow> parsed_rules (convertToRawIPRules rs) = rs"
proof (induction rs)
  case (Cons r rs)
  then show ?case
    using NewRuleByCIDR_String [of r] by (simp add: convertToRawIPRules_def)
qed (simp add: convertToRawIPRules_def)

lemma originRequest_convert:
  assumes "list_all ipv4_rule (or_IPRules c)" and "\<not> ac_Required (or_Access c) \<Longrightarrow> or_Access c = zero_access"
  shows "originRequestFromConfig (ConvertToRawOriginConfig c) = c"
  using assms
  by (cases c) (simp add: originRequestFromConfig_def ConvertToRawOriginConfig_def parsed_rules_convert, auto simp: from_opt_def)

lemma warp_convert: "NewWarpRoutingConfig (warp_RawConfig w) = w"
  by (cases w) (simp add: NewWarpRoutingConfig_def warp_RawConfig_def)

text \<open>
  Converting the settings of a rule to a raw configuration and reading it back gives the same
  settings, as long as the IP rules are valid IPv4 rules and the access settings are the zero
  settings unless access is required; the warp routing settings always survive.
\<close>

theorem origin_request_roundtrip:
  assumes "list_all ipv4_rule (or_IPRules c)" and "\<not> ac_Required (or_Access c) \<Longrightarrow> or_Access c = zero_access"
  shows "originRequestFromConfig (ConvertToRawOriginConfig c) = c
     \<and> NewWarpRoutingConfig (warp_RawConfig w) = w"
  using originRequest_convert [OF assms] warp_convert by simp

definition sample_request :: origin_request where
  "sample_request = (originRequestFromConfig empty_raw)\<lparr>or_ConnectTimeout := 1, or_ProxyPort := 7,
     or_IPRules := [\<lparr>ipNet = Some \<lparr>net_IP = [10, 0, 0, 0], net_Mask = CIDRMask 8 4\<rparr>, ports = [22, 80], allow = True\<rparr>]\<rparr>"

lemma sample_net: "ipv4_net \<lparr>net_IP = [10, 0, 0, 0], net_Mask = CIDRMask 8 4\<rparr>"
proof -
  have "ip_mask [10, 0, 0, 0] (CIDRMask 8 4) = [10, 0, 0, 0]" by code_simp
  then show ?thesis by (auto simp: ipv4_net_def intro: exI [of _ 8])
qed

theorem origin_request_roundtrip_witness:
  "originRequestFromConfig (ConvertToRawOriginConfig sample_request) = sample_request
   \<and> raw_IPRules (ConvertToRawOriginConfig sample_request) \<noteq> []"
proof -
  have "list_all ipv4_rule (or_IPRules sample_request)"
    using sample_net by (simp add: sample_request_def ipv4_rule_def rule_ok_def)
  moreover have "or_Access sample_request = zero_access"
    by (simp add: sample_request_def originRequestFromConfig_def empty_raw_def from_opt_def)
  ultimately have "originRequestFromConfig (ConvertToRawOriginConfig sample_request) = sample_request"
    using origin_request_roundtrip [of sample_request] by blast
  then show ?thesis by (simp add: sample_request_def ConvertToRawOriginConfig_def convertToRawIPRules_def)
qed

text \<open>The raw configuration in which a rule's own settings stand before the general ones.\<close>

definition or_else :: "'a option \<Rightarrow> 'a option \<Rightarrow> 'a option" where
  "or_else x y = (case x of None \<Rightarrow> y | Some v \<Rightarrow> Some v)"

definition merge_raw :: "raw_origin_request \<Rightarrow> raw_origin_request \<Rightarrow> raw_origin_request" where
  "merge_raw g o' =
     \<lparr>raw_ConnectTimeout = or_else (raw_ConnectTimeout o') (raw_ConnectTimeout g),
      raw_TLSTimeout = or_else (raw_TLSTimeout o') (raw_TLSTimeout g),
      raw_TCPKeepAlive = or_else (raw_TCPKeepAlive o') (raw_TCPKeepAlive g),
      raw_NoHappyEyeballs = or_else (raw_NoHappyEyeballs o') (raw_NoHappyEyeballs g),
      raw_KeepAliveTimeout = or_else (raw_KeepAliveTimeout o') (raw_KeepAliveTimeout g),
      raw_KeepAliveConnections = or_else (raw_KeepAliveConnections o') (raw_KeepAliveConnections g),
      raw_HTTPHostHeader = or_else (raw_HTTPHostHeader o') (raw_HTTPHostHeader g),
      raw_OriginServerName = or_else (raw_OriginServerName o') (raw_OriginServerName g),
      raw_MatchSNIToHost = or_else (raw_MatchSNIToHost o') (raw_MatchSNIToHost g),
      raw_CAPool = or_else (raw_CAPool o') (raw_CAPool g),
      raw_NoTLSVerify = or_else (raw_NoTLSVerify o') (raw_NoTLSVerify g),
      raw_DisableChunkedEncoding = or_else (raw_DisableChunkedEncoding o') (raw_DisableChunkedEncoding g),
      raw_BastionMode = or_else (raw_BastionMode o') (raw_BastionMode g),
      raw_ProxyAddress = or_else (raw_ProxyAddress o') (raw_ProxyAddress g),
      raw_ProxyPort = or_else (raw_ProxyPort o') (raw_ProxyPort g),
      raw_ProxyType = or_else (raw_ProxyType o') (raw_ProxyType g),
      raw_Http2Origin = or_else (raw_Http2Origin o') (raw_Http2Origin g),
      raw_IPRules = (if raw_IPRules o' = [] then raw_IPRules g else raw_IPRules o'),
      raw_Access = or_else (raw_Access o') (raw_Access g)\<rparr>"

lemma from_opt_merge: "from_opt (from_opt d y) x = from_opt d (or_else x y)"
  by (simp add: from_opt_def or_else_def split: option.split)

lemma setConfig_fields:
  "setConfig d o' =
     \<lparr>or_ConnectTimeout = from_opt (or_ConnectTimeout d) (raw_ConnectTimeout o'),
      or_TLSTimeout = from_opt (or_TLSTimeout d) (raw_TLSTimeout o'),
      or_TCPKeepAlive = from_opt (or_TCPKeepAlive d) (raw_TCPKeepAlive o'),
      or_NoHappyEyeballs = from_opt (or_NoHappyEyeballs d) (raw_NoHappyEyeballs o'),
      or_KeepAliveTimeout = from_opt (or_KeepAliveTimeout d) (raw_KeepAliveTimeout o'),
      or_KeepAliveConnections = from_opt (or_KeepAliveConnections d) (raw_KeepAliveConnections o'),
      or_HTTPHostHeader = from_opt (or_HTTPHostHeader d) (raw_HTTPHostHeader o'),
      or_OriginServerName = from_opt (or_OriginServerName d) (raw_OriginServerName o'),
      or_MatchSNIToHost = from_opt (or_MatchSNIToHost d) (raw_MatchSNIToHost o'),
      or_CAPool = from_opt (or_CAPool d) (raw_CAPool o'),
      or_NoTLSVerify = from_opt (or_NoTLSVerify d) (raw_NoTLSVerify o'),
      or_DisableChunkedEncoding = from_opt (or_DisableChunkedEncoding d) (raw_DisableChunkedEncoding o'),
      or_BastionMode = from_opt (or_BastionMode d) (raw_BastionMode o'),
      or_ProxyAddress = from_opt (or_ProxyAddress d) (raw_ProxyAddress o'),
      or_ProxyPort = from_opt (or_ProxyPort d) (raw_ProxyPort o'),
      or_ProxyType = from_opt (or_ProxyType d) (raw_ProxyType o'),
      or_Http2Origin = from_opt (or_Http2Origin d) (raw_Http2Origin o'),
      or_IPRules = (if raw_IPRules o' = [] then or_IPRules d else map override_rule (raw_IPRules o')),
      or_Access = from_opt (or_Access d) (raw_Access o')\<rparr>"
proof -
  have id: "(case x of None \<Rightarrow> y | Some v \<Rightarrow> f v) = f (from_opt z x)" if "y = f z" for x :: "'a option" and y :: 'b and f z
    using that by (cases x) (simp_all add: from_opt_def)
  have setters:
    "set_ConnectTimeout o' c = c\<lparr>or_ConnectTimeout := from_opt (or_ConnectTimeout c) (raw_ConnectTimeout o')\<rparr>"
    "set_TLSTimeout o' c = c\<lparr>or_TLSTimeout := from_opt (or_TLSTimeout c) (raw_TLSTimeout o')\<rparr>"
    "set_TCPKeepAlive o' c = c\<lparr>or_TCPKeepAlive := from_opt (or_TCPKeepAlive c) (raw_TCPKeepAlive o')\<rparr>"
    "set_NoHappyEyeballs o' c = c\<lparr>or_NoHappyEyeballs := from_opt (or_NoHappyEyeballs c) (raw_NoHappyEyeballs o')\<rparr>"
    "set_KeepAliveTimeout o' c = c\<lparr>or_KeepAliveTimeout := from_opt (or_KeepAliveTimeout c) (raw_KeepAliveTimeout o')\<rparr>"
    "set_KeepAliveConnections o' c = c\<lparr>or_KeepAliveConnections := from_opt (or_KeepAliveConnections c) (raw_KeepAliveConnections o')\<rparr>"
    "set_HTTPHostHeader o' c = c\<lparr>or_HTTPHostHeader := from_opt (or_HTTPHostHeader c) (raw_HTTPHostHeader o')\<rparr>"
    "set_OriginServerName o' c = c\<lparr>or_OriginServerName := from_opt (or_OriginServerName c) (raw_OriginServerName o')\<rparr>"
    "set_MatchSNIToHost o' c = c\<lparr>or_MatchSNIToHost := from_opt (or_MatchSNIToHost c) (raw_MatchSNIToHost o')\<rparr>"
    "set_CAPool o' c = c\<lparr>or_CAPool := from_opt (or_CAPool c) (raw_CAPool o')\<rparr>"
    "set_NoTLSVerify o' c = c\<lparr>or_NoTLSVerify := from_opt (or_NoTLSVerify c) (raw_NoTLSVerify o')\<rparr>"
    "set_DisableChunkedEncoding o' c = c\<lparr>or_DisableChunkedEncoding := from_opt (or_DisableChunkedEncoding c) (raw_DisableChunkedEncoding o')\<rparr>"
    "set_BastionMode o' c = c\<lparr>or_BastionMode := from_opt (or_BastionMode c) (raw_BastionMode o')\<rparr>"
    "set_ProxyAddress o' c = c\<lparr>or_ProxyAddress := from_opt (or_ProxyAddress c) (raw_ProxyAddress o')\<rparr>"
    "set_ProxyPort o' c = c\<lparr>or_ProxyPort := from_opt (or_ProxyPort c) (raw_ProxyPort o')\<rparr>"
    "set_ProxyType o' c = c\<lparr>or_ProxyType := from_opt (or_ProxyType c) (raw_ProxyType o')\<rparr>"
    "set_Http2Origin o' c = c\<lparr>or_Http2Origin := from_opt (or_Http2Origin c) (raw_Http2Origin o')\<rparr>"
    "set_Access o' c = c\<lparr>or_Access := from_opt (or_Access c) (raw_Access o')\<rparr>"
    "set_IPRules o' c = c\<lparr>or_IPRules := if raw_IPRules o' = [] then or_IPRules c else map override_rule (raw_IPRules o')\<rparr>" for c
    by (cases c; simp add: from_opt_def split: option.split add: set_ConnectTimeout_def set_TLSTimeout_def set_TCPKeepAlive_def set_NoHappyEyeballs_def set_KeepAliveTimeout_def set_KeepAliveConnections_def set_HTTPHostHeader_def set_OriginServerName_def set_MatchSNIToHost_def set_CAPool_def set_NoTLSVerify_def set_DisableChunkedEncoding_def set_BastionMode_def set_ProxyAddress_def set_ProxyPort_def set_ProxyType_def set_Http2Origin_def set_Access_def set_IPRules_def)+
  show ?thesis
    unfolding setConfig_def by (cases d) (simp add: setters)
qed

lemma parsed_override:
  "(\<forall>r \<in> set rs. fst (NewRuleByCIDR (ir_Prefix r) (ir_Ports r) (ir_Allow r)) = None)
    \<Longrightarrow> map override_rule rs = parsed_rules rs"
  by (induction rs) (auto simp: override_rule_def split: prod.splits option.splits)

lemma setConfig_merge:
  assumes "\<forall>r \<in> set (raw_IPRules o'). fst (NewRuleByCIDR (ir_Prefix r) (ir_Ports r) (ir_Allow r)) = None"
  shows "setConfig (originRequestFromConfig g) o' = originRequestFromConfig (merge_raw g o')"
  unfolding setConfig_fields
  using parsed_override [OF assms]
  by (simp add: originRequestFromConfig_def merge_raw_def from_opt_merge)

text \<open>C37. 
  Overriding the general settings with those of a rule is the same as merging the two raw
  configurations, the rule's own settings first, and applying the defaults once, provided the rule's
  IP rules parse.
\<close>

theorem override_is_merge:
  assumes "\<forall>r \<in> set (raw_IPRules o'). fst (NewRuleByCIDR (ir_Prefix r) (ir_Ports r) (ir_Allow r)) = None"
  shows "setConfig (originRequestFromConfig g) o' = originRequestFromConfig (merge_raw g o')"
  by (rule setConfig_merge [OF assms])

theorem override_is_merge_witness:
  "or_ProxyPort (setConfig (originRequestFromConfig empty_raw) (empty_raw\<lparr>raw_ProxyPort := Some 7\<rparr>)) = 7"
  using override_is_merge [of "empty_raw\<lparr>raw_ProxyPort := Some 7\<rparr>" empty_raw]
  by (simp add: empty_raw_def originRequestFromConfig_def merge_raw_def or_else_def from_opt_def)

text \<open>
  An IP rule that does not parse disappears from the general settings but stays in a rule's own
  settings as the zero rule, which no policy accepts and on which a request would panic.
\<close>

theorem invalid_ip_rule_zeroed:
  assumes "raw_IPRules raw = [r]" and "NewRuleByCIDR (ir_Prefix r) (ir_Ports r) (ir_Allow r) = (Some e, x)"
  shows "or_IPRules (originRequestFromConfig raw) = []
     \<and> or_IPRules (setConfig d raw) = [zero_rule]
     \<and> NewPolicy allow_all (or_IPRules (setConfig d raw)) = Inl NoIPNet
     \<and> Allowed \<lparr>defaultAllow = allow_all, policy_rules = or_IPRules (setConfig d raw)\<rparr> ip port = Panic"
  using assms
  by (simp add: originRequestFromConfig_def setConfig_fields override_rule_def NewPolicy_def Validate_def
      zero_rule_def Allowed_def)

theorem invalid_ip_rule_zeroed_witness:
  "or_IPRules (setConfig sample_request (empty_raw\<lparr>raw_IPRules := [\<lparr>ir_Prefix = None, ir_Ports = [], ir_Allow = True\<rparr>]\<rparr>))
     = [zero_rule]"
  using invalid_ip_rule_zeroed [of "empty_raw\<lparr>raw_IPRules := [\<lparr>ir_Prefix = None, ir_Ports = [], ir_Allow = True\<rparr>]\<rparr>"
      "\<lparr>ir_Prefix = None, ir_Ports = [], ir_Allow = True\<rparr>" NoPrefix zero_rule sample_request]
  by (simp add: NewRuleByCIDR_def)

end
