(* ===== verification/Ingress.thy ===== *)
theory Ingress
  imports Ingress_Config
begin

text \<open>
  \<^verbatim>\<open>ingress/ingress.go\<close>, \<^verbatim>\<open>ingress/rule.go\<close> and the services of \<^verbatim>\<open>ingress/origin_service.go\<close>: how
  a list of ingress rules is validated and which rule a request takes.  URL parsing, IDNA and regular
  expressions belong to libraries: their results are the fields of \<open>ingress_lib\<close>.
\<close>

subsection \<open>URLs\<close>

record url =
  u_Scheme :: string
  u_Host :: string
  u_Path :: string
  u_String :: string

definition validOptionalPort :: "string \<Rightarrow> bool" where
  "validOptionalPort p = (p = [] \<or> hd p = CHR '':'' \<and> list_all is_digit (tl p))"

text \<open>\<^verbatim>\<open>URL.Hostname\<close> and \<^verbatim>\<open>URL.Port\<close>.\<close>

definition url_split :: "string \<Rightarrow> string \<times> string" where
  "url_split h =
     (let (host, port) =
        (case last_index_byte CHR '':'' h of
           None \<Rightarrow> (h, [])
         | Some i \<Rightarrow> if validOptionalPort (drop i h) then (take i h, drop (i + 1) h) else (h, []))
      in (if has_prefix host ''['' \<and> has_suffix host '']'' then butlast (tl host) else host, port))"

definition url_Hostname :: "url \<Rightarrow> string" where
  "url_Hostname u = fst (url_split (u_Host u))"

definition url_Port :: "url \<Rightarrow> string" where
  "url_Port u = snd (url_split (u_Host u))"

definition JoinHostPort :: "string \<Rightarrow> string \<Rightarrow> string" where
  "JoinHostPort host port =
     (if CHR '':'' \<in> set host then ''['' @ host @ '']:'' @ port else host @ '':'' @ port)"

record ingress_lib =
  lib_url :: "string \<Rightarrow> url option"
  lib_validate_url :: "string \<Rightarrow> url option"
  lib_idna :: "string \<Rightarrow> string option"
  lib_compile :: "string \<Rightarrow> bool"
  lib_match :: "string \<Rightarrow> string \<Rightarrow> bool"

subsection \<open>Origin services\<close>

datatype OriginService =
    UnixSocketPath (us_path: string) (us_scheme: string)
  | HttpService url
  | TCPOverWS (ws_scheme: string) (ws_dest: string) (ws_isBastion: bool)
  | SocksProxyOverWS Policy
  | HelloWorld
  | StatusCode (sc_code: int) (sc_default: bool)
  | ManagementSvc

definition HelloWorldService :: string where
  "HelloWorldService = ''hello_world''"

definition HelloWorldFlag :: string where
  "HelloWorldFlag = ''hello-world''"

definition ServiceBastion :: string where
  "ServiceBastion = ''bastion''"

definition ServiceSocksProxy :: string where
  "ServiceSocksProxy = ''socks-proxy''"

definition addPortIfMissing :: "url \<Rightarrow> int \<Rightarrow> url" where
  "addPortIfMissing u port =
     (if url_Port u = [] then u\<lparr>u_Host := JoinHostPort (url_Hostname u) (int_to_string port)\<rparr> else u)"

definition newTCPOverWSService :: "url \<Rightarrow> OriginService" where
  "newTCPOverWSService u0 =
     (let u = (if u_Scheme u0 = ''ssh'' then addPortIfMissing u0 22
               else if u_Scheme u0 = ''rdp'' then addPortIfMissing u0 3389
               else if u_Scheme u0 = ''smb'' then addPortIfMissing u0 445
               else if u_Scheme u0 = ''tcp'' then addPortIfMissing u0 7864
               else u0)
      in TCPOverWS (u_Scheme u) (u_Host u) False)"

definition newBastionService :: OriginService where
  "newBastionService = TCPOverWS [] [] True"

definition newDefaultStatusCode :: OriginService where
  "newDefaultStatusCode = StatusCode 503 True"

fun service_String :: "OriginService \<Rightarrow> string" where
  "service_String (UnixSocketPath path scheme) =
     ''unix'' @ (if scheme = ''https'' then ''+tls'' else []) @ '':'' @ path"
| "service_String (HttpService u) = u_String u"
| "service_String (TCPOverWS scheme dest isBastion) =
     (if isBastion then ServiceBastion
      else if scheme \<noteq> [] then scheme @ ''://'' @ dest else dest)"
| "service_String (SocksProxyOverWS p) = ServiceSocksProxy"
| "service_String HelloWorld = HelloWorldService"
| "service_String (StatusCode code d) = ''http_status:'' @ int_to_string code"
| "service_String ManagementSvc = ''management''"

definition isHTTPService :: "url \<Rightarrow> bool" where
  "isHTTPService u =
     (u_Scheme u = ''http'' \<or> u_Scheme u = ''https'' \<or> u_Scheme u = ''ws'' \<or> u_Scheme u = ''wss'')"

subsection \<open>Rules\<close>

record ingress_rule =
  r_Hostname :: string
  punycodeHostname :: string
  r_Path :: "string option"
  r_Service :: OriginService
  r_Handlers :: "AccessConfig list"
  r_Config :: origin_request

record Ingress =
  InternalRules :: "ingress_rule list"
  ing_Rules :: "ingress_rule list"
  ing_Defaults :: origin_request

record UnvalidatedIngressRule =
  ur_Hostname :: string
  ur_Path :: string
  ur_Service :: string
  ur_OriginRequest :: raw_origin_request

definition matchHost :: "string \<Rightarrow> string \<Rightarrow> bool" where
  "matchHost ruleHost reqHost =
     (if ruleHost = reqHost then True
      else if has_prefix ruleHost ''*.'' then has_suffix reqHost (trim_prefix ruleHost ''*'')
      else False)"

definition rule_Matches :: "ingress_lib \<Rightarrow> ingress_rule \<Rightarrow> string \<Rightarrow> string \<Rightarrow> bool" where
  "rule_Matches lib r hostname path =
     (let hostMatch = (if r_Hostname r = [] \<or> r_Hostname r = ''*'' then True else matchHost (r_Hostname r) hostname);
          punycodeHostMatch = (if punycodeHostname r \<noteq> [] then matchHost (punycodeHostname r) hostname else False);
          pathMatch = (case r_Path r of None \<Rightarrow> True | Some re \<Rightarrow> lib_match lib re path)
      in (hostMatch \<or> punycodeHostMatch) \<and> pathMatch)"

fun first_match :: "(ingress_rule \<Rightarrow> bool) \<Rightarrow> nat \<Rightarrow> ingress_rule list \<Rightarrow> (ingress_rule \<times> nat) option" where
  "first_match m i [] = None"
| "first_match m i (r # rs) = (if m r then Some (r, i) else first_match m (i + 1) rs)"

text \<open>The last index of an empty list is out of range.\<close>

definition FindMatchingRule :: "ingress_lib \<Rightarrow> Ingress \<Rightarrow> string \<Rightarrow> string \<Rightarrow> ('e, ingress_rule \<times> int) outcome" where
  "FindMatchingRule lib ing hostname0 path =
     (let hostname = (case SplitHostPort hostname0 of Some (host, port) \<Rightarrow> host | None \<Rightarrow> hostname0)
      in case first_match (\<lambda>r. rule_Matches lib r hostname path) 0 (InternalRules ing) of
           Some (r, i) \<Rightarrow> Ok (r, -1 - int i)
         | None \<Rightarrow>
             (case first_match (\<lambda>r. rule_Matches lib r hostname path) 0 (ing_Rules ing) of
                Some (r, i) \<Rightarrow> Ok (r, int i)
              | None \<Rightarrow>
                  if ing_Rules ing = [] then Panic
                  else Ok (last (ing_Rules ing), int (length (ing_Rules ing)) - 1)))"

definition ing_IsEmpty :: "Ingress \<Rightarrow> bool" where
  "ing_IsEmpty ing = (length (ing_Rules ing) = 0)"

definition IsSingleRule :: "Ingress \<Rightarrow> bool" where
  "IsSingleRule ing = (length (ing_Rules ing) = 1)"

definition CatchAll :: "Ingress \<Rightarrow> ('e, ingress_rule) outcome" where
  "CatchAll ing = (if ing_Rules ing = [] then Panic else Ok (last (ing_Rules ing)))"

definition MultiLineString :: "ingress_rule \<Rightarrow> string" where
  "MultiLineString r =
     (if r_Hostname r \<noteq> [] then CHR 0x09 # ''hostname: '' @ r_Hostname r @ [CHR 0x0A] else [])
     @ (case r_Path r of None \<Rightarrow> [] | Some re \<Rightarrow> CHR 0x09 # ''path: '' @ re @ [CHR 0x0A])
     @ CHR 0x09 # ''service: '' @ service_String (r_Service r)"

subsection \<open>Validation\<close>

datatype ingress_error =
    InvalidStatusCode
  | StatusCodeOutOfRange int
  | IPRuleError access_error
  | PolicyError access_error
  | UrlParseError
  | InvalidAddress string
  | PathNotSupported string
  | TeamNameBlank
  | HostnameContainsPort
  | BadWildcard
  | LastRuleNotCatchAll
  | RuleShouldNotBeCatchAll nat string
  | InvalidRegex nat
  | NoIngressRules
  | NoIngressRulesCLI
  | OriginURLError
  | UnixSocketNotExclusive

fun access_rules :: "IngressIPRule list \<Rightarrow> access_error + access_rule list" where
  "access_rules [] = Inr []"
| "access_rules (r # rs) =
     (case NewRuleByCIDR (ir_Prefix r) (ir_Ports r) (ir_Allow r) of
        (Some e, rule) \<Rightarrow> Inl e
      | (None, rule) \<Rightarrow> (case access_rules rs of Inl e \<Rightarrow> Inl e | Inr rules \<Rightarrow> Inr (rule # rules)))"

text \<open>The service of a rule, and the settings as the bastion case leaves them.\<close>

definition url_service :: "ingress_lib \<Rightarrow> string \<Rightarrow> ingress_error + OriginService" where
  "url_service lib s =
     (case lib_url lib s of
        None \<Rightarrow> Inl UrlParseError
      | Some u \<Rightarrow>
          if u_Scheme u = [] \<or> url_Hostname u = [] then Inl (InvalidAddress s)
          else if u_Path u \<noteq> [] then Inl (PathNotSupported s)
          else if isHTTPService u then Inr (HttpService u)
          else Inr (newTCPOverWSService u))"

definition status_service :: "string \<Rightarrow> ingress_error + OriginService" where
  "status_service s =
     (case atoi s of
        None \<Rightarrow> Inl InvalidStatusCode
      | Some code \<Rightarrow>
          if code < 100 \<or> code > 999 then Inl (StatusCodeOutOfRange code) else Inr (StatusCode code False))"

definition socks_service :: "IngressIPRule list \<Rightarrow> ingress_error + OriginService" where
  "socks_service irs =
     (case access_rules irs of
        Inl e \<Rightarrow> Inl (IPRuleError e)
      | Inr rules \<Rightarrow>
          (case NewPolicy False rules of
             Inl e \<Rightarrow> Inl (PolicyError e)
           | Inr policy \<Rightarrow> Inr (SocksProxyOverWS policy)))"

definition rule_service ::
    "ingress_lib \<Rightarrow> UnvalidatedIngressRule \<Rightarrow> origin_request \<Rightarrow> ingress_error + OriginService \<times> origin_request" where
  "rule_service lib r cfg =
     (let s = ur_Service r;
          keep = (\<lambda>x. case x of Inl e \<Rightarrow> Inl e | Inr svc \<Rightarrow> Inr (svc, cfg))
      in if has_prefix s ''unix:'' then Inr (UnixSocketPath (trim_prefix s ''unix:'') ''http'', cfg)
         else if has_prefix s ''unix+tls:'' then Inr (UnixSocketPath (trim_prefix s ''unix+tls:'') ''https'', cfg)
         else if has_prefix s ''http_status:'' then keep (status_service (trim_prefix s ''http_status:''))
         else if s = HelloWorldFlag \<or> s = HelloWorldService then Inr (HelloWorld, cfg)
         else if s = ServiceSocksProxy then keep (socks_service (raw_IPRules (ur_OriginRequest r)))
         else if s = ServiceBastion \<or> or_BastionMode cfg then Inr (newBastionService, cfg\<lparr>or_BastionMode := True\<rparr>)
         else keep (url_service lib s))"

definition validateAccessConfiguration :: "AccessConfig \<Rightarrow> ingress_error option" where
  "validateAccessConfiguration cfg =
     (if \<not> ac_Required cfg then None
      else if ac_TeamName cfg = [] \<and> ac_AudTag cfg \<noteq> [] then Some TeamNameBlank
      else None)"

definition rule_handlers :: "UnvalidatedIngressRule \<Rightarrow> ingress_error + AccessConfig list" where
  "rule_handlers r =
     (case raw_Access (ur_OriginRequest r) of
        None \<Rightarrow> Inr []
      | Some access \<Rightarrow>
          (case validateAccessConfiguration access of
             Some e \<Rightarrow> Inl e
           | None \<Rightarrow> Inr (if ac_Required access then [access] else [])))"

definition isCatchAllRule :: "UnvalidatedIngressRule \<Rightarrow> bool" where
  "isCatchAllRule r = ((ur_Hostname r = [] \<or> ur_Hostname r = ''*'') \<and> ur_Path r = [])"

definition validateHostname :: "UnvalidatedIngressRule \<Rightarrow> nat \<Rightarrow> nat \<Rightarrow> ingress_error option" where
  "validateHostname r ruleIndex totalRules =
     (if SplitHostPort (ur_Hostname r) \<noteq> None then Some HostnameContainsPort
      else if (case last_index_byte CHR ''*'' (ur_Hostname r) of None \<Rightarrow> False | Some i \<Rightarrow> 0 < i) then Some BadWildcard
      else
        (let isLastRule = (int ruleIndex = int totalRules - 1)
         in if isLastRule \<and> \<not> isCatchAllRule r then Some LastRuleNotCatchAll
            else if \<not> isLastRule \<and> isCatchAllRule r then Some (RuleShouldNotBeCatchAll ruleIndex (ur_Hostname r))
            else None))"

definition rule_punycode :: "ingress_lib \<Rightarrow> UnvalidatedIngressRule \<Rightarrow> string" where
  "rule_punycode lib r =
     (if isCatchAllRule r then []
      else case lib_idna lib (ur_Hostname r) of
             None \<Rightarrow> []
           | Some p \<Rightarrow> if p \<noteq> ur_Hostname r then p else [])"

definition validate_rule ::
    "ingress_lib \<Rightarrow> origin_request \<Rightarrow> nat \<Rightarrow> nat \<Rightarrow> UnvalidatedIngressRule \<Rightarrow> ingress_error + ingress_rule" where
  "validate_rule lib defaults i tot r =
     (case rule_service lib r (setConfig defaults (ur_OriginRequest r)) of
        Inl e \<Rightarrow> Inl e
      | Inr (service, cfg) \<Rightarrow>
          (case rule_handlers r of
             Inl e \<Rightarrow> Inl e
           | Inr handlers \<Rightarrow>
               (case validateHostname r i tot of
                  Some e \<Rightarrow> Inl e
                | None \<Rightarrow>
                    if ur_Path r \<noteq> [] \<and> \<not> lib_compile lib (ur_Path r) then Inl (InvalidRegex (i + 1))
                    else Inr \<lparr>r_Hostname = ur_Hostname r, punycodeHostname = rule_punycode lib r,
                              r_Path = (if ur_Path r \<noteq> [] then Some (ur_Path r) else None),
                              r_Service = service, r_Handlers = handlers, r_Config = cfg\<rparr>)))"

fun validate_rules ::
    "ingress_lib \<Rightarrow> origin_request \<Rightarrow> nat \<Rightarrow> nat \<Rightarrow> UnvalidatedIngressRule list \<Rightarrow> ingress_error + ingress_rule list" where
  "validate_rules lib defaults i tot [] = Inr []"
| "validate_rules lib defaults i tot (r # rs) =
     (case validate_rule lib defaults i tot r of
        Inl e \<Rightarrow> Inl e
      | Inr rule \<Rightarrow>
          (case validate_rules lib defaults (i + 1) tot rs of
             Inl e \<Rightarrow> Inl e
           | Inr rules \<Rightarrow> Inr (rule # rules)))"

definition validateIngress ::
    "ingress_lib \<Rightarrow> UnvalidatedIngressRule list \<Rightarrow> origin_request \<Rightarrow> ingress_error + Ingress" where
  "validateIngress lib rules defaults =
     (case validate_rules lib defaults 0 (length rules) rules of
        Inl e \<Rightarrow> Inl e
      | Inr rs \<Rightarrow> Inr \<lparr>InternalRules = [], ing_Rules = rs, ing_Defaults = defaults\<rparr>)"

subsection \<open>Where the ingress comes from\<close>

record Configuration =
  conf_Ingress :: "UnvalidatedIngressRule list"
  conf_WarpRouting :: raw_warp_routing
  conf_OriginRequest :: raw_origin_request

definition ParseIngress :: "ingress_lib \<Rightarrow> Configuration option \<Rightarrow> ingress_error + Ingress" where
  "ParseIngress lib conf =
     (case conf of
        None \<Rightarrow> Inl NoIngressRules
      | Some c \<Rightarrow>
          if conf_Ingress c = [] then Inl NoIngressRules
          else validateIngress lib (conf_Ingress c) (originRequestFromConfig (conf_OriginRequest c)))"

definition ValidateUnixSocket :: "cli_context \<Rightarrow> ingress_error + string" where
  "ValidateUnixSocket c =
     (if c_IsSet c ''unix-socket'' \<and> (c_IsSet c ''url'' \<or> c_Args c \<noteq> []) then Inl UnixSocketNotExclusive
      else Inr (c_String c ''unix-socket''))"

definition ValidateUrl :: "ingress_lib \<Rightarrow> cli_context \<Rightarrow> bool \<Rightarrow> url option" where
  "ValidateUrl lib c allowURLFromArgs =
     (if allowURLFromArgs \<and> c_Args c \<noteq> []
      then (if c_IsSet c ''url'' then None else lib_validate_url lib (hd (c_Args c)))
      else lib_validate_url lib (c_String c ''url''))"

definition parseSingleOriginService :: "ingress_lib \<Rightarrow> cli_context \<Rightarrow> bool \<Rightarrow> ingress_error + OriginService" where
  "parseSingleOriginService lib c allowURLFromArgs =
     (if c_IsSet c HelloWorldFlag then Inr HelloWorld
      else if c_IsSet c ''bastion'' then Inr newBastionService
      else if c_IsSet c ''url'' then
        (case ValidateUrl lib c allowURLFromArgs of
           None \<Rightarrow> Inl OriginURLError
         | Some u \<Rightarrow> if isHTTPService u then Inr (HttpService u) else Inr (newTCPOverWSService u))
      else if c_IsSet c ''unix-socket'' then
        (case ValidateUnixSocket c of
           Inl e \<Rightarrow> Inl e
         | Inr path \<Rightarrow> Inr (UnixSocketPath path ''http''))
      else Inl NoIngressRulesCLI)"

definition single_rule :: "OriginService \<Rightarrow> origin_request \<Rightarrow> ingress_rule" where
  "single_rule svc cfg =
     \<lparr>r_Hostname = [], punycodeHostname = [], r_Path = None, r_Service = svc, r_Handlers = [], r_Config = cfg\<rparr>"

definition parseCLIIngress :: "ingress_lib \<Rightarrow> cli_context \<Rightarrow> bool \<Rightarrow> ingress_error + Ingress" where
  "parseCLIIngress lib c allowURLFromArgs =
     (case parseSingleOriginService lib c allowURLFromArgs of
        Inl e \<Rightarrow> Inl e
      | Inr service \<Rightarrow>
          let defaults = originRequestFromSingleRule c
          in Inr \<lparr>InternalRules = [], ing_Rules = [single_rule service (setConfig defaults empty_raw)],
                  ing_Defaults = defaults\<rparr>)"

definition zero_request :: origin_request where
  "zero_request =
     \<lparr>or_ConnectTimeout = 0, or_TLSTimeout = 0, or_TCPKeepAlive = 0, or_NoHappyEyeballs = False, or_KeepAliveTimeout = 0,
      or_KeepAliveConnections = 0, or_HTTPHostHeader = [], or_OriginServerName = [], or_MatchSNIToHost = False,
      or_CAPool = [], or_NoTLSVerify = False, or_DisableChunkedEncoding = False, or_BastionMode = False,
      or_ProxyAddress = [], or_ProxyPort = 0, or_ProxyType = [], or_Http2Origin = False, or_IPRules = [],
      or_Access = zero_access\<rparr>"

definition GetDefaultIngressRules :: "ingress_rule list" where
  "GetDefaultIngressRules = [single_rule newDefaultStatusCode zero_request]"

definition newDefaultOrigin :: "cli_context \<Rightarrow> Ingress" where
  "newDefaultOrigin c =
     \<lparr>InternalRules = [], ing_Rules = GetDefaultIngressRules, ing_Defaults = originRequestFromSingleRule c\<rparr>"

text \<open>\<^verbatim>\<open>Ingress{}\<close>, which is also what comes back, without an error, for parsed rules that are empty.\<close>

definition zero_ingress :: Ingress where
  "zero_ingress = \<lparr>InternalRules = [], ing_Rules = [], ing_Defaults = zero_request\<rparr>"

definition ParseIngressFromConfigAndCLI ::
    "ingress_lib \<Rightarrow> Configuration option \<Rightarrow> cli_context \<Rightarrow> ingress_error + Ingress" where
  "ParseIngressFromConfigAndCLI lib conf c =
     (case ParseIngress lib conf of
        Inr ing \<Rightarrow> if \<not> ing_IsEmpty ing then Inr ing else Inr zero_ingress
      | Inl e \<Rightarrow>
          if e \<noteq> NoIngressRules then Inl e
          else (case parseCLIIngress lib c False of
                  Inr ing \<Rightarrow> Inr ing
                | Inl e' \<Rightarrow> if e' = NoIngressRulesCLI then Inr (newDefaultOrigin c) else Inl e'))"

text \<open>\<^verbatim>\<open>RemoteConfig.UnmarshalJSON\<close>, after the JSON was read: it does not ask for at least one rule.\<close>

record RemoteConfigJSON =
  GlobalOriginRequest :: "raw_origin_request option"
  IngressRules :: "UnvalidatedIngressRule list"
  rc_WarpRouting :: raw_warp_routing

definition RemoteConfig_Unmarshal :: "ingress_lib \<Rightarrow> RemoteConfigJSON \<Rightarrow> ingress_error + Ingress \<times> WarpRoutingConfig" where
  "RemoteConfig_Unmarshal lib raw =
     (case validateIngress lib (IngressRules raw) (originRequestFromConfig (from_opt empty_raw (GlobalOriginRequest raw))) of
        Inl e \<Rightarrow> Inl e
      | Inr ing \<Rightarrow> Inr (ing, NewWarpRoutingConfig (rc_WarpRouting raw)))"

subsection \<open>What an accepted list of rules guarantees\<close>

lemma matchHost_iff:
  "matchHost r h \<longleftrightarrow> r = h \<or> (\<exists>d p. r = ''*.'' @ d \<and> h = p @ ''.'' @ d)"
proof -
  have "trim_prefix (''*.'' @ d) ''*'' = ''.'' @ d" for d
    using trim_prefix_append [of "''*''" "''.'' @ d"] by simp
  then have "has_prefix r ''*.'' \<and> has_suffix h (trim_prefix r ''*'') \<longleftrightarrow> (\<exists>d p. r = ''*.'' @ d \<and> h = p @ ''.'' @ d)"
    by (fastforce simp: has_prefix_iff has_suffix_iff)
  then show ?thesis
    by (auto simp: matchHost_def)
qed

lemma validateHostname_None:
  "validateHostname r i n = None \<longleftrightarrow>
     SplitHostPort (ur_Hostname r) = None \<and> CHR ''*'' \<notin> set (tl (ur_Hostname r)) \<and> (isCatchAllRule r \<longleftrightarrow> i + 1 = n)"
proof -
  have "(case last_index_byte CHR ''*'' h of None \<Rightarrow> False | Some i \<Rightarrow> 0 < i) \<longleftrightarrow> CHR ''*'' \<in> set (tl h)" for h
  proof (cases h)
    case (Cons a t)
    then show ?thesis
      using last_index_byte_None_iff [of "CHR ''*''" t] by (cases "last_index_byte CHR ''*'' t") auto
  qed simp
  moreover have "int i = int n - 1 \<longleftrightarrow> i + 1 = n" by auto
  ultimately show ?thesis
    by (cases "SplitHostPort (ur_Hostname r)") (auto simp: validateHostname_def Let_def)
qed

lemma validate_rule_Inr:
  assumes "validate_rule lib d i n r = Inr rule"
  shows "validateHostname r i n = None" and "r_Hostname rule = ur_Hostname r"
    and "r_Path rule = (if ur_Path r = [] then None else Some (ur_Path r))"
  using assms by (auto simp: validate_rule_def split: sum.splits prod.splits option.splits if_splits)

lemma validate_rules_nth:
  "\<lbrakk>validate_rules lib d i n rs = Inr rules; j < length rs\<rbrakk> \<Longrightarrow> validate_rule lib d (i + j) n (rs ! j) = Inr (rules ! j)"
proof (induction rs arbitrary: i j rules)
  case (Cons r rs)
  then obtain rule rest where s: "validate_rule lib d i n r = Inr rule" "validate_rules lib d (i + 1) n rs = Inr rest"
    "rules = rule # rest"
    by (auto split: sum.splits)
  show ?case
    using Cons.IH [OF s(2), of "j - 1"] Cons.prems(2) s by (cases j) auto
qed simp

lemma validate_rules_length: "validate_rules lib d i n rs = Inr rules \<Longrightarrow> length rules = length rs"
  by (induction rs arbitrary: i rules) (auto split: sum.splits)

lemma validateIngress_Inr:
  assumes "validateIngress lib rs d = Inr ing"
  shows "InternalRules ing = []" and "length (ing_Rules ing) = length rs"
    and "j < length rs \<Longrightarrow> validate_rule lib d j (length rs) (rs ! j) = Inr (ing_Rules ing ! j)"
  using assms validate_rules_nth [of lib d 0 "length rs" rs "ing_Rules ing" j]
  by (auto simp: validateIngress_def validate_rules_length split: sum.splits)

lemma catch_all_Matches:
  "\<lbrakk>r_Hostname r = [] \<or> r_Hostname r = ''*''; r_Path r = None\<rbrakk> \<Longrightarrow> rule_Matches lib r h p"
  by (auto simp: rule_Matches_def Let_def)

text \<open>The rules of a usable ingress: the last one takes every request.\<close>

definition last_catches_all :: "Ingress \<Rightarrow> bool" where
  "last_catches_all ing =
     (ing_Rules ing \<noteq> [] \<and> (r_Hostname (last (ing_Rules ing)) = [] \<or> r_Hostname (last (ing_Rules ing)) = ''*'')
      \<and> r_Path (last (ing_Rules ing)) = None)"

lemma validated_last_catches_all:
  assumes "validateIngress lib rs d = Inr ing" and "rs \<noteq> []"
  shows "last_catches_all ing"
proof -
  let ?j = "length rs - 1"
  have j: "?j < length rs" "?j + 1 = length rs" using assms(2) by (cases rs; simp)+
  note v = validate_rule_Inr [OF validateIngress_Inr(3) [OF assms(1) j(1)]]
  have "ing_Rules ing \<noteq> []" using validateIngress_Inr(2) [OF assms(1)] assms(2) by auto
  moreover have "last (ing_Rules ing) = ing_Rules ing ! ?j"
    using calculation validateIngress_Inr(2) [OF assms(1)] by (simp add: last_conv_nth)
  moreover have "isCatchAllRule (rs ! ?j)"
    using v(1) j(2) by (simp add: validateHostname_None)
  ultimately show ?thesis
    using v(2,3) by (simp add: last_catches_all_def isCatchAllRule_def)
qed

lemma first_match_Some:
  "first_match m k rs = Some (r, i) \<longleftrightarrow>
     k \<le> i \<and> i - k < length rs \<and> r = rs ! (i - k) \<and> m r \<and> (\<forall>j < i - k. \<not> m (rs ! j))"
proof (induction rs arbitrary: k)
  case (Cons x rs)
  show ?case
  proof (cases "m x")
    case True
    then show ?thesis by (cases "i = k") (auto intro!: exI [of _ 0])
  next
    case False
    have "(\<forall>j < i - k. \<not> m ((x # rs) ! j)) \<longleftrightarrow> (\<forall>j < i - (k + 1). \<not> m (rs ! j))" if "k + 1 \<le> i"
      using False that by (auto simp: nth_Cons' less_Suc_eq_0_disj) (metis One_nat_def Suc_diff_Suc Suc_le_eq Suc_less_eq diff_Suc_1 nat.distinct(1) zero_less_Suc)
    then show ?thesis
      using False Cons.IH [of "k + 1"] by (cases "i = k") (auto simp: nth_Cons')
  qed
qed simp

lemma first_match_exists: "\<lbrakk>r \<in> set rs; m r\<rbrakk> \<Longrightarrow> first_match m k rs \<noteq> None"
  by (induction rs arbitrary: k) auto

definition request_host :: "string \<Rightarrow> string" where
  "request_host h = (case SplitHostPort h of Some (host, port) \<Rightarrow> host | None \<Rightarrow> h)"

text \<open>The rule an ingress whose last rule catches everything picks: an internal one first.\<close>

lemma FindMatchingRule_internal:
  assumes "first_match (\<lambda>r. rule_Matches lib r (request_host h) p) 0 (InternalRules ing) = Some (r, i)"
  shows "FindMatchingRule lib ing h p = Ok (r, -1 - int i)"
  using assms by (simp add: FindMatchingRule_def request_host_def)

lemma FindMatchingRule_user:
  assumes "last_catches_all ing"
    and "first_match (\<lambda>r. rule_Matches lib r (request_host h) p) 0 (InternalRules ing) = None"
  shows "\<exists>i < length (ing_Rules ing). FindMatchingRule lib ing h p = Ok (ing_Rules ing ! i, int i)
           \<and> rule_Matches lib (ing_Rules ing ! i) (request_host h) p
           \<and> (\<forall>j < i. \<not> rule_Matches lib (ing_Rules ing ! j) (request_host h) p)"
proof -
  let ?m = "\<lambda>r. rule_Matches lib r (request_host h) p"
  have "last (ing_Rules ing) \<in> set (ing_Rules ing)" "?m (last (ing_Rules ing))"
    using assms(1) by (simp_all add: last_catches_all_def catch_all_Matches)
  then obtain r i where f: "first_match ?m 0 (ing_Rules ing) = Some (r, i)"
    using first_match_exists [of "last (ing_Rules ing)" "ing_Rules ing" ?m 0] by fastforce
  then have "FindMatchingRule lib ing h p = Ok (r, int i)"
    using assms(2) by (simp add: FindMatchingRule_def request_host_def)
  then show ?thesis
    using f [unfolded first_match_Some] by auto
qed

lemma FindMatchingRule_not_Panic: "last_catches_all ing \<Longrightarrow> FindMatchingRule lib ing h p \<noteq> Panic"
  by (auto simp: FindMatchingRule_def last_catches_all_def Let_def split: option.splits)

lemma FindMatchingRule_Ok: "last_catches_all ing \<Longrightarrow> \<exists>r i. FindMatchingRule lib ing h p = Ok (r, i)"
  by (auto simp: FindMatchingRule_def last_catches_all_def Let_def split: option.splits)

text \<open>C6. A validated list of rules routes every request, to the first rule that matches it.\<close>

theorem validated_ingress_first_match:
  assumes "validateIngress lib rs d = Inr ing" and "rs \<noteq> []"
  shows "\<exists>i < length rs. FindMatchingRule lib ing h p = Ok (ing_Rules ing ! i, int i)
           \<and> rule_Matches lib (ing_Rules ing ! i) (request_host h) p
           \<and> (\<forall>j < i. \<not> rule_Matches lib (ing_Rules ing ! j) (request_host h) p)"
  using FindMatchingRule_user [OF validated_last_catches_all [OF assms]] validateIngress_Inr(1,2) [OF assms(1)]
  by simp

text \<open>A URL, a plain lookup and no regular expressions: enough to run the validation.\<close>

definition sample_lib :: ingress_lib where
  "sample_lib =
     \<lparr>lib_url = (\<lambda>s. if has_prefix s ''http://'' then Some \<lparr>u_Scheme = ''http'', u_Host = drop 7 s, u_Path = [], u_String = s\<rparr> else None),
      lib_validate_url = (\<lambda>s. None), lib_idna = Some, lib_compile = (\<lambda>s. True), lib_match = (=)\<rparr>"

definition sample_ur :: "string \<Rightarrow> string \<Rightarrow> UnvalidatedIngressRule" where
  "sample_ur h s = \<lparr>ur_Hostname = h, ur_Path = [], ur_Service = s, ur_OriginRequest = empty_raw\<rparr>"

definition sample_rules :: "UnvalidatedIngressRule list" where
  "sample_rules = [sample_ur ''*.a.com'' ''http://x'', sample_ur [] ''http_status:404'']"

lemma sample_validate:
  "(case validateIngress sample_lib sample_rules zero_request of
      Inr ing \<Rightarrow> map r_Service (ing_Rules ing) =
        [HttpService \<lparr>u_Scheme = ''http'', u_Host = ''x'', u_Path = [], u_String = ''http://x''\<rparr>, StatusCode 404 False]
    | Inl e \<Rightarrow> False)"
  by code_simp

theorem validated_ingress_first_match_witness:
  "\<exists>ing i. validateIngress sample_lib sample_rules zero_request = Inr ing
     \<and> FindMatchingRule sample_lib ing ''b.a.com:443'' ''/x'' = Ok (ing_Rules ing ! i, int i)"
proof -
  obtain ing where ing: "validateIngress sample_lib sample_rules zero_request = Inr ing"
    using sample_validate by (auto split: sum.splits)
  have "sample_rules \<noteq> []" by (simp add: sample_rules_def)
  from validated_ingress_first_match [OF ing this, of "''b.a.com:443''" "''/x''"] ing show ?thesis by blast
qed

text \<open>Where the configuration comes from does not matter: the ingress always has rules and the last takes
  every request, so choosing a rule never panics.\<close>

lemma ParseIngress_last: "ParseIngress lib conf = Inr ing \<Longrightarrow> last_catches_all ing"
  by (auto simp: ParseIngress_def validated_last_catches_all split: option.splits if_splits)

lemma parseCLIIngress_last: "parseCLIIngress lib c b = Inr ing \<Longrightarrow> last_catches_all ing"
  by (auto simp: parseCLIIngress_def last_catches_all_def single_rule_def Let_def split: sum.splits)

lemma newDefaultOrigin_last: "last_catches_all (newDefaultOrigin c)"
  by (simp add: newDefaultOrigin_def GetDefaultIngressRules_def last_catches_all_def single_rule_def)

lemma validate_not_missing: "validateIngress lib rs d \<noteq> Inl NoIngressRules"
proof -
  have keep: "(case x of Inl e \<Rightarrow> Inl e | Inr svc \<Rightarrow> Inr (svc, cfg)) \<noteq> Inl NoIngressRules" if "x \<noteq> Inl NoIngressRules"
    for x :: "ingress_error + OriginService" and cfg :: origin_request
    using that by (cases x) simp_all
  have "url_service lib s \<noteq> Inl NoIngressRules" for s
    by (simp add: url_service_def split: option.split)
  moreover have "status_service s \<noteq> Inl NoIngressRules" for s
    by (simp add: status_service_def split: option.split)
  moreover have "socks_service irs \<noteq> Inl NoIngressRules" for irs
    by (simp add: socks_service_def split: sum.split)
  ultimately have "rule_service lib r cfg \<noteq> Inl NoIngressRules" for r cfg
    unfolding rule_service_def Let_def by (simp add: keep)
  moreover have "rule_handlers r \<noteq> Inl NoIngressRules" for r
    by (auto simp: rule_handlers_def validateAccessConfiguration_def split: option.splits if_splits)
  moreover have "validateHostname r i n \<noteq> Some NoIngressRules" for r i n
    by (auto simp: validateHostname_def Let_def)
  ultimately have "validate_rule lib d i n r \<noteq> Inl NoIngressRules" for i n r
    by (auto simp: validate_rule_def split: sum.splits prod.splits option.splits)
  then have "validate_rules lib d i n rs \<noteq> Inl NoIngressRules" for i n
    by (induction rs arbitrary: i) (auto split: sum.splits)
  then show ?thesis by (auto simp: validateIngress_def split: sum.splits)
qed

lemma validated_length: "validateIngress lib rs d = Inr ing \<Longrightarrow> length (ing_Rules ing) = length rs"
  by (rule validateIngress_Inr(2))


definition no_flags :: cli_context where
  "no_flags = \<lparr>c_IsSet = (\<lambda>f. False), c_Duration = (\<lambda>f. 0), c_Bool = (\<lambda>f. False), c_Int = (\<lambda>f. 0), c_String = (\<lambda>f. []), c_Args = []\<rparr>"


text \<open>The accepted lists are exactly those in which only the last rule catches all, hostnames have no port and a
  wildcard only in front; nothing else about the hostnames is refused.\<close>

definition hostnames_ok :: "UnvalidatedIngressRule list \<Rightarrow> bool" where
  "hostnames_ok rs =
     (list_all (\<lambda>r. SplitHostPort (ur_Hostname r) = None \<and> CHR ''*'' \<notin> set (tl (ur_Hostname r))) rs
      \<and> list_all (\<lambda>r. \<not> isCatchAllRule r) (butlast rs) \<and> (rs \<noteq> [] \<longrightarrow> isCatchAllRule (last rs)))"

lemma only_last_nth:
  "xs \<noteq> [] \<Longrightarrow> (\<forall>i < length xs. P (xs ! i) \<longleftrightarrow> i + 1 = length xs)
     \<longleftrightarrow> list_all (\<lambda>x. \<not> P x) (butlast xs) \<and> P (last xs)"
  by (cases xs rule: rev_cases) (auto simp: nth_append list_all_length less_Suc_eq)

lemma hostnames_ok_nth:
  "hostnames_ok rs \<longleftrightarrow> (\<forall>i < length rs. validateHostname (rs ! i) i (length rs) = None)"
proof (cases "rs = []")
  case False
  then show ?thesis
    using only_last_nth [OF False, of isCatchAllRule]
    unfolding hostnames_ok_def validateHostname_None list_all_length by blast
qed (simp add: hostnames_ok_def)

definition rule_parts_ok :: "ingress_lib \<Rightarrow> origin_request \<Rightarrow> UnvalidatedIngressRule \<Rightarrow> bool" where
  "rule_parts_ok lib d r =
     (\<not> isl (rule_service lib r (setConfig d (ur_OriginRequest r))) \<and> \<not> isl (rule_handlers r)
      \<and> (ur_Path r = [] \<or> lib_compile lib (ur_Path r)))"

lemma validate_rule_isl:
  "isl (validate_rule lib d i n r) \<longleftrightarrow> \<not> (rule_parts_ok lib d r \<and> validateHostname r i n = None)"
  by (auto simp: validate_rule_def rule_parts_ok_def split: sum.splits prod.splits option.splits)

lemma validate_rules_isl:
  "isl (validate_rules lib d i n rs) \<longleftrightarrow> (\<exists>j < length rs. isl (validate_rule lib d (i + j) n (rs ! j)))"
proof (induction rs arbitrary: i)
  case (Cons r rs)
  have "isl (validate_rules lib d i n (r # rs)) \<longleftrightarrow> isl (validate_rule lib d i n r) \<or> isl (validate_rules lib d (i + 1) n rs)"
    by (auto split: sum.splits)
  also have "\<dots> \<longleftrightarrow> (\<exists>j < Suc (length rs). isl (validate_rule lib d (i + j) n ((r # rs) ! j)))"
    by (subst Cons.IH) (auto simp: nth_Cons' less_Suc_eq_0_disj intro: exI [of _ 0] exI [of _ "Suc j" for j])
  finally show ?case by simp
qed simp

text \<open>C16. Validation fails exactly for the other lists of rules.\<close>

theorem ingress_accepted_iff:
  "isl (validateIngress lib rs d) \<longleftrightarrow> \<not> (hostnames_ok rs \<and> list_all (rule_parts_ok lib d) rs)"
proof -
  have "isl (validateIngress lib rs d) \<longleftrightarrow> isl (validate_rules lib d 0 (length rs) rs)"
    by (auto simp: validateIngress_def split: sum.splits)
  also have "\<dots> \<longleftrightarrow> \<not> (hostnames_ok rs \<and> list_all (rule_parts_ok lib d) rs)"
    by (auto simp: validate_rules_isl validate_rule_isl hostnames_ok_nth list_all_length)
  finally show ?thesis .
qed

text \<open>A star that no dot follows is accepted as a host name, although such a rule takes only requests for the
  host that is spelled the same way.\<close>

theorem star_without_dot_is_dead:
  assumes "d \<noteq> []" and "hd d \<noteq> CHR ''.''" and "CHR ''*'' \<notin> set d" and "CHR '':'' \<notin> set d" and "i + 1 < n"
  shows "validateHostname \<lparr>ur_Hostname = CHR ''*'' # d, ur_Path = p, ur_Service = s, ur_OriginRequest = o'\<rparr> i n = None
     \<and> (matchHost (CHR ''*'' # d) h \<longleftrightarrow> h = CHR ''*'' # d)"
proof -
  have "SplitHostPort (CHR ''*'' # d) = None"
    using assms(4) by (intro SplitHostPort_no_colon) auto
  moreover have "\<not> (\<exists>e q. CHR ''*'' # d = ''*.'' @ e \<and> h = q @ ''.'' @ e)"
    using assms(2) by auto
  ultimately show ?thesis
    using assms by (auto simp: validateHostname_None isCatchAllRule_def matchHost_iff)
qed

theorem star_without_dot_is_dead_witness:
  "\<not> matchHost ''*foo.com'' ''barfoo.com''"
  using star_without_dot_is_dead [of "''foo.com''" 0 2 "[]" "[]" empty_raw "''barfoo.com''"] by simp

end
