(* ===== verification/HTTP_Base.thy ===== *)
theory HTTP_Base
  imports Net_Addr
begin

text \<open>
  HTTP headers as the proxy sees them: the \<^verbatim>\<open>http.Header\<close> map of the standard library with its canonical
  keys, raw base64, and \<^verbatim>\<open>connection/header.go\<close>, which packs the headers of a response into one
  header for HTTP/2.  A header map is the list of its entries in the order a \<^verbatim>\<open>range\<close> loop visits them,
  which Go leaves open; keys are distinct.
\<close>

subsection \<open>Canonical keys\<close>

definition is_upper :: "char \<Rightarrow> bool" where
  "is_upper c = (65 \<le> (of_char c :: nat) \<and> (of_char c :: nat) \<le> 90)"

definition is_lower :: "char \<Rightarrow> bool" where
  "is_lower c = (97 \<le> (of_char c :: nat) \<and> (of_char c :: nat) \<le> 122)"

definition char_upper :: "char \<Rightarrow> char" where
  "char_upper c = (if is_lower c then char_of (of_char c - 32 :: nat) else c)"

definition validHeaderFieldByte :: "char \<Rightarrow> bool" where
  "validHeaderFieldByte c = (is_upper c \<or> is_lower c \<or> is_digit c \<or> c \<in> set (CHR 0x27 # ''!#$%&*+-.^_`|~''))"

fun canon_from :: "bool \<Rightarrow> string \<Rightarrow> string" where
  "canon_from up [] = []"
| "canon_from up (c # s) = (if up then char_upper c else char_lower c) # canon_from (c = CHR ''-'') s"

definition CanonicalHeaderKey :: "string \<Rightarrow> string" where
  "CanonicalHeaderKey s = (if list_all validHeaderFieldByte s then canon_from True s else s)"

subsection \<open>Header maps\<close>

type_synonym http_header = "(string \<times> string list) list"

definition h_lookup :: "http_header \<Rightarrow> string \<Rightarrow> string list" where
  "h_lookup h k = (case map_of h k of None \<Rightarrow> [] | Some vs \<Rightarrow> vs)"

text \<open>The assignment \<^verbatim>\<open>h[k] = vs\<close>, and the methods, which canonicalise the key.\<close>

definition h_assign :: "string \<Rightarrow> string list \<Rightarrow> http_header \<Rightarrow> http_header" where
  "h_assign k vs h =
     (if k \<in> fst ` set h then map (\<lambda>(n, ws). (n, if n = k then vs else ws)) h else h @ [(k, vs)])"

definition h_Values :: "http_header \<Rightarrow> string \<Rightarrow> string list" where
  "h_Values h k = h_lookup h (CanonicalHeaderKey k)"

definition h_Get :: "http_header \<Rightarrow> string \<Rightarrow> string" where
  "h_Get h k = (case h_Values h k of [] \<Rightarrow> [] | v # vs \<Rightarrow> v)"

definition h_Set :: "string \<Rightarrow> string \<Rightarrow> http_header \<Rightarrow> http_header" where
  "h_Set k v h = h_assign (CanonicalHeaderKey k) [v] h"

definition h_Add :: "string \<Rightarrow> string \<Rightarrow> http_header \<Rightarrow> http_header" where
  "h_Add k v h = h_assign (CanonicalHeaderKey k) (h_Values h k @ [v]) h"

definition h_Del :: "string \<Rightarrow> http_header \<Rightarrow> http_header" where
  "h_Del k h = filter (\<lambda>(n, vs). n \<noteq> CanonicalHeaderKey k) h"

lemma map_of_assign: "map_of (h_assign k vs h) n = (if n = k then Some vs else map_of h n)"
proof -
  have "map_of (map (\<lambda>(m, ws). (m, if m = k then vs else ws)) h) n = (if n = k \<and> map_of h n \<noteq> None then Some vs else map_of h n)"
    by (induction h) auto
  then show ?thesis
    using map_of_eq_None_iff [of h k] by (auto simp: h_assign_def map_add_def split: option.splits)
qed

lemma h_Get_Set [simp]: "h_Get (h_Set k v h) n = (if CanonicalHeaderKey n = CanonicalHeaderKey k then v else h_Get h n)"
  by (simp add: h_Get_def h_Values_def h_lookup_def h_Set_def map_of_assign)

lemma h_Values_Add: "h_Values (h_Add k v h) n = (if CanonicalHeaderKey n = CanonicalHeaderKey k then h_Values h k @ [v] else h_Values h n)"
  by (simp add: h_Values_def h_lookup_def h_Add_def map_of_assign)

lemma h_Get_Del [simp]: "h_Get (h_Del k h) n = (if CanonicalHeaderKey n = CanonicalHeaderKey k then [] else h_Get h n)"
proof -
  have "map_of (h_Del k h) m = (if m = CanonicalHeaderKey k then None else map_of h m)" for m
    unfolding h_Del_def by (induction h) auto
  then show ?thesis by (simp add: h_Get_def h_Values_def h_lookup_def)
qed

subsection \<open>Raw base64\<close>

definition b64_alphabet :: string where
  "b64_alphabet = ''ABCDEFGHIJKLMNOPQRSTUVWXYZabcdefghijklmnopqrstuvwxyz0123456789+/''"

definition b64_char :: "nat \<Rightarrow> char" where
  "b64_char n = b64_alphabet ! (n mod 64)"

definition b64_val :: "char \<Rightarrow> nat option" where
  "b64_val c = index_byte c b64_alphabet"

fun b64_encode :: "string \<Rightarrow> string" where
  "b64_encode [] = []"
| "b64_encode [a] = (let a' = of_char a :: nat in [b64_char (a' div 4), b64_char (a' mod 4 * 16)])"
| "b64_encode [a, b] =
     (let a' = of_char a :: nat; b' = of_char b :: nat
      in [b64_char (a' div 4), b64_char (a' mod 4 * 16 + b' div 16), b64_char (b' mod 16 * 4)])"
| "b64_encode (a # b # c # s) =
     (let a' = of_char a :: nat; b' = of_char b :: nat; c' = of_char c :: nat
      in b64_char (a' div 4) # b64_char (a' mod 4 * 16 + b' div 16) # b64_char (b' mod 16 * 4 + c' div 64)
         # b64_char (c' mod 64) # b64_encode s)"

text \<open>Decoding skips line ends, refuses a lone last character and ignores the bits that do not fill a byte.\<close>

fun b64_quads :: "nat list \<Rightarrow> string option" where
  "b64_quads [] = Some []"
| "b64_quads [w] = None"
| "b64_quads [w, x] = Some [char_of (w * 4 + x div 16)]"
| "b64_quads [w, x, y] = Some [char_of (w * 4 + x div 16), char_of (x mod 16 * 16 + y div 4)]"
| "b64_quads (w # x # y # z # s) =
     map_option ((@) [char_of (w * 4 + x div 16), char_of (x mod 16 * 16 + y div 4), char_of (y mod 4 * 64 + z)]) (b64_quads s)"

fun all_vals :: "string \<Rightarrow> nat list option" where
  "all_vals [] = Some []"
| "all_vals (c # s) = (case b64_val c of None \<Rightarrow> None | Some n \<Rightarrow> map_option ((#) n) (all_vals s))"

definition b64_decode :: "string \<Rightarrow> string option" where
  "b64_decode s =
     (case all_vals (filter (\<lambda>c. c \<noteq> CHR 0x0A \<and> c \<noteq> CHR 0x0D) s) of
        None \<Rightarrow> None
      | Some ns \<Rightarrow> b64_quads ns)"

definition DecodedLen :: "nat \<Rightarrow> nat" where
  "DecodedLen n = n div 4 * 3 + n mod 4 * 6 div 8"

lemma b64_alphabet_vals: "list_all (\<lambda>n. b64_val (b64_alphabet ! n) = Some n) [0..<64]"
  by code_simp

lemma b64_val_char [simp]: "b64_val (b64_char n) = Some (n mod 64)"
proof -
  have "n mod 64 \<in> set [0..<64]" by simp
  then show ?thesis
    using b64_alphabet_vals by (simp only: list_all_iff b64_char_def)
qed

lemma b64_val_outside: "b64_val CHR '';'' = None" "b64_val CHR '':'' = None" "b64_val CHR 0x0A = None" "b64_val CHR 0x0D = None"
  by code_simp+

lemma b64_encode_val: "c \<in> set (b64_encode s) \<Longrightarrow> b64_val c \<noteq> None"
  by (induction s rule: b64_encode.induct) (auto simp: Let_def)

lemma b64_encode_chars:
  assumes "c \<in> set (b64_encode s)"
  shows "c \<noteq> CHR '';''" and "c \<noteq> CHR '':''" and "c \<noteq> CHR 0x0A" and "c \<noteq> CHR 0x0D"
  using b64_encode_val [OF assms] b64_val_outside by auto

lemma quot_rem:
  fixes q m k :: nat
  assumes "m < k"
  shows "(q * k + m) div k = q" and "(q * k + m) mod k = m"
  using assms by simp_all

lemma b64_parts:
  fixes a b :: nat
  assumes "a < 256" "b < 256"
  shows "a div 4 mod 64 = a div 4" "(a mod 4 * 16 + b div 16) mod 64 = a mod 4 * 16 + b div 16"
    "(a mod 16 * 4 + b div 64) mod 64 = a mod 16 * 4 + b div 64"
    "(a mod 4 * 16 + b div 16) div 16 = a mod 4" "(a mod 4 * 16 + b div 16) mod 16 = b div 16"
    "(a mod 16 * 4 + b div 64) div 4 = a mod 16" "(a mod 16 * 4 + b div 64) mod 4 = b div 64"
proof -
  have l: "a mod 4 < 4" "b div 16 < 16" "a mod 16 < 16" "b div 64 < 4" "a div 4 < 64"
    using assms by auto
  show "a div 4 mod 64 = a div 4" using l(5) by simp
  have "a mod 4 * 16 + b div 16 < 64" using l(1,2) by linarith
  then show "(a mod 4 * 16 + b div 16) mod 64 = a mod 4 * 16 + b div 16" by (rule mod_less)
  have "a mod 16 * 4 + b div 64 < 64" using l(3,4) by linarith
  then show "(a mod 16 * 4 + b div 64) mod 64 = a mod 16 * 4 + b div 64" by (rule mod_less)
  show "(a mod 4 * 16 + b div 16) div 16 = a mod 4" "(a mod 4 * 16 + b div 16) mod 16 = b div 16"
    using quot_rem [OF l(2)] by blast+
  show "(a mod 16 * 4 + b div 64) div 4 = a mod 16" "(a mod 16 * 4 + b div 64) mod 4 = b div 64"
    using quot_rem [OF l(4)] by blast+
qed

lemma b64_small:
  fixes b :: nat
  assumes "b < 256"
  shows "b div 16 div 16 = 0" "b div 16 mod 16 = b div 16" "b div 64 div 4 = 0" "b div 64 mod 4 = b div 64"
proof -
  have "b div 16 < 16" "b div 64 < 4" using assms by auto
  then show "b div 16 div 16 = 0" "b div 16 mod 16 = b div 16" "b div 64 div 4 = 0" "b div 64 mod 4 = b div 64"
    by simp_all
qed

lemmas b64_eval = b64_encode.simps all_vals.simps b64_quads.simps Let_def b64_val_char option.simps option.map
  div_mult_mod_eq char_of_char list.simps append.simps

lemma b64_vals: "\<exists>ns. all_vals (b64_encode s) = Some ns \<and> b64_quads ns = Some s"
proof (induction s rule: b64_encode.induct)
  case 1
  then show ?case by simp
next
  case (2 a)
  have *: "(of_char a :: nat) < 256" "(0 :: nat) < 256" using nat_of_char_less_256 by simp_all
  show ?case
    by (simp only: b64_eval b64_parts [OF *, simplified]) simp
next
  case (3 a b)
  have *: "(of_char a :: nat) < 256" "(of_char b :: nat) < 256" "(0 :: nat) < 256" using nat_of_char_less_256 by simp_all
  have y: "of_char b mod 16 * 4 mod 64 = (of_char b mod 16 * 4 :: nat)" "of_char b mod 16 * 4 div 4 = (of_char b mod 16 :: nat)"
    using b64_parts(3,6) [OF *(2,3)] by simp_all
  show ?case
    by (simp only: b64_eval b64_parts [OF *(1,2)] y) (simp add: b64_small [OF *(2)])
next
  case (4 a b c s)
  have *: "(of_char a :: nat) < 256" "(of_char b :: nat) < 256" "(of_char c :: nat) < 256" using nat_of_char_less_256 by blast+
  from 4 obtain ns where ns: "all_vals (b64_encode s) = Some ns" "b64_quads ns = Some s" by blast
  show ?case
    by (simp only: b64_eval b64_parts [OF *(1,2)] b64_parts [OF *(2,3)] ns mod_mod_trivial)
       (simp add: ns b64_small [OF *(2)] b64_small [OF *(3)])
qed

lemma b64_round_trip: "b64_decode (b64_encode s) = Some s"
proof -
  have "filter (\<lambda>c. c \<noteq> CHR 0x0A \<and> c \<noteq> CHR 0x0D) (b64_encode s) = b64_encode s"
    using b64_encode_chars(3,4) by (intro filter_True) blast
  then show ?thesis
    using b64_vals [of s] by (auto simp: b64_decode_def)
qed

lemma DecodedLen_add: "DecodedLen (Suc (Suc (Suc (Suc n)))) = Suc (Suc (Suc (DecodedLen n)))"
proof -
  have "Suc (Suc (Suc (Suc n))) = n + 4" by simp
  then show ?thesis by (simp only: DecodedLen_def div_add_self2 mod_add_self2) simp
qed

lemma DecodedLen_encode: "DecodedLen (length (b64_encode s)) = length s"
  by (induction s rule: b64_encode.induct) (simp_all add: Let_def DecodedLen_add, simp_all add: DecodedLen_def)

subsection \<open>Headers of a response in one header\<close>

definition IsControlResponseHeader :: "string \<Rightarrow> bool" where
  "IsControlResponseHeader headerName =
     (has_prefix headerName '':'' \<or> has_prefix headerName ''cf-int-''
      \<or> has_prefix headerName ''cf-cloudflared-'' \<or> has_prefix headerName ''cf-proxy-'')"

definition IsWebsocketClientHeader :: "string \<Rightarrow> bool" where
  "IsWebsocketClientHeader headerName =
     (headerName = ''sec-websocket-accept'' \<or> headerName = ''connection'' \<or> headerName = ''upgrade'')"

definition flatten_header :: "http_header \<Rightarrow> (string \<times> string) list" where
  "flatten_header h = concat (map (\<lambda>(n, vs). map (Pair n) vs) h)"

fun write_pairs :: "string \<Rightarrow> (string \<times> string) list \<Rightarrow> string" where
  "write_pairs buf [] = buf"
| "write_pairs buf ((n, v) # ps) =
     write_pairs (buf @ (if 0 < length buf then '';'' else []) @ b64_encode n @ '':'' @ b64_encode v) ps"

definition SerializeHeaders :: "http_header \<Rightarrow> string" where
  "SerializeHeaders h = write_pairs [] (flatten_header h)"

text \<open>The number of decoded bytes is dropped: the buffer is returned whole, with NULs where line ends were.\<close>

definition decode_buffer :: "string \<Rightarrow> string option" where
  "decode_buffer s =
     map_option (\<lambda>bs. bs @ replicate (DecodedLen (length s) - length bs) CHR 0x00) (b64_decode s)"

datatype header_error = UnableToDeserialize

fun read_pairs :: "string list \<Rightarrow> header_error + (string \<times> string) list" where
  "read_pairs [] = Inr []"
| "read_pairs (p # ps) =
     (if p = [] then read_pairs ps
      else (case split_on CHR '':'' p of
              [n, v] \<Rightarrow>
                (case decode_buffer n of
                   None \<Rightarrow> Inl UnableToDeserialize
                 | Some n' \<Rightarrow>
                     (case decode_buffer v of
                        None \<Rightarrow> Inl UnableToDeserialize
                      | Some v' \<Rightarrow> (case read_pairs ps of Inl e \<Rightarrow> Inl e | Inr qs \<Rightarrow> Inr ((n', v') # qs))))
            | _ \<Rightarrow> Inl UnableToDeserialize))"

definition DeserializeHeaders :: "string \<Rightarrow> header_error + (string \<times> string) list" where
  "DeserializeHeaders s = read_pairs (split_on CHR '';'' s)"

lemma decode_buffer_encode: "decode_buffer (b64_encode s) = Some s"
  by (simp add: decode_buffer_def b64_round_trip DecodedLen_encode)

definition pair_text :: "string \<times> string \<Rightarrow> string" where
  "pair_text p = b64_encode (fst p) @ CHR '':'' # b64_encode (snd p)"

lemma pair_text_clean: "CHR '';'' \<notin> set (pair_text p)"
  using b64_encode_chars(1) by (auto simp: pair_text_def)

lemma split_pair_text: "split_on CHR '':'' (pair_text p) = [b64_encode (fst p), b64_encode (snd p)]"
proof -
  have "CHR '':'' \<notin> set (b64_encode s)" for s using b64_encode_chars(2) by blast
  then show ?thesis by (simp add: pair_text_def split_on_append split_on_none)
qed

lemma read_pairs_text: "read_pairs (map pair_text ps) = Inr ps"
proof (induction ps)
  case (Cons p ps)
  have "pair_text p \<noteq> []" by (simp add: pair_text_def)
  then show ?case
    using Cons by (simp add: split_pair_text decode_buffer_encode)
qed simp

lemma split_on_join: "\<lbrakk>ws \<noteq> []; \<And>w. w \<in> set ws \<Longrightarrow> c \<notin> set w\<rbrakk> \<Longrightarrow> split_on c (join_with c ws) = ws"
  by (rule split_join) auto

lemma write_pairs_join:
  "buf \<noteq> [] \<Longrightarrow> write_pairs buf ps = join_with CHR '';'' (buf # map pair_text ps)"
proof (induction ps arbitrary: buf)
  case (Cons p ps)
  obtain n v where p: "p = (n, v)" by (cases p)
  have "write_pairs buf (p # ps) = write_pairs (buf @ CHR '';'' # pair_text p) ps"
    using Cons.prems by (simp add: p pair_text_def)
  also have "\<dots> = join_with CHR '';'' ((buf @ CHR '';'' # pair_text p) # map pair_text ps)"
    by (rule Cons.IH) simp
  finally show ?case by (cases ps) simp_all
qed simp

lemma SerializeHeaders_join:
  "flatten_header h \<noteq> [] \<Longrightarrow> SerializeHeaders h = join_with CHR '';'' (map pair_text (flatten_header h))"
proof -
  assume "flatten_header h \<noteq> []"
  then obtain p ps where f: "flatten_header h = p # ps" by (cases "flatten_header h") auto
  have "pair_text p \<noteq> []" by (simp add: pair_text_def)
  from write_pairs_join [OF this, of ps] show ?thesis
    by (cases p) (simp add: SerializeHeaders_def f pair_text_def)
qed

lemma Deserialize_Serialize: "DeserializeHeaders (SerializeHeaders h) = Inr (flatten_header h)"
proof (cases "flatten_header h = []")
  case True
  then show ?thesis by (simp add: SerializeHeaders_def DeserializeHeaders_def)
next
  case False
  have "split_on CHR '';'' (SerializeHeaders h) = map pair_text (flatten_header h)"
    unfolding SerializeHeaders_join [OF False]
    by (rule split_on_join) (use False pair_text_clean in auto)
  then show ?thesis by (simp add: DeserializeHeaders_def read_pairs_text)
qed

text \<open>C14. Packing the headers of a response and unpacking them gives every name and value back, in order.\<close>

theorem headers_roundtrip: "DeserializeHeaders (SerializeHeaders h) = Inr (flatten_header h)"
  by (rule Deserialize_Serialize)

end
