(* ===== verification/Origin_Proxy.thy ===== *)
theory Origin_Proxy
  imports Ingress HTTP_Base
begin

text \<open>
  \<^verbatim>\<open>ingress/origin_service.go\<close> (starting a service), \<^verbatim>\<open>ingress/origin_proxy.go\<close> (how a request is rewritten
  for its origin, which address a stream dials) and \<^verbatim>\<open>ingress/origin_dialer.go\<close> (the dialer of private
  network traffic with its reserved services).  Certificate pools, listeners and sockets are parameters:
  a transport is the record of the settings it was built from.
\<close>

subsection \<open>Requests and responses\<close>

record http_request =
  rq_Method :: string
  rq_Host :: string
  rq_URL :: url
  rq_Header :: http_header
  rq_ContentLength :: int
  rq_TransferEncoding :: "string list"
  rq_Body :: "string list option"

record http_response =
  rs_StatusCode :: int
  rs_Header :: http_header
  rs_Body :: "string list"
  rs_BodyFails :: bool
  rs_Upgradable :: bool
  rs_Trailer :: http_header

subsection \<open>Transports\<close>

datatype dial_target = AnyAddress | UnixAddress string

record http_transport =
  tr_CAPool :: string
  tr_MaxIdleConns :: int
  tr_MaxIdleConnsPerHost :: int
  tr_IdleConnTimeout :: duration
  tr_TLSHandshakeTimeout :: duration
  tr_ExpectContinueTimeout :: duration
  tr_InsecureSkipVerify :: bool
  tr_ForceAttemptHTTP2 :: bool
  tr_ServerName :: string
  tr_DialTimeout :: duration
  tr_DialKeepAlive :: duration
  tr_HappyEyeballs :: bool
  tr_Dial :: dial_target

text \<open>\<open>load_ca\<close> tells whether the certificate pool loads, \<open>hello_listener\<close> gives the address of the test server.\<close>

record start_env =
  load_ca :: "string \<Rightarrow> bool"
  hello_listener :: "string option"

definition newHTTPTransport :: "start_env \<Rightarrow> OriginService \<Rightarrow> origin_request \<Rightarrow> http_transport option" where
  "newHTTPTransport env service cfg =
     (if \<not> load_ca env (or_CAPool cfg) then None
      else Some
        \<lparr>tr_CAPool = or_CAPool cfg,
         tr_MaxIdleConns = or_KeepAliveConnections cfg,
         tr_MaxIdleConnsPerHost = or_KeepAliveConnections cfg,
         tr_IdleConnTimeout = or_KeepAliveTimeout cfg,
         tr_TLSHandshakeTimeout = or_TLSTimeout cfg,
         tr_ExpectContinueTimeout = 1 * second_ns,
         tr_InsecureSkipVerify = or_NoTLSVerify cfg,
         tr_ForceAttemptHTTP2 = or_Http2Origin cfg,
         tr_ServerName = (if service \<noteq> HelloWorld \<and> or_OriginServerName cfg \<noteq> [] then or_OriginServerName cfg else []),
         tr_DialTimeout = or_ConnectTimeout cfg,
         tr_DialKeepAlive = or_TCPKeepAlive cfg,
         tr_HappyEyeballs = (\<not> or_NoHappyEyeballs cfg),
         tr_Dial = (case service of UnixSocketPath path scheme \<Rightarrow> UnixAddress path | _ \<Rightarrow> AnyAddress)\<rparr>)"

subsection \<open>Started services\<close>

record started_http =
  sh_url :: url
  sh_hostHeader :: string
  sh_matchSNIToHost :: bool
  sh_transport :: http_transport

datatype started =
    StartedUnix string string http_transport
  | StartedHttp started_http
  | StartedHello started_http
  | StartedTCP (st_dest: string) (st_isBastion: bool) (st_socks: bool) (st_Timeout: duration) (st_KeepAlive: duration)
  | StartedSocksProxy Policy
  | StartedStatus int bool
  | StartedManagement

definition start_http :: "start_env \<Rightarrow> OriginService \<Rightarrow> url \<Rightarrow> origin_request \<Rightarrow> started_http option" where
  "start_http env service u cfg =
     map_option (\<lambda>t. \<lparr>sh_url = u, sh_hostHeader = or_HTTPHostHeader cfg, sh_matchSNIToHost = or_MatchSNIToHost cfg,
                       sh_transport = t\<rparr>)
       (newHTTPTransport env service cfg)"

definition hello_url :: "string \<Rightarrow> url" where
  "hello_url addr = \<lparr>u_Scheme = ''https'', u_Host = addr, u_Path = [], u_String = ''https://'' @ addr\<rparr>"

text \<open>The transport of the hello-world server is built by the embedded HTTP service, so it is not recognised
  as hello world there.\<close>

fun start_service :: "start_env \<Rightarrow> OriginService \<Rightarrow> origin_request \<Rightarrow> started option" where
  "start_service env (UnixSocketPath path scheme) cfg =
     map_option (StartedUnix path scheme) (newHTTPTransport env (UnixSocketPath path scheme) cfg)"
| "start_service env (HttpService u) cfg = map_option StartedHttp (start_http env (HttpService u) u cfg)"
| "start_service env (TCPOverWS scheme dest isBastion) cfg =
     Some (StartedTCP dest isBastion (or_ProxyType cfg = socksProxy) (or_ConnectTimeout cfg) (or_TCPKeepAlive cfg))"
| "start_service env (SocksProxyOverWS p) cfg = Some (StartedSocksProxy p)"
| "start_service env HelloWorld cfg =
     (case start_http env (HttpService (hello_url [])) (hello_url []) cfg of
        None \<Rightarrow> None
      | Some h \<Rightarrow> map_option (\<lambda>addr. StartedHello (h\<lparr>sh_url := hello_url addr\<rparr>)) (hello_listener env))"
| "start_service env (StatusCode code d) cfg = Some (StartedStatus code d)"
| "start_service env ManagementSvc cfg = Some StartedManagement"

text \<open>The services that are started before the first failure, and whether all were.\<close>

fun StartOrigins :: "start_env \<Rightarrow> ingress_rule list \<Rightarrow> started list \<times> bool" where
  "StartOrigins env [] = ([], True)"
| "StartOrigins env (r # rs) =
     (case start_service env (r_Service r) (r_Config r) of
        None \<Rightarrow> ([], False)
      | Some s \<Rightarrow> (let (ss, ok) = StartOrigins env rs in (s # ss, ok)))"

subsection \<open>Round trips\<close>

definition set_scheme :: "string \<Rightarrow> http_request \<Rightarrow> http_request" where
  "set_scheme sch r = r\<lparr>rq_URL := (rq_URL r)\<lparr>u_Scheme := sch\<rparr>\<rparr>"

definition unix_RoundTrip :: "string \<Rightarrow> http_request \<Rightarrow> http_request" where
  "unix_RoundTrip scheme r = set_scheme scheme r"

text \<open>The request as it goes out and, when SNI follows the host, the server name of new TLS connections.\<close>

definition http_RoundTrip :: "started_http \<Rightarrow> http_request \<Rightarrow> http_request \<times> string" where
  "http_RoundTrip s r0 =
     (let r1 = r0\<lparr>rq_URL := (rq_URL r0)\<lparr>u_Host := u_Host (sh_url s)\<rparr>\<rparr>;
          r2 = set_scheme
                 (if u_Scheme (sh_url s) = ''ws'' then ''http''
                  else if u_Scheme (sh_url s) = ''wss'' then ''https'' else u_Scheme (sh_url s)) r1;
          r3 = (if sh_hostHeader s \<noteq> []
                then r2\<lparr>rq_Header := h_Set ''X-Forwarded-Host'' (rq_Host r2) (rq_Header r2), rq_Host := sh_hostHeader s\<rparr>
                else r2)
      in (r3, if sh_matchSNIToHost s then rq_Host r3 else tr_ServerName (sh_transport s)))"

definition status_RoundTrip :: "int \<Rightarrow> http_response" where
  "status_RoundTrip code =
     \<lparr>rs_StatusCode = code, rs_Header = [], rs_Body = [], rs_BodyFails = False, rs_Upgradable = False, rs_Trailer = []\<rparr>"

subsection \<open>Streams\<close>

datatype establish = DialTo string duration duration | NoDial

fun EstablishConnection :: "started \<Rightarrow> string \<Rightarrow> establish option" where
  "EstablishConnection (StartedTCP d isBastion socks t k) dest = Some (DialTo (if \<not> isBastion then d else dest) t k)"
| "EstablishConnection (StartedSocksProxy p) dest = Some NoDial"
| "EstablishConnection _ dest = None"

subsection \<open>The dialer of private network traffic\<close>

text \<open>A service is a name for the reserved dialer that answers; the default dialer carries its timeouts.\<close>

record dialer =
  d_Timeout :: duration
  d_KeepAlive :: duration

definition NewDialer :: "WarpRoutingConfig \<Rightarrow> dialer" where
  "NewDialer config = \<lparr>d_Timeout = wr_ConnectTimeout config, d_KeepAlive = wr_TCPKeepAlive config\<rparr>"

record 's OriginDialerService =
  reservedTCPServices :: "addr_port \<Rightarrow> 's option"
  reservedUDPServices :: "addr_port \<Rightarrow> 's option"
  defaultDialer :: dialer
  ods_writeTimeout :: duration

definition NewOriginDialer :: "dialer \<Rightarrow> duration \<Rightarrow> 's OriginDialerService" where
  "NewOriginDialer d t =
     \<lparr>reservedTCPServices = Map.empty, reservedUDPServices = Map.empty, defaultDialer = d, ods_writeTimeout = t\<rparr>"

fun AddReservedService :: "'s \<Rightarrow> addr_port list \<Rightarrow> 's OriginDialerService \<Rightarrow> 's OriginDialerService" where
  "AddReservedService svc [] d = d"
| "AddReservedService svc (addr # addrs) d =
     AddReservedService svc addrs
       (d\<lparr>reservedTCPServices := (reservedTCPServices d)(addr \<mapsto> svc),
          reservedUDPServices := (reservedUDPServices d)(addr \<mapsto> svc)\<rparr>)"

definition UpdateDefaultDialer :: "dialer \<Rightarrow> 's OriginDialerService \<Rightarrow> 's OriginDialerService" where
  "UpdateDefaultDialer dl d = d\<lparr>defaultDialer := dl\<rparr>"

datatype 's dial_choice = Reserved 's | Default dialer

definition dialTCP :: "'s OriginDialerService \<Rightarrow> addr_port \<Rightarrow> 's dial_choice" where
  "dialTCP d addr = (case reservedTCPServices d addr of Some svc \<Rightarrow> Reserved svc | None \<Rightarrow> Default (defaultDialer d))"

text \<open>The connection of a TCP dial carries the service's write timeout.\<close>

definition ods_DialTCP :: "'s OriginDialerService \<Rightarrow> addr_port \<Rightarrow> 's dial_choice \<times> duration" where
  "ods_DialTCP d addr = (dialTCP d addr, ods_writeTimeout d)"

definition ods_DialUDP :: "'s OriginDialerService \<Rightarrow> addr_port \<Rightarrow> 's dial_choice" where
  "ods_DialUDP d addr = (case reservedUDPServices d addr of Some svc \<Rightarrow> Reserved svc | None \<Rightarrow> Default (defaultDialer d))"

subsection \<open>Properties\<close>

lemma forwarded_key: "CanonicalHeaderKey ''X-Forwarded-Host'' = ''X-Forwarded-Host''"
  by code_simp

lemma StartOrigins_nth:
  "\<lbrakk>StartOrigins env rs = (ss, True); i < length rs\<rbrakk> \<Longrightarrow> start_service env (r_Service (rs ! i)) (r_Config (rs ! i)) = Some (ss ! i)"
proof (induction rs arbitrary: ss i)
  case (Cons r rs)
  then obtain s ss' where "start_service env (r_Service r) (r_Config r) = Some s" "StartOrigins env rs = (ss', True)" "ss = s # ss'"
    by (auto split: option.splits prod.splits)
  with Cons show ?case by (cases i) simp_all
qed simp

lemma AddReserved_maps:
  "reservedTCPServices (AddReservedService svc addrs d) = (\<lambda>a. if a \<in> set addrs then Some svc else reservedTCPServices d a)
   \<and> reservedUDPServices (AddReservedService svc addrs d) = (\<lambda>a. if a \<in> set addrs then Some svc else reservedUDPServices d a)
   \<and> defaultDialer (AddReservedService svc addrs d) = defaultDialer d
   \<and> ods_writeTimeout (AddReservedService svc addrs d) = ods_writeTimeout d"
  by (induction addrs arbitrary: d) auto

text \<open>Reserved addresses go to their own service over both protocols, the others where they went before, and
  replacing the default dialer touches no reservation.\<close>

theorem reserved_dialers_exact:
  "(let d' = UpdateDefaultDialer dl (AddReservedService svc addrs d)
    in (if addr \<in> set addrs then fst (ods_DialTCP d' addr) = Reserved svc \<and> ods_DialUDP d' addr = Reserved svc
        else fst (ods_DialTCP d' addr) = fst (ods_DialTCP (UpdateDefaultDialer dl d) addr)
             \<and> ods_DialUDP d' addr = ods_DialUDP (UpdateDefaultDialer dl d) addr)
       \<and> snd (ods_DialTCP d' addr) = ods_writeTimeout d)"
  by (simp add: UpdateDefaultDialer_def ods_DialTCP_def ods_DialUDP_def dialTCP_def AddReserved_maps Let_def split: option.split)

text \<open>The test server's transport takes the configured server name, although the code means to leave it out.\<close>

theorem hello_world_takes_server_name:
  assumes "start_service env HelloWorld cfg = Some (StartedHello h)"
  shows "tr_ServerName (sh_transport h) = or_OriginServerName cfg"
  using assms by (auto simp: start_http_def newHTTPTransport_def split: if_splits option.splits)

theorem hello_world_takes_server_name_witness:
  "\<exists>h. start_service \<lparr>load_ca = (\<lambda>f. True), hello_listener = Some ''127.0.0.1:1''\<rparr> HelloWorld
         (zero_request\<lparr>or_OriginServerName := ''a.com''\<rparr>) = Some (StartedHello h)
       \<and> tr_ServerName (sh_transport h) = ''a.com''"
proof -
  let ?env = "\<lparr>load_ca = (\<lambda>f. True), hello_listener = Some ''127.0.0.1:1''\<rparr>"
  let ?cfg = "zero_request\<lparr>or_OriginServerName := ''a.com''\<rparr>"
  obtain h where h: "start_service ?env HelloWorld ?cfg = Some (StartedHello h)"
    by (simp add: start_http_def newHTTPTransport_def)
  from hello_world_takes_server_name [OF h] h show ?thesis by simp
qed

end
