(* ===== verification/Proxy.thy ===== *)
theory Proxy
  imports Origin_Proxy Flow_Limiter
begin

text \<open>
  \<^verbatim>\<open>proxy/proxy.go\<close> with the middleware it runs (\<^verbatim>\<open>ingress/middleware/jwtvalidator.go\<close>) and the bastion
  destination of \<^verbatim>\<open>carrier/carrier.go\<close>: what happens to an HTTP request or a TCP stream of the edge.  A
  response writer and an acknowledger are Go interfaces; here they are records of their methods over a
  state, so that the same proxy runs over the HTTP/2 and the QUIC writers.  What the origin answers, whether
  dials succeed, token verification and SHA-1 are parameters.
\<close>

subsection \<open>Interfaces\<close>

record 'w response_writer =
  w_WriteRespHeaders :: "int \<Rightarrow> http_header \<Rightarrow> 'w \<Rightarrow> bool \<times> 'w"
  w_WriteHeader :: "int \<Rightarrow> http_header \<Rightarrow> 'w \<Rightarrow> 'w"
  w_Write :: "string \<Rightarrow> 'w \<Rightarrow> bool \<times> 'w"
  w_AddTrailer :: "string \<Rightarrow> string \<Rightarrow> 'w \<Rightarrow> 'w"

record 'a acker =
  a_Ack :: "string \<Rightarrow> 'a \<Rightarrow> bool \<times> 'a"
  a_Write :: "string \<Rightarrow> 'a \<Rightarrow> bool \<times> 'a"

text \<open>A handler that runs inside cloudflared answers by calls of an \<^verbatim>\<open>http.ResponseWriter\<close>.\<close>

datatype handler_call = CallWriteHeader int http_header | CallWrite string

datatype proxy_error =
    MiddlewareFailed
  | IncomingEnded
  | OriginUnreachable
  | HeaderWriteFailed
  | UnsupportedConnection
  | CopyFailed
  | NoBastionDestination
  | DialFailed
  | AckFailed
  | UnrecognizedService
  | TooManyFlows
  | InvalidAddrPort
  | EmptyHost
  | NoOriginProxy
  | ControlStreamFailed
  | BadConfigurationBody
  | UnknownConnectionType
  | MalformedHeaderKey
  | InvalidContentLength
  | InvalidRequest

datatype 's origin_call =
    RoundTripped http_transport http_request
  | DialledStream string duration duration
  | DialledTCP "'s dial_choice" addr_port
  | SocksStream Policy
  | ServedLocally http_request

record 's proxy_env =
  pe_lib :: ingress_lib
  pe_verify :: "string \<Rightarrow> string \<Rightarrow> string list option"
  pe_roundtrip :: "http_transport \<Rightarrow> http_request \<Rightarrow> http_response option"
  pe_ctx_done :: bool
  pe_dial :: "string \<Rightarrow> bool"
  pe_dial_tcp :: "'s dial_choice \<Rightarrow> addr_port \<Rightarrow> bool"
  pe_stream :: "string list"
  pe_spans :: string
  pe_local :: "http_request \<Rightarrow> handler_call list"
  pe_sha1 :: "string \<Rightarrow> string"

subsection \<open>Access tokens\<close>

definition certs_url :: "AccessConfig \<Rightarrow> string" where
  "certs_url cfg =
     (if ac_Environment cfg = ''fed'' then ''https://'' @ ac_TeamName cfg @ ''.fed.cloudflareaccess.com''
      else ''https://'' @ ac_TeamName cfg @ ''.cloudflareaccess.com'')"

datatype handle_result = HandleError | Filter int | Pass

definition jwt_Handle :: "'s proxy_env \<Rightarrow> AccessConfig \<Rightarrow> http_request \<Rightarrow> handle_result" where
  "jwt_Handle env cfg r =
     (let accessJWT = h_Get (rq_Header r) ''Cf-Access-Jwt-Assertion''
      in if accessJWT = [] then Filter 403
         else (case pe_verify env (certs_url cfg) accessJWT of
                 None \<Rightarrow> HandleError
               | Some audience \<Rightarrow> if list_ex (\<lambda>aud. aud \<in> set (ac_AudTag cfg)) audience then Pass else Filter 403))"

text \<open>The error, if any, whether the middleware answered the request itself, and the writer.\<close>

fun applyIngressMiddleware ::
    "'s proxy_env \<Rightarrow> 'w response_writer \<Rightarrow> AccessConfig list \<Rightarrow> http_request \<Rightarrow> 'w \<Rightarrow> (bool \<times> bool) \<times> 'w" where
  "applyIngressMiddleware env ops [] r w = ((False, True), w)"
| "applyIngressMiddleware env ops (h # hs) r w =
     (case jwt_Handle env h r of
        HandleError \<Rightarrow> ((True, False), w)
      | Filter status \<Rightarrow> ((True, True), snd (w_WriteRespHeaders ops status [] w))
      | Pass \<Rightarrow> applyIngressMiddleware env ops hs r w)"

subsection \<open>Copying\<close>

fun cfio_Copy :: "('b \<Rightarrow> 'w \<Rightarrow> bool \<times> 'w) \<Rightarrow> 'b list \<Rightarrow> bool \<Rightarrow> 'w \<Rightarrow> bool \<times> 'w" where
  "cfio_Copy wr [] fails w = (\<not> fails, w)"
| "cfio_Copy wr (c # cs) fails w =
     (let (ok, w') = wr c w in if ok then cfio_Copy wr cs fails w' else (False, w'))"

text \<open>The direction from the origin of a \<^verbatim>\<open>stream.Pipe\<close>; its errors are only logged.\<close>

definition pipe_down :: "('b \<Rightarrow> 'w \<Rightarrow> bool \<times> 'w) \<Rightarrow> 'b list \<Rightarrow> 'w \<Rightarrow> 'w" where
  "pipe_down wr cs w = snd (cfio_Copy wr cs False w)"

definition copyTrailers :: "'w response_writer \<Rightarrow> http_response \<Rightarrow> 'w \<Rightarrow> 'w" where
  "copyTrailers ops resp w = fold (\<lambda>(n, v). w_AddTrailer ops n v) (flatten_header (rs_Trailer resp)) w"

subsection \<open>Acknowledging a stream over HTTP\<close>

definition b64_std :: "string \<Rightarrow> string" where
  "b64_std s = (let e = b64_encode s in e @ replicate ((4 - length e mod 4) mod 4) CHR ''='')"

definition keyGUID :: string where
  "keyGUID = ''258EAFA5-E914-47DA-95CA-C5AB0DC85B11''"

definition generateAcceptKey :: "'s proxy_env \<Rightarrow> string \<Rightarrow> string" where
  "generateAcceptKey env challengeKey = b64_std (pe_sha1 env (challengeKey @ keyGUID))"

definition NewResponseHeader :: "'s proxy_env \<Rightarrow> http_request \<Rightarrow> http_header" where
  "NewResponseHeader env r =
     h_Add ''Upgrade'' ''websocket''
       (h_Add ''Sec-Websocket-Accept'' (generateAcceptKey env (h_Get (rq_Header r) ''Sec-WebSocket-Key''))
          (h_Add ''Connection'' ''Upgrade'' []))"

definition IntCloudflaredTracingHeader :: string where
  "IntCloudflaredTracingHeader = ''cf-int-cloudflared-tracing''"

definition http_AckConnection ::
    "'s proxy_env \<Rightarrow> 'w response_writer \<Rightarrow> http_request \<Rightarrow> string \<Rightarrow> 'w \<Rightarrow> bool \<times> 'w" where
  "http_AckConnection env ops r tracePropagation w =
     (let h = (if h_Get (rq_Header r) ''Sec-WebSocket-Key'' \<noteq> [] then NewResponseHeader env r else []);
          h' = (if tracePropagation \<noteq> [] then h_Add (CanonicalHeaderKey IntCloudflaredTracingHeader) tracePropagation h else h)
      in w_WriteRespHeaders ops 101 h' w)"

definition http_acker :: "'s proxy_env \<Rightarrow> 'w response_writer \<Rightarrow> http_request \<Rightarrow> 'w acker" where
  "http_acker env ops r = \<lparr>a_Ack = http_AckConnection env ops r, a_Write = w_Write ops\<rparr>"

subsection \<open>Requests\<close>

record ('s, 'w) proxy_result =
  pr_error :: "proxy_error option"
  pr_writer :: 'w
  pr_calls :: "'s origin_call list"

definition websocket_headers :: "http_request \<Rightarrow> http_request" where
  "websocket_headers r =
     r\<lparr>rq_Header := h_Set ''Sec-Websocket-Version'' ''13'' (h_Set ''Upgrade'' ''websocket'' (h_Set ''Connection'' ''Upgrade'' (rq_Header r)))\<rparr>"

definition outgoing_request :: "bool \<Rightarrow> bool \<Rightarrow> http_request \<Rightarrow> http_request" where
  "outgoing_request isWebsocket disableChunkedEncoding r =
     (let r1 = (if isWebsocket then (websocket_headers r)\<lparr>rq_ContentLength := 0, rq_Body := None\<rparr>
                else
                  (let r0 = (if disableChunkedEncoding
                             then (case atoi (h_Get (rq_Header r) ''Content-Length'') of
                                     Some n \<Rightarrow> r\<lparr>rq_TransferEncoding := [''gzip'', ''deflate''], rq_ContentLength := n\<rparr>
                                   | None \<Rightarrow> r\<lparr>rq_TransferEncoding := [''gzip'', ''deflate'']\<rparr>)
                             else r)
                   in r0\<lparr>rq_Header := h_Set ''Connection'' ''keep-alive'' (rq_Header r0)\<rparr>))
      in if h_Get (rq_Header r1) ''User-Agent'' = [] then r1\<lparr>rq_Header := h_Set ''User-Agent'' [] (rq_Header r1)\<rparr> else r1)"

text \<open>The answer of an HTTP origin and the call that was made to get it.\<close>

fun round_trip :: "'s proxy_env \<Rightarrow> started \<Rightarrow> http_request \<Rightarrow> (http_response option \<times> 's origin_call list) option" where
  "round_trip env (StartedUnix path scheme t) r =
     (let r' = unix_RoundTrip scheme r in Some (pe_roundtrip env t r', [RoundTripped t r']))"
| "round_trip env (StartedHttp s) r =
     (let r' = fst (http_RoundTrip s r); t = (sh_transport s)\<lparr>tr_ServerName := snd (http_RoundTrip s r)\<rparr>
      in Some (pe_roundtrip env t r', [RoundTripped t r']))"
| "round_trip env (StartedHello s) r =
     (let r' = fst (http_RoundTrip s r); t = (sh_transport s)\<lparr>tr_ServerName := snd (http_RoundTrip s r)\<rparr>
      in Some (pe_roundtrip env t r', [RoundTripped t r']))"
| "round_trip env (StartedStatus code d) r = Some (Some (status_RoundTrip code), [])"
| "round_trip env _ r = None"

definition AddSpans :: "string \<Rightarrow> http_header \<Rightarrow> http_header" where
  "AddSpans enc h = (if enc = [] then h else h_assign (CanonicalHeaderKey IntCloudflaredTracingHeader) [enc] h)"

text \<open>What is written for a response of the origin.\<close>

definition write_response :: "'s proxy_env \<Rightarrow> 'w response_writer \<Rightarrow> http_response \<Rightarrow> 'w \<Rightarrow> proxy_error option \<times> 'w" where
  "write_response env ops resp w =
     (let (ok, w1) = w_WriteRespHeaders ops (rs_StatusCode resp) (AddSpans (pe_spans env) (rs_Header resp)) w
      in if \<not> ok then (Some HeaderWriteFailed, w1)
         else if rs_StatusCode resp = 101 then
           (if \<not> rs_Upgradable resp then (Some UnsupportedConnection, w1)
            else (None, pipe_down (w_Write ops) (rs_Body resp) w1))
         else
           (let (copied, w2) = cfio_Copy (w_Write ops) (rs_Body resp) (rs_BodyFails resp) w1
            in if \<not> copied then (Some CopyFailed, w2) else (None, copyTrailers ops resp w2)))"

definition proxyHTTPRequest ::
    "'s proxy_env \<Rightarrow> 'w response_writer \<Rightarrow> http_response option \<times> 's origin_call list \<Rightarrow> 'w \<Rightarrow> ('s, 'w) proxy_result" where
  "proxyHTTPRequest env ops answer w =
     (case fst answer of
        None \<Rightarrow> \<lparr>pr_error = Some (if pe_ctx_done env then IncomingEnded else OriginUnreachable),
                  pr_writer = w, pr_calls = snd answer\<rparr>
      | Some resp \<Rightarrow>
          (let (e, w') = write_response env ops resp w
           in \<lparr>pr_error = e, pr_writer = w', pr_calls = snd answer\<rparr>))"

subsection \<open>Streams\<close>

definition removePath :: "string \<Rightarrow> string" where
  "removePath dest = takeWhile (\<lambda>c. c \<noteq> CHR ''/'') dest"

definition ResolveBastionDest :: "ingress_lib \<Rightarrow> http_request \<Rightarrow> string option" where
  "ResolveBastionDest lib r =
     (let jumpDestination = h_Get (rq_Header r) ''Cf-Access-Jump-Destination''
      in if jumpDestination = [] then None
         else (case lib_url lib jumpDestination of
                 Some u \<Rightarrow> if u_Host u \<noteq> [] then Some (removePath (u_Host u)) else Some (removePath jumpDestination)
               | None \<Rightarrow> Some (removePath jumpDestination)))"

definition getDestFromRule :: "ingress_lib \<Rightarrow> ingress_rule \<Rightarrow> http_request \<Rightarrow> string option" where
  "getDestFromRule lib rule r =
     (if service_String (r_Service rule) = ServiceBastion then ResolveBastionDest lib r
      else Some (service_String (r_Service rule)))"

definition proxyStream ::
    "'s proxy_env \<Rightarrow> 'a acker \<Rightarrow> establish \<Rightarrow> started \<Rightarrow> 'a \<Rightarrow> ('s, 'a) proxy_result" where
  "proxyStream env ak est svc a =
     (let calls = (case est of DialTo addr t k \<Rightarrow> [DialledStream addr t k]
                             | NoDial \<Rightarrow> (case svc of StartedSocksProxy p \<Rightarrow> [SocksStream p] | _ \<Rightarrow> []));
          connected = (case est of DialTo addr t k \<Rightarrow> pe_dial env addr | NoDial \<Rightarrow> True)
      in if \<not> connected then \<lparr>pr_error = Some DialFailed, pr_writer = a, pr_calls = calls\<rparr>
         else
           (let (ok, a1) = a_Ack ak (pe_spans env) a
            in if \<not> ok then \<lparr>pr_error = Some AckFailed, pr_writer = a1, pr_calls = calls\<rparr>
               else \<lparr>pr_error = None, pr_writer = pipe_down (a_Write ak) (pe_stream env) a1, pr_calls = calls\<rparr>))"

definition proxyTCPStream ::
    "'s proxy_env \<Rightarrow> 'a acker \<Rightarrow> addr_port \<Rightarrow> 's OriginDialerService \<Rightarrow> 'a \<Rightarrow> ('s, 'a) proxy_result" where
  "proxyTCPStream env ak dest originDialer a =
     (let choice = fst (ods_DialTCP originDialer dest); calls = [DialledTCP choice dest]
      in if \<not> pe_dial_tcp env choice dest then \<lparr>pr_error = Some DialFailed, pr_writer = a, pr_calls = calls\<rparr>
         else
           (let (ok, a1) = a_Ack ak (pe_spans env) a
            in if \<not> ok then \<lparr>pr_error = Some AckFailed, pr_writer = a1, pr_calls = calls\<rparr>
               else \<lparr>pr_error = None, pr_writer = pipe_down (a_Write ak) (pe_stream env) a1, pr_calls = calls\<rparr>))"

subsection \<open>Local services\<close>

fun run_handler :: "'w response_writer \<Rightarrow> handler_call list \<Rightarrow> 'w \<Rightarrow> 'w" where
  "run_handler ops [] w = w"
| "run_handler ops (CallWriteHeader status h # cs) w = run_handler ops cs (w_WriteHeader ops status h w)"
| "run_handler ops (CallWrite p # cs) w = run_handler ops cs (snd (w_Write ops p w))"

definition proxyLocalRequest ::
    "'s proxy_env \<Rightarrow> 'w response_writer \<Rightarrow> http_request \<Rightarrow> bool \<Rightarrow> 'w \<Rightarrow> ('s, 'w) proxy_result" where
  "proxyLocalRequest env ops r isWebsocket w =
     (let r' = (if isWebsocket then websocket_headers r else r)
      in \<lparr>pr_error = None, pr_writer = run_handler ops (pe_local env r') w, pr_calls = [ServedLocally r']\<rparr>)"

subsection \<open>The proxy\<close>

text \<open>
  \<open>px_started\<close> holds the started service of each user rule.  The internal rules route to the management
  service, which needs no start.
\<close>

record 's proxy =
  ingressRules :: Ingress
  px_started :: "started list"
  px_originDialer :: "'s OriginDialerService"
  px_tags :: "(string \<times> string) list"

definition NewOriginProxy :: "Ingress \<Rightarrow> started list \<Rightarrow> 's OriginDialerService \<Rightarrow> (string \<times> string) list \<Rightarrow> 's proxy" where
  "NewOriginProxy ing ss d tags = \<lparr>ingressRules = ing, px_started = ss, px_originDialer = d, px_tags = tags\<rparr>"

definition service_at :: "'s proxy \<Rightarrow> int \<Rightarrow> started" where
  "service_at p i = (if i < 0 then StartedManagement else px_started p ! nat i)"

definition appendTagHeaders :: "'s proxy \<Rightarrow> http_request \<Rightarrow> http_request" where
  "appendTagHeaders p r = r\<lparr>rq_Header := fold (\<lambda>(n, v). h_Add (''Cf-Warp-Tag-'' @ n) v) (px_tags p) (rq_Header r)\<rparr>"

text \<open>The service of the rule answers the request: an HTTP origin, a stream or a local handler.\<close>

definition serve_rule ::
    "'s proxy_env \<Rightarrow> 'w response_writer \<Rightarrow> ingress_rule \<Rightarrow> started \<Rightarrow> http_request \<Rightarrow> bool \<Rightarrow> 'w \<Rightarrow> ('s, 'w) proxy_result" where
  "serve_rule env ops rule svc r isWebsocket w =
     (case round_trip env svc (outgoing_request isWebsocket (or_DisableChunkedEncoding (r_Config rule)) r) of
        Some answer \<Rightarrow> proxyHTTPRequest env ops answer w
      | None \<Rightarrow>
          if svc = StartedManagement then proxyLocalRequest env ops r isWebsocket w
          else
            (case getDestFromRule (pe_lib env) rule r of
               None \<Rightarrow> \<lparr>pr_error = Some NoBastionDestination, pr_writer = w, pr_calls = []\<rparr>
             | Some dest \<Rightarrow>
                 (case EstablishConnection svc dest of
                    None \<Rightarrow> \<lparr>pr_error = Some UnrecognizedService, pr_writer = w, pr_calls = []\<rparr>
                  | Some est \<Rightarrow> proxyStream env (http_acker env ops r) est svc w)))"

definition ProxyHTTP ::
    "'s proxy_env \<Rightarrow> 'w response_writer \<Rightarrow> 's proxy \<Rightarrow> http_request \<Rightarrow> bool \<Rightarrow> 'w \<Rightarrow> (proxy_error, ('s, 'w) proxy_result) outcome" where
  "ProxyHTTP env ops p r0 isWebsocket w =
     (let r = appendTagHeaders p r0
      in obind (FindMatchingRule (pe_lib env) (ingressRules p) (rq_Host r) (u_Path (rq_URL r)))
           (\<lambda>(rule, i).
              (case applyIngressMiddleware env ops (r_Handlers rule) r w of
                 ((True, True), w') \<Rightarrow> Ok \<lparr>pr_error = None, pr_writer = w', pr_calls = []\<rparr>
               | ((True, False), w') \<Rightarrow> Ok \<lparr>pr_error = Some MiddlewareFailed, pr_writer = w', pr_calls = []\<rparr>
               | ((False, applied), w') \<Rightarrow> Ok (serve_rule env ops rule (service_at p i) r isWebsocket w'))))"

text \<open>\<^verbatim>\<open>netip.ParseAddrPort\<close>.\<close>

definition ParseAddrPort :: "string \<Rightarrow> addr_port option" where
  "ParseAddrPort s =
     (case last_index_byte CHR '':'' s of
        None \<Rightarrow> None
      | Some i \<Rightarrow>
          (let ip = take i s; port = drop (i + 1) s; v6 = (ip \<noteq> [] \<and> hd ip = CHR ''['')
           in if ip = [] \<or> port = [] \<or> v6 \<and> (length ip < 2 \<or> last ip \<noteq> CHR '']'') then None
              else if \<not> list_all is_digit port \<or> 65535 < digits_val port then None
              else (case ParseAddr (if v6 then butlast (tl ip) else ip) of
                      None \<Rightarrow> None
                    | Some a \<Rightarrow> if v6 \<and> Is4 a \<or> \<not> v6 \<and> Is6 a then None
                               else Some \<lparr>ap_addr = a, ap_port = word_of_nat (digits_val port)\<rparr>)))"

text \<open>A TCP stream holds a slot of the flow limiter while it runs; \<open>others\<close> is what other flows do meanwhile.\<close>

definition ProxyTCP ::
    "'s proxy_env \<Rightarrow> 'a acker \<Rightarrow> 's proxy \<Rightarrow> (flowLimiter \<Rightarrow> flowLimiter) \<Rightarrow> string \<Rightarrow> flowLimiter \<Rightarrow> 'a
     \<Rightarrow> ('s, 'a) proxy_result \<times> flowLimiter" where
  "ProxyTCP env ak p others dest l a =
     (case Acquire l of
        Inl e \<Rightarrow> (\<lparr>pr_error = Some TooManyFlows, pr_writer = a, pr_calls = []\<rparr>, l)
      | Inr l1 \<Rightarrow>
          (case ParseAddrPort dest of
             None \<Rightarrow> (\<lparr>pr_error = Some InvalidAddrPort, pr_writer = a, pr_calls = []\<rparr>, Release (others l1))
           | Some addr \<Rightarrow> (proxyTCPStream env ak addr (px_originDialer p) a, Release (others l1))))"

subsection \<open>The contract of a response writer\<close>

text \<open>
  \<open>usable\<close> is what the proxy may rely on while it serves a request and \<open>answered\<close> says that a response
  head went out.  Every method keeps the first, and none takes the second back.
\<close>

locale response_contract =
  fixes ops :: "'w response_writer"
    and usable :: "'w \<Rightarrow> bool"
    and answered :: "'w \<Rightarrow> bool"
  assumes headers_answer: "usable w \<Longrightarrow> answered (snd (w_WriteRespHeaders ops s h w))"
    and headers_usable: "usable w \<Longrightarrow> usable (snd (w_WriteRespHeaders ops s h w))"
    and handler_header: "usable w \<Longrightarrow> usable (w_WriteHeader ops s h w) \<and> answered (w_WriteHeader ops s h w)"
    and write_answer: "\<lbrakk>usable w; answered w\<rbrakk> \<Longrightarrow> answered (snd (w_Write ops p w))"
    and write_usable: "usable w \<Longrightarrow> usable (snd (w_Write ops p w))"
    and trailer_answer: "\<lbrakk>usable w; answered w\<rbrakk> \<Longrightarrow> usable (w_AddTrailer ops n v w) \<and> answered (w_AddTrailer ops n v w)"
begin

lemma copy_answered: "\<lbrakk>usable w; answered w\<rbrakk> \<Longrightarrow> usable (snd (cfio_Copy (w_Write ops) cs f w)) \<and> answered (snd (cfio_Copy (w_Write ops) cs f w))"
proof (induction cs arbitrary: w)
  case (Cons c cs)
  obtain ok w' where w': "w_Write ops c w = (ok, w')" by fastforce
  have "usable w'" "answered w'"
    using write_usable [OF Cons.prems(1), of c] write_answer [OF Cons.prems, of c] by (simp_all add: w')
  then show ?case using Cons.IH by (simp add: w')
qed simp

lemma trailers_answered: "\<lbrakk>usable w; answered w\<rbrakk> \<Longrightarrow> answered (copyTrailers ops resp w)"
proof -
  have "\<lbrakk>usable w; answered w\<rbrakk> \<Longrightarrow> usable (fold (\<lambda>(n, v). w_AddTrailer ops n v) ps w) \<and> answered (fold (\<lambda>(n, v). w_AddTrailer ops n v) ps w)" for ps
    by (induction ps arbitrary: w) (simp_all add: trailer_answer split_beta)
  then show "\<lbrakk>usable w; answered w\<rbrakk> \<Longrightarrow> answered (copyTrailers ops resp w)"
    by (simp add: copyTrailers_def)
qed

lemma response_answered: "usable w \<Longrightarrow> answered (snd (write_response env ops resp w))"
proof -
  assume u: "usable w"
  obtain ok w1 where w1: "w_WriteRespHeaders ops (rs_StatusCode resp) (AddSpans (pe_spans env) (rs_Header resp)) w = (ok, w1)"
    by fastforce
  have a: "usable w1" "answered w1"
    using headers_usable [OF u] headers_answer [OF u] w1 by (metis snd_conv)+
  obtain copied w2 where w2: "cfio_Copy (w_Write ops) (rs_Body resp) (rs_BodyFails resp) w1 = (copied, w2)"
    by fastforce
  have "usable w2" "answered w2"
    using copy_answered [OF a, of "rs_Body resp" "rs_BodyFails resp"] by (simp_all add: w2)
  then show ?thesis
    using a trailers_answered copy_answered [OF a] by (auto simp: write_response_def w1 w2 pipe_down_def Let_def)
qed

lemma http_answered:
  assumes "usable w" and "pr_error (proxyHTTPRequest env ops answer w) \<notin> {Some IncomingEnded, Some OriginUnreachable}"
  shows "answered (pr_writer (proxyHTTPRequest env ops answer w))"
proof (cases "fst answer")
  case (Some resp)
  then show ?thesis
    using response_answered [OF assms(1), of env resp]
    by (cases "write_response env ops resp w") (simp add: proxyHTTPRequest_def)
qed (use assms(2) in \<open>simp add: proxyHTTPRequest_def split: if_splits\<close>)

lemma stream_answered:
  assumes "usable w" and "pr_error (proxyStream env (http_acker env ops r) est svc w) \<noteq> Some DialFailed"
  shows "answered (pr_writer (proxyStream env (http_acker env ops r) est svc w))"
proof -
  obtain ok w1 where w1: "http_AckConnection env ops r (pe_spans env) w = (ok, w1)" by fastforce
  have a: "usable w1" "answered w1"
    using headers_usable [OF assms(1)] headers_answer [OF assms(1)] w1
    unfolding http_AckConnection_def Let_def by (metis snd_conv)+
  then show ?thesis
    using copy_answered [OF a, of "pe_stream env" False] assms(2)
    by (auto simp: proxyStream_def http_acker_def w1 pipe_down_def Let_def split: if_splits)
qed

lemma middleware_answered:
  "\<lbrakk>usable w; applyIngressMiddleware env ops hs r w = ((True, True), w')\<rbrakk> \<Longrightarrow> answered w'"
  "applyIngressMiddleware env ops hs r w = ((False, b), w') \<Longrightarrow> w' = w"
proof (induction hs)
  case (Cons h hs)
  { case 1
    then show ?case
      using Cons(1) headers_answer [OF 1(1)] by (auto split: handle_result.splits) }
  { case 2
    then show ?case using Cons(2) by (auto split: handle_result.splits) }
qed simp_all

lemma copy_usable: "usable w \<Longrightarrow> usable (snd (cfio_Copy (w_Write ops) cs f w))"
proof (induction cs arbitrary: w)
  case (Cons c cs)
  obtain ok w' where w': "w_Write ops c w = (ok, w')" by fastforce
  have "usable w'" using write_usable [OF Cons.prems, of c] by (simp add: w')
  then show ?case using Cons.IH by (simp add: w')
qed simp

lemma trailers_usable: "\<lbrakk>usable w; answered w\<rbrakk> \<Longrightarrow> usable (copyTrailers ops resp w)"
proof -
  have "\<lbrakk>usable w; answered w\<rbrakk> \<Longrightarrow> usable (fold (\<lambda>(n, v). w_AddTrailer ops n v) ps w)" for ps
    by (induction ps arbitrary: w) (auto simp: trailer_answer)
  then show "\<lbrakk>usable w; answered w\<rbrakk> \<Longrightarrow> usable (copyTrailers ops resp w)"
    by (simp add: copyTrailers_def)
qed

lemma response_usable: "usable w \<Longrightarrow> usable (snd (write_response env ops resp w))"
proof -
  assume u: "usable w"
  obtain ok w1 where w1: "w_WriteRespHeaders ops (rs_StatusCode resp) (AddSpans (pe_spans env) (rs_Header resp)) w = (ok, w1)"
    by fastforce
  have a: "usable w1" "answered w1"
    using headers_usable [OF u] headers_answer [OF u] w1 by (metis snd_conv)+
  obtain copied w2 where w2: "cfio_Copy (w_Write ops) (rs_Body resp) (rs_BodyFails resp) w1 = (copied, w2)"
    by fastforce
  have "usable w2" "answered w2"
    using copy_answered [OF a, of "rs_Body resp" "rs_BodyFails resp"] by (simp_all add: w2)
  then show ?thesis
    using a trailers_usable copy_usable [OF a(1)] by (auto simp: write_response_def w1 w2 pipe_down_def Let_def)
qed

lemma handler_usable: "usable w \<Longrightarrow> usable (run_handler ops cs w)"
proof (induction cs arbitrary: w)
  case (Cons c cs)
  then show ?case by (cases c) (simp_all add: handler_header write_usable)
qed simp

lemma stream_usable: "usable w \<Longrightarrow> usable (pr_writer (proxyStream env (http_acker env ops r) est svc w))"
proof -
  assume u: "usable w"
  obtain ok w1 where w1: "http_AckConnection env ops r (pe_spans env) w = (ok, w1)" by fastforce
  have "usable w1"
    using headers_usable [OF u] w1 unfolding http_AckConnection_def Let_def by (metis snd_conv)
  then show ?thesis
    using u copy_usable [of w1 "pe_stream env" False] by (auto simp: proxyStream_def http_acker_def w1 pipe_down_def Let_def)
qed

lemma serve_usable:
  assumes "usable w"
  shows "usable (pr_writer (serve_rule env ops rule svc r isWebsocket w))"
proof -
  have h: "usable (pr_writer (proxyHTTPRequest env ops answer w))" for answer
    using response_usable [OF assms, of env] assms
    by (cases "fst answer"; cases "write_response env ops (the (fst answer)) w") (auto simp: proxyHTTPRequest_def, metis snd_conv)
  have s: "usable (pr_writer (proxyStream env (http_acker env ops q) est svc w))" for q est
    by (rule stream_usable [OF assms])
  show ?thesis
    using assms h s handler_usable [OF assms]
    by (auto simp: serve_rule_def proxyLocalRequest_def Let_def split: option.splits)
qed

lemma middleware_usable: "usable w \<Longrightarrow> usable (snd (applyIngressMiddleware env ops hs r w))"
  by (induction hs) (auto simp: headers_usable split: handle_result.splits)

lemma ProxyHTTP_usable:
  assumes "usable w" and "ProxyHTTP env ops p r isWebsocket w = Ok res"
  shows "usable (pr_writer res)"
proof -
  obtain rule i where rule: "FindMatchingRule (pe_lib env) (ingressRules p) (rq_Host (appendTagHeaders p r))
      (u_Path (rq_URL (appendTagHeaders p r))) = (Ok (rule, i) :: (proxy_error, ingress_rule \<times> int) outcome)"
    using assms(2) by (auto simp: ProxyHTTP_def Let_def obind_Ok_iff)
  obtain failed applied w' where m: "applyIngressMiddleware env ops (r_Handlers rule) (appendTagHeaders p r) w = ((failed, applied), w')"
    by (metis prod.exhaust)
  have "usable w'" using middleware_usable [OF assms(1), of env "r_Handlers rule" "appendTagHeaders p r"] by (simp add: m)
  then show ?thesis
    using assms(2) m rule serve_usable [of w' env rule "service_at p i" "appendTagHeaders p r" isWebsocket]
    by (cases failed; cases applied) (auto simp: ProxyHTTP_def Let_def)
qed

text \<open>A request that ends without an error was answered, unless a local handler chose not to.\<close>

lemma ProxyHTTP_answered:
  assumes "usable w" and "ProxyHTTP env ops p r isWebsocket w = Ok res" and "pr_error res = None"
    and "\<nexists>q. ServedLocally q \<in> set (pr_calls res)"
  shows "answered (pr_writer res)"
proof -
  obtain rule i where rule: "FindMatchingRule (pe_lib env) (ingressRules p) (rq_Host (appendTagHeaders p r))
      (u_Path (rq_URL (appendTagHeaders p r))) = (Ok (rule, i) :: (proxy_error, ingress_rule \<times> int) outcome)"
    using assms(2) by (auto simp: ProxyHTTP_def Let_def obind_Ok_iff)
  obtain failed applied w' where m: "applyIngressMiddleware env ops (r_Handlers rule) (appendTagHeaders p r) w = ((failed, applied), w')"
    by (metis prod.exhaust)
  show ?thesis
  proof (cases failed)
    case True
    then show ?thesis
      using assms m rule middleware_answered(1) [OF assms(1)] by (cases applied) (auto simp: ProxyHTTP_def Let_def)
  next
    case False
    then have w': "w' = w" using m middleware_answered(2) [of env hs "appendTagHeaders p r" w applied w' for hs] by simp
    have res: "res = serve_rule env ops rule (service_at p i) (appendTagHeaders p r) isWebsocket w"
      using assms(2) m rule False w' by (simp add: ProxyHTTP_def Let_def)
    have err: "pr_error (proxyHTTPRequest env ops answer w) = None \<Longrightarrow> answered (pr_writer (proxyHTTPRequest env ops answer w))" for answer
      by (rule http_answered [OF assms(1)]) simp
    have strm: "pr_error (proxyStream env (http_acker env ops q) est svc w) = None \<Longrightarrow>
        answered (pr_writer (proxyStream env (http_acker env ops q) est svc w))" for q est svc
      by (rule stream_answered [OF assms(1)]) simp
    show ?thesis
      using assms(3,4) err strm unfolding res serve_rule_def
      by (auto simp: proxyLocalRequest_def Let_def split: option.splits if_splits)
  qed
qed

end

subsection \<open>Properties\<close>

lemma middleware_rejects:
  "\<lbrakk>cfg \<in> set hs; jwt_Handle env cfg r \<noteq> Pass\<rbrakk> \<Longrightarrow> fst (fst (applyIngressMiddleware env ops hs r w))"
  by (induction hs) (auto split: handle_result.splits)

lemma ProxyHTTP_authorised:
  assumes "ProxyHTTP env ops p r isWebsocket w = Ok res" and "pr_calls res \<noteq> []"
    and "FindMatchingRule (pe_lib env) (ingressRules p) (rq_Host (appendTagHeaders p r)) (u_Path (rq_URL (appendTagHeaders p r)))
         = (Ok (rule, i) :: (proxy_error, ingress_rule \<times> int) outcome)"
    and "cfg \<in> set (r_Handlers rule)"
  shows "jwt_Handle env cfg (appendTagHeaders p r) = Pass"
proof (rule ccontr)
  assume "jwt_Handle env cfg (appendTagHeaders p r) \<noteq> Pass"
  from middleware_rejects [OF assms(4) this, of ops w]
  obtain a w' where "applyIngressMiddleware env ops (r_Handlers rule) (appendTagHeaders p r) w = ((True, a), w')"
    by (metis fst_conv prod.exhaust)
  with assms(1-3) show False
    by (cases a) (auto simp: ProxyHTTP_def Let_def)
qed

lemma rule_handlers_required:
  assumes "validate_rule lib d i n r = Inr rule" and "raw_Access (ur_OriginRequest r) = Some access" and "ac_Required access"
  shows "r_Handlers rule = [access]"
  using assms by (auto simp: validate_rule_def rule_handlers_def split: sum.splits prod.splits option.splits if_splits)

definition has_valid_token :: "'s proxy_env \<Rightarrow> AccessConfig \<Rightarrow> http_request \<Rightarrow> bool" where
  "has_valid_token env cfg r =
     (case pe_verify env (certs_url cfg) (h_Get (rq_Header r) ''Cf-Access-Jwt-Assertion'') of
        None \<Rightarrow> False
      | Some audience \<Rightarrow> h_Get (rq_Header r) ''Cf-Access-Jwt-Assertion'' \<noteq> [] \<and> set audience \<inter> set (ac_AudTag cfg) \<noteq> {})"

lemma jwt_Handle_Pass: "jwt_Handle env cfg r = Pass \<longleftrightarrow> has_valid_token env cfg r"
  by (auto simp: jwt_Handle_def has_valid_token_def Let_def list_ex_iff split: option.splits)

text \<open>C3. When a rule requires Access, no request reaches its origin without a token that verifies under the
  team's certificates and names one of the accepted audiences.\<close>

theorem access_enforced:
  assumes "validateIngress (pe_lib env) rs d = Inr ing" and "rs \<noteq> []"
    and "ProxyHTTP env ops (NewOriginProxy ing ss dl tags) r isWebsocket w = Ok res" and "pr_calls res \<noteq> []"
  shows "\<exists>i < length rs. rule_Matches (pe_lib env) (ing_Rules ing ! i) (request_host (rq_Host r)) (u_Path (rq_URL r))
           \<and> (\<forall>j < i. \<not> rule_Matches (pe_lib env) (ing_Rules ing ! j) (request_host (rq_Host r)) (u_Path (rq_URL r)))
           \<and> (case raw_Access (ur_OriginRequest (rs ! i)) of
                None \<Rightarrow> True
              | Some access \<Rightarrow> ac_Required access \<longrightarrow> has_valid_token env access (appendTagHeaders (NewOriginProxy ing ss dl tags) r))"
proof -
  let ?p = "NewOriginProxy ing ss dl tags"
  obtain i where i: "i < length rs"
    and f: "FindMatchingRule (pe_lib env) ing (rq_Host r) (u_Path (rq_URL r)) = (Ok (ing_Rules ing ! i, int i) :: (proxy_error, ingress_rule \<times> int) outcome)"
    and m: "rule_Matches (pe_lib env) (ing_Rules ing ! i) (request_host (rq_Host r)) (u_Path (rq_URL r))"
      "\<forall>j < i. \<not> rule_Matches (pe_lib env) (ing_Rules ing ! j) (request_host (rq_Host r)) (u_Path (rq_URL r))"
    using validated_last_catches_all [OF assms(1,2)] FindMatchingRule_user validateIngress_Inr(1,2) [OF assms(1)]
    by (metis first_match.simps(1))
  have "has_valid_token env access (appendTagHeaders ?p r)"
    if "raw_Access (ur_OriginRequest (rs ! i)) = Some access" "ac_Required access" for access
  proof -
    have "r_Handlers (ing_Rules ing ! i) = [access]"
      using rule_handlers_required [OF validateIngress_Inr(3) [OF assms(1) i] that] .
    moreover have "FindMatchingRule (pe_lib env) (ingressRules ?p) (rq_Host (appendTagHeaders ?p r)) (u_Path (rq_URL (appendTagHeaders ?p r)))
        = (Ok (ing_Rules ing ! i, int i) :: (proxy_error, ingress_rule \<times> int) outcome)"
      using f by (simp add: NewOriginProxy_def appendTagHeaders_def)
    ultimately show ?thesis
      using ProxyHTTP_authorised [OF assms(3,4)] by (simp flip: jwt_Handle_Pass)
  qed
  with i m show ?thesis by (auto split: option.splits)
qed

definition sample_env :: "unit proxy_env" where
  "sample_env =
     \<lparr>pe_lib = sample_lib, pe_verify = (\<lambda>u t. if t = ''good'' then Some [''aud''] else None),
      pe_roundtrip = (\<lambda>t r. Some \<lparr>rs_StatusCode = 200, rs_Header = [], rs_Body = [''hi''], rs_BodyFails = False,
                                   rs_Upgradable = False, rs_Trailer = []\<rparr>),
      pe_ctx_done = False, pe_dial = (\<lambda>a. True), pe_dial_tcp = (\<lambda>c a. True), pe_stream = [], pe_spans = [],
      pe_local = (\<lambda>r. []), pe_sha1 = id\<rparr>"

text \<open>A writer that keeps the statuses it was given.\<close>

definition status_writer :: "int list response_writer" where
  "status_writer =
     \<lparr>w_WriteRespHeaders = (\<lambda>s h w. (True, w @ [s])), w_WriteHeader = (\<lambda>s h w. w @ [s]), w_Write = (\<lambda>p w. (True, w)),
      w_AddTrailer = (\<lambda>n v w. w)\<rparr>"

definition guarded_rules :: "UnvalidatedIngressRule list" where
  "guarded_rules =
     [\<lparr>ur_Hostname = [], ur_Path = [], ur_Service = ''http://x'',
       ur_OriginRequest = empty_raw\<lparr>raw_Access := Some \<lparr>ac_Required = True, ac_TeamName = ''t'', ac_AudTag = [''aud''], ac_Environment = []\<rparr>\<rparr>\<rparr>]"

definition sample_request_with :: "http_header \<Rightarrow> http_request" where
  "sample_request_with h =
     \<lparr>rq_Method = ''GET'', rq_Host = ''a.com'', rq_URL = \<lparr>u_Scheme = [], u_Host = [], u_Path = ''/'', u_String = []\<rparr>,
      rq_Header = h, rq_ContentLength = 0, rq_TransferEncoding = [], rq_Body = None\<rparr>"

definition sample_transport :: http_transport where
  "sample_transport =
     \<lparr>tr_CAPool = [], tr_MaxIdleConns = 1, tr_MaxIdleConnsPerHost = 1, tr_IdleConnTimeout = 0, tr_TLSHandshakeTimeout = 0,
      tr_ExpectContinueTimeout = 0, tr_InsecureSkipVerify = False, tr_ForceAttemptHTTP2 = False, tr_ServerName = [],
      tr_DialTimeout = 0, tr_DialKeepAlive = 0, tr_HappyEyeballs = True, tr_Dial = AnyAddress\<rparr>"

definition sample_started :: "started list" where
  "sample_started =
     [StartedHttp \<lparr>sh_url = \<lparr>u_Scheme = ''http'', u_Host = ''x'', u_Path = [], u_String = ''http://x''\<rparr>, sh_hostHeader = [],
                   sh_matchSNIToHost = False, sh_transport = sample_transport\<rparr>]"

definition sample_dialers :: "unit OriginDialerService" where
  "sample_dialers = NewOriginDialer \<lparr>d_Timeout = 5, d_KeepAlive = 6\<rparr> 7"

definition serve_sample :: "http_header \<Rightarrow> (proxy_error, (unit, int list) proxy_result) outcome" where
  "serve_sample h =
     (case validateIngress sample_lib guarded_rules zero_request of
        Inl e \<Rightarrow> Panic
      | Inr ing \<Rightarrow>
          ProxyHTTP sample_env status_writer (NewOriginProxy ing sample_started sample_dialers []) (sample_request_with h) False [])"

lemma serve_sample_good:
  "(case serve_sample [(''Cf-Access-Jwt-Assertion'', [''good''])] of
      Ok res \<Rightarrow> length (pr_calls res) = 1 \<and> pr_writer res = [200] | _ \<Rightarrow> False)
   \<and> (case serve_sample [] of Ok res \<Rightarrow> pr_calls res = [] \<and> pr_writer res = [403] | _ \<Rightarrow> False)"
  by code_simp

theorem access_enforced_witness:
  "\<exists>ing res. validateIngress sample_lib guarded_rules zero_request = Inr ing
     \<and> serve_sample [(''Cf-Access-Jwt-Assertion'', [''good''])] = Ok res \<and> pr_calls res \<noteq> []
     \<and> (\<exists>i < length guarded_rules. rule_Matches sample_lib (ing_Rules ing ! i) ''a.com'' ''/'')"
proof -
  let ?h = "[(''Cf-Access-Jwt-Assertion'', [''good''])]"
  obtain res where res: "serve_sample ?h = Ok res" "length (pr_calls res) = 1"
    using serve_sample_good by (auto split: outcome.splits)
  then have calls: "pr_calls res \<noteq> []" by auto
  obtain ing where ing: "validateIngress sample_lib guarded_rules zero_request = Inr ing"
    and p: "ProxyHTTP sample_env status_writer (NewOriginProxy ing sample_started sample_dialers []) (sample_request_with ?h) False [] = Ok res"
    using res(1) by (auto simp: serve_sample_def split: sum.splits)
  have lib: "pe_lib sample_env = sample_lib" by (simp add: sample_env_def)
  have "guarded_rules \<noteq> []" by (simp add: guarded_rules_def)
  from access_enforced [of sample_env, unfolded lib, OF ing this p calls]
  have "\<exists>i < length guarded_rules. rule_Matches sample_lib (ing_Rules ing ! i) (request_host ''a.com'') ''/''"
    by (auto simp: sample_request_with_def)
  moreover have "request_host ''a.com'' = ''a.com''" by code_simp
  ultimately show ?thesis using res(1) calls ing by auto
qed

lemma setConfig_Access: "or_Access (setConfig d o') = from_opt (or_Access d) (raw_Access o')"
  by (simp add: setConfig_fields)

lemma rule_service_Access:
  "rule_service lib r cfg = Inr (svc, cfg') \<Longrightarrow> or_Access cfg' = or_Access cfg"
  by (auto simp: rule_service_def Let_def split: if_splits sum.splits)

lemma validate_rule_parts:
  assumes "validate_rule lib d i n r = Inr rule"
  obtains "rule_service lib r (setConfig d (ur_OriginRequest r)) = Inr (r_Service rule, r_Config rule)"
    and "rule_handlers r = Inr (r_Handlers rule)"
  using assms by (auto simp: validate_rule_def split: sum.splits prod.splits option.splits if_splits)

text \<open>C36. Access settings given for all rules reach the settings of a rule, but only the rule's own settings install
  the check.\<close>

theorem general_access_not_enforced:
  assumes "validate_rule lib d i n r = Inr rule" and "raw_Access (ur_OriginRequest r) = None"
  shows "r_Handlers rule = [] \<and> or_Access (r_Config rule) = or_Access d"
proof -
  from assms(1) show ?thesis
    by (rule validate_rule_parts)
       (use assms(2) rule_service_Access setConfig_Access in \<open>fastforce simp: rule_handlers_def from_opt_def\<close>)
qed

definition required_access :: AccessConfig where
  "required_access = \<lparr>ac_Required = True, ac_TeamName = ''t'', ac_AudTag = [''aud''], ac_Environment = []\<rparr>"

theorem general_access_not_enforced_witness:
  "\<exists>rule. validate_rule sample_lib (zero_request\<lparr>or_Access := required_access\<rparr>) 0 1 (sample_ur [] ''http://x'') = Inr rule
     \<and> r_Handlers rule = [] \<and> ac_Required (or_Access (r_Config rule))"
proof -
  let ?d = "zero_request\<lparr>or_Access := required_access\<rparr>"
  have "\<not> isl (validate_rule sample_lib ?d 0 1 (sample_ur [] ''http://x''))" by code_simp
  then obtain rule where r: "validate_rule sample_lib ?d 0 1 (sample_ur [] ''http://x'') = Inr rule"
    by (cases "validate_rule sample_lib ?d 0 1 (sample_ur [] ''http://x'')") auto
  have "raw_Access (ur_OriginRequest (sample_ur [] ''http://x'')) = None"
    by (simp add: sample_ur_def empty_raw_def)
  from general_access_not_enforced [OF r this] have "r_Handlers rule = []" "ac_Required (or_Access (r_Config rule))"
    by (simp_all add: required_access_def)
  with r show ?thesis by blast
qed

lemma acquire_release:
  assumes "Acquire l = Inr l1" and "activeFlowsCounter l \<noteq> - 1"
  shows "Release l1 = l"
proof -
  have l1: "l1 = l\<lparr>activeFlowsCounter := activeFlowsCounter l + 1\<rparr>"
    using assms(1) by (auto simp: Acquire_def split: if_splits)
  have "activeFlowsCounter l + 1 \<noteq> 0"
    using assms(2) by (simp add: eq_neg_iff_add_eq_0)
  then have "\<not> activeFlowsCounter l + 1 \<le> 0" by simp
  then show ?thesis by (simp add: Release_def l1)
qed

lemma proxyTCPStream_calls:
  "length (pr_calls (proxyTCPStream env ak dest d a)) = 1 \<and> pr_error (proxyTCPStream env ak dest d a) \<noteq> Some TooManyFlows"
  by (cases "a_Ack ak (pe_spans env) a") (simp add: proxyTCPStream_def Let_def)

text \<open>C39. A TCP stream dials at most one origin and only when the limiter grants it a slot, and it gives the slot back
  however it ends.\<close>

theorem tcp_flow_slot:
  assumes "activeFlowsCounter l \<noteq> - 1"
  shows "snd (ProxyTCP env ak p id dest l a) = l
     \<and> length (pr_calls (fst (ProxyTCP env ak p id dest l a))) \<le> 1
     \<and> (pr_error (fst (ProxyTCP env ak p id dest l a)) = Some TooManyFlows \<longleftrightarrow> isl (Acquire l))
     \<and> (isl (Acquire l) \<longrightarrow> pr_calls (fst (ProxyTCP env ak p id dest l a)) = [] \<and> pr_writer (fst (ProxyTCP env ak p id dest l a)) = a)"
proof (cases "Acquire l")
  case (Inl e)
  then show ?thesis by (simp add: ProxyTCP_def)
next
  case (Inr l1)
  have "Release l1 = l" by (rule acquire_release [OF Inr assms])
  then show ?thesis
    using Inr proxyTCPStream_calls [of env ak _ "px_originDialer p" a]
    by (cases "ParseAddrPort dest") (simp_all add: ProxyTCP_def)
qed

theorem tcp_flow_slot_witness:
  "isl (Acquire (NewLimiter 0\<lparr>unlimited := False\<rparr>))
   \<and> pr_calls (fst (ProxyTCP sample_env \<lparr>a_Ack = (\<lambda>s w. (True, w)), a_Write = (\<lambda>p w. (True, w))\<rparr>
        (NewOriginProxy (newDefaultOrigin no_flags) [] sample_dialers []) id ''1.1.1.1:80'' (NewLimiter 0\<lparr>unlimited := False\<rparr>) ())) = []"
proof -
  have c: "activeFlowsCounter (NewLimiter 0\<lparr>unlimited := False\<rparr>) \<noteq> - 1" by (simp add: NewLimiter_def)
  have "isl (Acquire (NewLimiter 0\<lparr>unlimited := False\<rparr>))" by (simp add: Acquire_def NewLimiter_def)
  with tcp_flow_slot [OF c, where env = sample_env and ak = "\<lparr>a_Ack = (\<lambda>s w. (True, w)), a_Write = (\<lambda>p w. (True, w))\<rparr>"
      and p = "NewOriginProxy (newDefaultOrigin no_flags) [] sample_dialers []" and dest = "''1.1.1.1:80''" and a = "()"]
  show ?thesis by simp
qed

subsection \<open>Where a request goes\<close>

text \<open>The rule a validated ingress serves a request with, when no internal rule takes it.\<close>

lemma picked_rule:
  assumes "validateIngress lib rs d = Inr ing" and "ingressRules p = ing\<lparr>InternalRules := irs\<rparr>"
    and "FindMatchingRule lib (ingressRules p) h path = (Ok (rule, k) :: ('e, ingress_rule \<times> int) outcome)" and "0 \<le> k"
  shows "\<exists>i < length rs. k = int i \<and> rule = ing_Rules ing ! i \<and> rule_Matches lib rule (request_host h) path
           \<and> (\<forall>j < i. \<not> rule_Matches lib (ing_Rules ing ! j) (request_host h) path)"
proof -
  let ?m = "\<lambda>r. rule_Matches lib r (request_host h) path"
  have internal: "first_match ?m 0 irs = None"
    using assms(2-4) by (cases "first_match ?m 0 irs") (auto simp: FindMatchingRule_def request_host_def)
  have "rs \<noteq> []"
  proof
    assume "rs = []"
    then have "ing_Rules ing = []" using validateIngress_Inr(2) [OF assms(1)] by simp
    with internal assms(2,3) show False by (simp add: FindMatchingRule_def request_host_def)
  qed
  then have "last_catches_all (ingressRules p)"
    using validated_last_catches_all [OF assms(1)] assms(2) by (simp add: last_catches_all_def)
  moreover have "first_match ?m 0 (InternalRules (ingressRules p)) = None" using internal assms(2) by simp
  ultimately obtain i where "i < length (ing_Rules (ingressRules p))"
    "FindMatchingRule lib (ingressRules p) h path = (Ok (ing_Rules (ingressRules p) ! i, int i) :: ('e, ingress_rule \<times> int) outcome)"
    "?m (ing_Rules (ingressRules p) ! i)" "\<forall>j < i. \<not> ?m (ing_Rules (ingressRules p) ! j)"
    using FindMatchingRule_user [of "ingressRules p" lib h path] by blast
  with assms(2,3) validateIngress_Inr(2) [OF assms(1)] show ?thesis by auto
qed

lemma http_service_url:
  assumes "validate_rule lib d i n r = Inr rule" and "r_Service rule = HttpService u"
  shows "lib_url lib (ur_Service r) = Some u \<and> u_Scheme u \<in> {''http'', ''https'', ''ws'', ''wss''}"
proof -
  have tcp: "newTCPOverWSService v \<noteq> HttpService u" for v by (simp add: newTCPOverWSService_def Let_def)
  have url: "url_service lib s = Inr (HttpService u) \<Longrightarrow> lib_url lib s = Some u \<and> isHTTPService u" for s
    using tcp by (auto simp: url_service_def split: option.splits if_splits)
  have other: "status_service s \<noteq> Inr (HttpService u)" "socks_service irs \<noteq> Inr (HttpService u)" for s irs
    by (simp_all add: status_service_def socks_service_def split: option.split sum.split)
  have keep: "(case x of Inl e \<Rightarrow> Inl e | Inr svc \<Rightarrow> Inr (svc, cfg)) = Inr (HttpService u, cfg') \<longleftrightarrow> x = Inr (HttpService u) \<and> cfg' = cfg"
    for x :: "ingress_error + OriginService" and cfg cfg' :: origin_request
    by (cases x) auto
  from assms obtain cfg where "rule_service lib r cfg = Inr (HttpService u, r_Config rule)"
    by (metis validate_rule_parts)
  then show ?thesis
    using url other by (auto simp: rule_service_def Let_def keep newBastionService_def isHTTPService_def split: if_splits)
qed

definition touched_headers :: "string set" where
  "touched_headers = {''Connection'', ''Upgrade'', ''Sec-Websocket-Version'', ''X-Forwarded-Host''}"

text \<open>
  What leaves for the origin of an HTTP rule: over TLS exactly when the configured URL asks for it, to the
  host of that URL, with the settings of the rule; the path, the method, the body and the other headers are
  the client's.
\<close>

definition wire_scheme :: "string \<Rightarrow> string" where
  "wire_scheme sch = (if sch \<in> {''https'', ''wss''} then ''https'' else ''http'')"

definition request_kept :: "bool \<Rightarrow> http_request \<Rightarrow> http_request \<Rightarrow> bool" where
  "request_kept isWebsocket r q =
     (rq_Method q = rq_Method r \<and> u_Path (rq_URL q) = u_Path (rq_URL r) \<and> rq_Body q = (if isWebsocket then None else rq_Body r)
      \<and> h_Get (rq_Header q) ''Connection'' = (if isWebsocket then ''Upgrade'' else ''keep-alive'')
      \<and> (isWebsocket \<longrightarrow> h_Get (rq_Header q) ''Upgrade'' = ''websocket'')
      \<and> (\<forall>k. CanonicalHeaderKey k \<notin> touched_headers \<longrightarrow> h_Get (rq_Header q) k = h_Get (rq_Header r) k))"

definition host_rewritten :: "origin_request \<Rightarrow> http_request \<Rightarrow> http_request \<Rightarrow> bool" where
  "host_rewritten cfg r q =
     (if or_HTTPHostHeader cfg = [] then rq_Host q = rq_Host r \<and> h_Get (rq_Header q) ''X-Forwarded-Host'' = h_Get (rq_Header r) ''X-Forwarded-Host''
      else rq_Host q = or_HTTPHostHeader cfg \<and> h_Get (rq_Header q) ''X-Forwarded-Host'' = rq_Host r)"

definition transport_set :: "origin_request \<Rightarrow> http_transport \<Rightarrow> bool" where
  "transport_set cfg t = (tr_InsecureSkipVerify t = or_NoTLSVerify cfg \<and> tr_CAPool t = or_CAPool cfg \<and> tr_DialTimeout t = or_ConnectTimeout cfg)"

definition server_name :: "origin_request \<Rightarrow> http_request \<Rightarrow> string" where
  "server_name cfg q = (if or_MatchSNIToHost cfg then rq_Host q else or_OriginServerName cfg)"

definition reaches_origin ::
    "start_env \<Rightarrow> OriginService \<Rightarrow> origin_request \<Rightarrow> http_request \<Rightarrow> http_transport \<Rightarrow> http_request \<Rightarrow> bool" where
  "reaches_origin senv svc cfg r t q =
     (case svc of
        HttpService u \<Rightarrow> u_Scheme (rq_URL q) = wire_scheme (u_Scheme u) \<and> u_Host (rq_URL q) = u_Host u \<and> tr_Dial t = AnyAddress
          \<and> host_rewritten cfg r q \<and> tr_ServerName t = server_name cfg q
      | UnixSocketPath path scheme \<Rightarrow> u_Scheme (rq_URL q) = scheme \<and> rq_Host q = rq_Host r \<and> tr_Dial t = UnixAddress path
          \<and> tr_ServerName t = or_OriginServerName cfg
      | HelloWorld \<Rightarrow> u_Scheme (rq_URL q) = ''https'' \<and> hello_listener senv = Some (u_Host (rq_URL q)) \<and> tr_Dial t = AnyAddress
          \<and> host_rewritten cfg r q \<and> tr_ServerName t = server_name cfg q
      | _ \<Rightarrow> False)"

lemma touched_keys:
  "CanonicalHeaderKey ''Connection'' = ''Connection''" "CanonicalHeaderKey ''Upgrade'' = ''Upgrade''"
  "CanonicalHeaderKey ''Sec-Websocket-Version'' = ''Sec-Websocket-Version''"
  "CanonicalHeaderKey ''User-Agent'' = ''User-Agent''"
  by code_simp+

lemma outgoing_fields:
  "rq_Host (outgoing_request ws dce r) = rq_Host r" "rq_URL (outgoing_request ws dce r) = rq_URL r"
  "h_Get (rq_Header (outgoing_request ws dce r)) ''X-Forwarded-Host'' = h_Get (rq_Header r) ''X-Forwarded-Host''"
  by (simp_all add: outgoing_request_def websocket_headers_def Let_def touched_keys forwarded_key split: option.split)

lemma user_agent_key: "CanonicalHeaderKey k = ''User-Agent'' \<Longrightarrow> h_Get h k = h_Get h ''User-Agent''"
  by (simp add: h_Get_def h_Values_def touched_keys)

lemma outgoing_kept: "request_kept ws r (outgoing_request ws dce r)"
  unfolding request_kept_def
  by (simp add: outgoing_request_def websocket_headers_def Let_def touched_keys touched_headers_def split: option.split)
     (metis user_agent_key)

lemma host_rewritten_outgoing: "host_rewritten cfg (outgoing_request ws dce r) q = host_rewritten cfg r q"
  by (simp add: host_rewritten_def outgoing_fields)

lemma kept_scheme:
  "request_kept ws r q \<Longrightarrow> request_kept ws r (set_scheme sch q)"
  "request_kept ws r q \<Longrightarrow> request_kept ws r (q\<lparr>rq_URL := (rq_URL q)\<lparr>u_Host := h\<rparr>\<rparr>)"
  "request_kept ws r q \<Longrightarrow> request_kept ws r (q\<lparr>rq_Header := h_Set ''X-Forwarded-Host'' v (rq_Header q), rq_Host := h\<rparr>)"
  by (auto simp: request_kept_def set_scheme_def touched_headers_def touched_keys forwarded_key)

lemma kept_http_RoundTrip: "request_kept ws r q \<Longrightarrow> request_kept ws r (fst (http_RoundTrip s q))"
  by (simp add: http_RoundTrip_def Let_def kept_scheme)

lemma http_RoundTrip_exact:
  "u_Host (rq_URL (fst (http_RoundTrip s q))) = u_Host (sh_url s)"
  "u_Scheme (sh_url s) \<in> {''http'', ''https'', ''ws'', ''wss''} \<Longrightarrow>
     u_Scheme (rq_URL (fst (http_RoundTrip s q))) = wire_scheme (u_Scheme (sh_url s))"
  "sh_hostHeader s = or_HTTPHostHeader cfg \<Longrightarrow> host_rewritten cfg q (fst (http_RoundTrip s q))"
  "\<lbrakk>sh_matchSNIToHost s = or_MatchSNIToHost cfg; tr_ServerName (sh_transport s) = or_OriginServerName cfg\<rbrakk> \<Longrightarrow>
     snd (http_RoundTrip s q) = server_name cfg (fst (http_RoundTrip s q))"
  by (auto simp: http_RoundTrip_def Let_def set_scheme_def wire_scheme_def host_rewritten_def server_name_def forwarded_key)

lemma started_http_fields:
  assumes "start_http senv (HttpService v) u cfg = Some s"
  shows "sh_url s = u" "sh_hostHeader s = or_HTTPHostHeader cfg" "sh_matchSNIToHost s = or_MatchSNIToHost cfg"
    "tr_ServerName (sh_transport s) = or_OriginServerName cfg" "tr_Dial (sh_transport s) = AnyAddress"
    "transport_set cfg (sh_transport s)"
  using assms by (auto simp: start_http_def newHTTPTransport_def transport_set_def split: if_splits)

text \<open>One round trip of a started service.\<close>

lemma round_trip_reaches:
  assumes "start_service senv svc cfg = Some s" and "round_trip env s (outgoing_request ws dce r) = Some (a, calls)"
    and "RoundTripped t q \<in> set calls" and "\<And>u. svc = HttpService u \<Longrightarrow> u_Scheme u \<in> {''http'', ''https'', ''ws'', ''wss''}"
  shows "reaches_origin senv svc cfg r t q \<and> request_kept ws r q \<and> transport_set cfg t"
proof -
  let ?q = "outgoing_request ws dce r"
  note kept = outgoing_kept [of ws r dce]
  show ?thesis
  proof (cases svc)
    case (UnixSocketPath path scheme)
    then obtain t0 where t0: "newHTTPTransport senv svc cfg = Some t0" "s = StartedUnix path scheme t0"
      using assms(1) by auto
    then have "t = t0" "q = set_scheme scheme ?q"
      using assms(2,3) by (auto simp: unix_RoundTrip_def Let_def)
    moreover have "transport_set cfg t0 \<and> tr_Dial t0 = UnixAddress path \<and> tr_ServerName t0 = or_OriginServerName cfg"
      using t0(1) by (auto simp: UnixSocketPath newHTTPTransport_def transport_set_def split: if_splits)
    ultimately show ?thesis
      using kept_scheme(1) [OF kept, of scheme]
      by (simp add: UnixSocketPath reaches_origin_def set_scheme_def outgoing_fields)
  next
    case (HttpService u)
    then obtain h where h: "start_http senv (HttpService u) u cfg = Some h" "s = StartedHttp h"
      using assms(1) by auto
    note f = started_http_fields [OF h(1)]
    show ?thesis
      using assms(2,3) assms(4) [OF HttpService] f kept_http_RoundTrip [OF kept, of h] http_RoundTrip_exact(1,2) [of h ?q] http_RoundTrip_exact(3,4) [of h cfg ?q]
      by (auto simp: HttpService h(2) reaches_origin_def host_rewritten_outgoing transport_set_def Let_def)
  next
    case HelloWorld
    then obtain h addr where h: "start_http senv (HttpService (hello_url [])) (hello_url []) cfg = Some h"
      "hello_listener senv = Some addr" "s = StartedHello (h\<lparr>sh_url := hello_url addr\<rparr>)"
      using assms(1) by (auto split: option.splits)
    note f = started_http_fields [OF h(1)]
    show ?thesis
      using assms(2,3) f h(2) kept_http_RoundTrip [OF kept, of "h\<lparr>sh_url := hello_url addr\<rparr>"]
        http_RoundTrip_exact(1,2) [of "h\<lparr>sh_url := hello_url addr\<rparr>" ?q] http_RoundTrip_exact(3,4) [of "h\<lparr>sh_url := hello_url addr\<rparr>" cfg ?q]
      by (auto simp: HelloWorld h(3) reaches_origin_def host_rewritten_outgoing transport_set_def hello_url_def wire_scheme_def Let_def)
  qed (use assms in \<open>auto split: option.splits\<close>)
qed

lemma served_calls:
  assumes "RoundTripped t q \<in> set (pr_calls (serve_rule env ops rule svc r isWebsocket w))"
  shows "\<exists>a calls. round_trip env svc (outgoing_request isWebsocket (or_DisableChunkedEncoding (r_Config rule)) r) = Some (a, calls)
    \<and> RoundTripped t q \<in> set calls"
proof (cases "round_trip env svc (outgoing_request isWebsocket (or_DisableChunkedEncoding (r_Config rule)) r)")
  case None
  have "RoundTripped t q \<notin> set (pr_calls (proxyStream env ak est svc w))" for ak est
    by (cases est; cases svc) (auto simp: proxyStream_def Let_def split: prod.split)
  with None assms show ?thesis
    by (auto simp: serve_rule_def proxyLocalRequest_def Let_def split: if_splits option.splits)
next
  case (Some answer)
  then have "pr_calls (serve_rule env ops rule svc r isWebsocket w) = snd answer"
    by (auto simp: serve_rule_def proxyHTTPRequest_def split: option.split prod.split)
  with Some assms show ?thesis by (cases answer) simp
qed


definition wss_lib :: ingress_lib where
  "wss_lib =
     sample_lib\<lparr>lib_url := (\<lambda>s. Some \<lparr>u_Scheme = takeWhile (\<lambda>c. c \<noteq> CHR '':'') s, u_Host = ''x'', u_Path = [], u_String = s\<rparr>)\<rparr>"

definition wss_rules :: "UnvalidatedIngressRule list" where
  "wss_rules = [sample_ur [] ''wss://x'']"

definition sample_start :: start_env where
  "sample_start = \<lparr>load_ca = (\<lambda>f. True), hello_listener = Some ''127.0.0.1:1''\<rparr>"

definition wss_proxy :: "Ingress \<Rightarrow> unit proxy" where
  "wss_proxy ing = NewOriginProxy ing (fst (StartOrigins sample_start (ing_Rules ing))) sample_dialers []"

lemma wss_sample:
  "(case validateIngress wss_lib wss_rules zero_request of
      Inl e \<Rightarrow> False
    | Inr ing \<Rightarrow> snd (StartOrigins sample_start (ing_Rules ing)) \<and>
        (case ProxyHTTP (sample_env\<lparr>pe_lib := wss_lib\<rparr>) status_writer (wss_proxy ing) (sample_request_with []) False [] of
           Ok res \<Rightarrow> (case pr_calls res of [RoundTripped t q] \<Rightarrow> True | _ \<Rightarrow> False)
         | _ \<Rightarrow> False))"
  by code_simp


end
