(* ===== verification/HTTP2_Conn.thy ===== *)
theory HTTP2_Conn
  imports Proxy
begin

text \<open>
  \<^verbatim>\<open>connection/http2.go\<close> and the parts of \<^verbatim>\<open>connection/connection.go\<close> it uses: the kinds of requests the edge
  sends over HTTP/2, the writer that packs responses, and \<^verbatim>\<open>ServeHTTP\<close>, which ends every request.  The
  \<^verbatim>\<open>http.ResponseWriter\<close> below it belongs to \<^verbatim>\<open>net/http2\<close>: it is a log of what was sent, in which any number of
  informational heads (statuses 100 to 199) comes before the first final one, which is the one that counts.
\<close>

subsection \<open>Kinds of requests\<close>

datatype Type = TypeWebsocket | TypeTCP | TypeControlStream | TypeHTTP | TypeConfiguration

fun type_shouldFlush :: "Type \<Rightarrow> bool" where
  "type_shouldFlush TypeWebsocket = True"
| "type_shouldFlush TypeTCP = True"
| "type_shouldFlush TypeControlStream = True"
| "type_shouldFlush _ = False"

fun type_String :: "Type \<Rightarrow> string" where
  "type_String TypeWebsocket = ''websocket''"
| "type_String TypeTCP = ''tcp''"
| "type_String TypeControlStream = ''control stream''"
| "type_String TypeHTTP = ''http''"
| "type_String TypeConfiguration = ''Unknown Type 4''"

definition InternalUpgradeHeader :: string where
  "InternalUpgradeHeader = ''Cf-Cloudflared-Proxy-Connection-Upgrade''"

definition InternalTCPProxySrcHeader :: string where
  "InternalTCPProxySrcHeader = ''Cf-Cloudflared-Proxy-Src''"

definition isControlStreamUpgrade :: "http_request \<Rightarrow> bool" where
  "isControlStreamUpgrade r = (h_Get (rq_Header r) InternalUpgradeHeader = ''control-stream'')"

definition isWebsocketUpgrade :: "http_request \<Rightarrow> bool" where
  "isWebsocketUpgrade r = (h_Get (rq_Header r) InternalUpgradeHeader = ''websocket'')"

definition isConfigurationUpdate :: "http_request \<Rightarrow> bool" where
  "isConfigurationUpdate r = (h_Get (rq_Header r) InternalUpgradeHeader = ''update-configuration'')"

definition IsTCPStream :: "http_request \<Rightarrow> bool" where
  "IsTCPStream r = (h_Get (rq_Header r) InternalTCPProxySrcHeader \<noteq> [])"

definition determineHTTP2Type :: "http_request \<Rightarrow> Type" where
  "determineHTTP2Type r =
     (if isConfigurationUpdate r then TypeConfiguration
      else if isWebsocketUpgrade r then TypeWebsocket
      else if IsTCPStream r then TypeTCP
      else if isControlStreamUpgrade r then TypeControlStream
      else TypeHTTP)"

definition handleMissingRequestParts :: "Type \<Rightarrow> http_request \<Rightarrow> http_request" where
  "handleMissingRequestParts connType r =
     (if connType = TypeHTTP then
        (let u = rq_URL r;
             u1 = (if length (u_Scheme u) = 0 then u\<lparr>u_Scheme := ''http''\<rparr> else u);
             u2 = (if length (u_Host u1) = 0 then u1\<lparr>u_Host := ''localhost:8080''\<rparr> else u1)
         in r\<lparr>rq_URL := u2\<rparr>)
      else r)"

definition stripWebsocketUpgradeHeader :: "http_request \<Rightarrow> http_request" where
  "stripWebsocketUpgradeHeader r = r\<lparr>rq_Header := h_Del InternalUpgradeHeader (rq_Header r)\<rparr>"

text \<open>The request always has a URL here, so the host is never missing altogether.\<close>

definition getRequestHost :: "http_request \<Rightarrow> string" where
  "getRequestHost r = (if rq_Host r \<noteq> [] then rq_Host r else u_Host (rq_URL r))"

definition FindCfRayHeader :: "http_request \<Rightarrow> string" where
  "FindCfRayHeader r = h_Get (rq_Header r) ''Cf-Ray''"

definition lbProbeUserAgentPrefix :: string where
  "lbProbeUserAgentPrefix =
     ''Mozilla/5.0 (compatible; Cloudflare-Traffic-Manager/1.0; +https://www.cloudflare.com/traffic-manager/;''"

definition IsLBProbeRequest :: "http_request \<Rightarrow> bool" where
  "IsLBProbeRequest r = has_prefix (h_Get (rq_Header r) ''User-Agent'') lbProbeUserAgentPrefix"

definition flushableContentTypes :: "string list" where
  "flushableContentTypes = [''text/event-stream'', ''application/grpc'', ''application/x-ndjson'']"

definition shouldFlush :: "http_header \<Rightarrow> bool" where
  "shouldFlush h =
     (if h_Get h ''content-length'' = [] then True
      else
        (let te = h_Get h ''transfer-encoding''; ct = h_Get h ''content-type''
         in if te \<noteq> [] \<and> str_contains (to_lower te) ''chunked'' then True
            else ct \<noteq> [] \<and> list_ex (\<lambda>c. has_prefix (to_lower ct) c) flushableContentTypes))"

subsection \<open>The response writer below\<close>

datatype sent = SentStatus int http_header | SentBody string | SentFlush

text \<open>
  \<open>rw_order\<close> is the order in which the runtime ranges over a map of headers, which no caller knows, and
  \<open>rw_panicked\<close> says that the library panicked on a status without three digits.  It then aborts the
  handler and resets the stream, so nothing more is sent.
\<close>

record http_rw =
  rw_header :: http_header
  rw_sent :: "sent list"
  rw_write_fails :: "string \<Rightarrow> bool"
  rw_order :: "http_header \<Rightarrow> http_header"
  rw_panicked :: bool

fun is_status :: "sent \<Rightarrow> bool" where
  "is_status (SentStatus s h) = True"
| "is_status _ = False"

definition informational :: "int \<Rightarrow> bool" where
  "informational status = (100 \<le> status \<and> status \<le> 199)"

fun is_final :: "sent \<Rightarrow> bool" where
  "is_final (SentStatus s h) = (\<not> informational s)"
| "is_final _ = False"

definition rw_wrote :: "http_rw \<Rightarrow> bool" where
  "rw_wrote w = list_ex is_final (rw_sent w)"

text \<open>The headers that go out with a status.\<close>

definition head_of :: "int \<Rightarrow> http_header \<Rightarrow> http_header" where
  "head_of status h = (if informational status then h_Del ''Content-Length'' (h_Del ''Transfer-Encoding'' h) else h)"

definition rw_WriteHeader :: "int \<Rightarrow> http_rw \<Rightarrow> http_rw" where
  "rw_WriteHeader status w =
     (if rw_panicked w \<or> rw_wrote w then w
      else if status < 100 \<or> status > 999 then w\<lparr>rw_panicked := True\<rparr>
      else w\<lparr>rw_sent := rw_sent w @ [SentStatus status (head_of status (rw_header w))]\<rparr>)"

definition rw_Write :: "string \<Rightarrow> http_rw \<Rightarrow> bool \<times> http_rw" where
  "rw_Write p w =
     (let w' = rw_WriteHeader 200 w
      in if rw_panicked w' \<or> rw_write_fails w p then (False, w') else (True, w'\<lparr>rw_sent := rw_sent w' @ [SentBody p]\<rparr>))"

definition rw_Flush :: "http_rw \<Rightarrow> http_rw" where
  "rw_Flush w =
     (let w' = rw_WriteHeader 200 w in if rw_panicked w' then w' else w'\<lparr>rw_sent := rw_sent w' @ [SentFlush]\<rparr>)"

subsection \<open>The writer of responses\<close>

record http2RespWriter =
  rp_w :: http_rw
  rp_shouldFlush :: bool
  rp_statusWritten :: bool
  rp_respHeaders :: http_header
  rp_hijackedv :: bool

definition ResponseUserHeaders :: string where
  "ResponseUserHeaders = ''Cf-Cloudflared-Response-Headers''"

definition ResponseMetaHeader :: string where
  "ResponseMetaHeader = ''Cf-Cloudflared-Response-Meta''"

definition quoted :: "string \<Rightarrow> string" where
  "quoted s = CHR 0x22 # s @ [CHR 0x22]"

definition mustInitRespMetaHeader :: "string \<Rightarrow> bool \<Rightarrow> string" where
  "mustInitRespMetaHeader src flowRateLimited =
     ''{'' @ quoted ''src'' @ '':'' @ quoted src
     @ (if flowRateLimited then '','' @ quoted ''flow_rate_limited'' @ '':true'' else []) @ ''}''"

definition responseMetaHeaderCfd :: string where
  "responseMetaHeaderCfd = mustInitRespMetaHeader ''cloudflared'' False"

definition responseMetaHeaderCfdFlowRateLimited :: string where
  "responseMetaHeaderCfdFlowRateLimited = mustInitRespMetaHeader ''cloudflared'' True"

definition responseMetaHeaderOrigin :: string where
  "responseMetaHeaderOrigin = mustInitRespMetaHeader ''origin'' False"

definition NewHTTP2RespWriter :: "http_rw \<Rightarrow> Type \<Rightarrow> http2RespWriter" where
  "NewHTTP2RespWriter w connType =
     \<lparr>rp_w = w, rp_shouldFlush = type_shouldFlush connType, rp_statusWritten = False, rp_respHeaders = [], rp_hijackedv = False\<rparr>"

definition rp_setResponseMetaHeader :: "string \<Rightarrow> http2RespWriter \<Rightarrow> http2RespWriter" where
  "rp_setResponseMetaHeader v rp = rp\<lparr>rp_w := (rp_w rp)\<lparr>rw_header := h_Set ResponseMetaHeader v (rw_header (rp_w rp))\<rparr>\<rparr>"

definition rp_AddTrailer :: "string \<Rightarrow> string \<Rightarrow> http2RespWriter \<Rightarrow> http2RespWriter" where
  "rp_AddTrailer n v rp =
     (if \<not> rp_statusWritten rp then rp
      else rp\<lparr>rp_w := (rp_w rp)\<lparr>rw_header := h_Add (''Trailer:'' @ n) v (rw_header (rp_w rp))\<rparr>\<rparr>)"

text \<open>The loop over the response's headers: what goes into the HTTP/2 header map and what is packed.\<close>

fun split_headers :: "http_header \<Rightarrow> http_header \<Rightarrow> http_header \<Rightarrow> http_header \<times> http_header" where
  "split_headers [] dest user = (dest, user)"
| "split_headers ((name, vs) # hs) dest user =
     (let h2name = to_lower name;
          dest1 = (if h2name = ''content-length'' then h_assign name vs dest else dest)
      in if h2name = IntCloudflaredTracingHeader
         then split_headers hs (h_assign (CanonicalHeaderKey IntCloudflaredTracingHeader) vs dest1) user
         else if \<not> IsControlResponseHeader h2name \<or> IsWebsocketClientHeader h2name
         then split_headers hs dest1 (h_assign name vs user)
         else split_headers hs dest1 user)"

definition rp_Flush :: "http2RespWriter \<Rightarrow> http2RespWriter" where
  "rp_Flush rp = rp\<lparr>rp_w := rw_Flush (rp_w rp)\<rparr>"

text \<open>The headers that are packed come from a map of their own, which is ranged over in its own order.\<close>

definition rp_WriteRespHeaders :: "int \<Rightarrow> http_header \<Rightarrow> http2RespWriter \<Rightarrow> bool \<times> http2RespWriter" where
  "rp_WriteRespHeaders status header rp =
     (if rp_hijackedv rp then (True, rp)
      else
        (let (dest, user) = split_headers header (rw_header (rp_w rp)) [];
             rp1 = rp\<lparr>rp_w := (rp_w rp)\<lparr>rw_header := h_Set ResponseUserHeaders (SerializeHeaders (rw_order (rp_w rp) user)) dest\<rparr>\<rparr>;
             rp2 = rp_setResponseMetaHeader responseMetaHeaderOrigin rp1;
             status' = (if status = 101 then 200 else status);
             rp3 = rp2\<lparr>rp_w := rw_WriteHeader status' (rp_w rp2)\<rparr>;
             rp4 = (if shouldFlush header then rp3\<lparr>rp_shouldFlush := True\<rparr> else rp3);
             rp5 = (if rp_shouldFlush rp4 then rp_Flush rp4 else rp4)
         in (True, rp5\<lparr>rp_statusWritten := True\<rparr>)))"

definition rp_WriteHeader :: "int \<Rightarrow> http_header \<Rightarrow> http2RespWriter \<Rightarrow> http2RespWriter" where
  "rp_WriteHeader status h rp =
     (let rp0 = rp\<lparr>rp_respHeaders := h\<rparr>
      in if rp_hijackedv rp0 then rp0 else snd (rp_WriteRespHeaders status (rp_respHeaders rp0) rp0))"

definition rp_Write :: "string \<Rightarrow> http2RespWriter \<Rightarrow> bool \<times> http2RespWriter" where
  "rp_Write p rp =
     (let (ok, w) = rw_Write p (rp_w rp); rp1 = rp\<lparr>rp_w := w\<rparr>
      in (ok, if ok \<and> rp_shouldFlush rp1 then rp_Flush rp1 else rp1))"

definition rp_Hijack :: "http2RespWriter \<Rightarrow> bool \<times> http2RespWriter" where
  "rp_Hijack rp =
     (if \<not> rp_statusWritten rp then (False, rp)
      else
        (let rp1 = (if rp_shouldFlush rp then rp_Flush rp else rp)
         in if rp_hijackedv rp1 then (False, rp1) else (True, rp1\<lparr>rp_hijackedv := True\<rparr>)))"

text \<open>True when the error response went out.\<close>

definition rp_WriteErrorResponse :: "proxy_error \<Rightarrow> http2RespWriter \<Rightarrow> bool \<times> http2RespWriter" where
  "rp_WriteErrorResponse e rp =
     (if rp_statusWritten rp then (False, rp)
      else
        (let rp1 = rp_setResponseMetaHeader
                     (if e = TooManyFlows then responseMetaHeaderCfdFlowRateLimited else responseMetaHeaderCfd) rp;
             rp2 = rp1\<lparr>rp_w := rw_WriteHeader 502 (rp_w rp1)\<rparr>
         in (True, rp2\<lparr>rp_statusWritten := True\<rparr>)))"

definition http2_ops :: "http2RespWriter response_writer" where
  "http2_ops =
     \<lparr>w_WriteRespHeaders = rp_WriteRespHeaders, w_WriteHeader = rp_WriteHeader, w_Write = rp_Write, w_AddTrailer = rp_AddTrailer\<rparr>"

subsection \<open>Serving\<close>

text \<open>
  What the connection needs from outside: the current proxy, the handler of the control stream (whether it
  ended well, and what it wrote) and the orchestrator's answer to a configuration update.
\<close>

record 's http2_server =
  hs_proxy :: "'s proxy option"
  hs_env :: "'s proxy_env"
  hs_control :: "http2RespWriter \<Rightarrow> bool \<times> http2RespWriter"
  hs_update :: "string list option \<Rightarrow> string option"

record 's served =
  sv_writer :: http2RespWriter
  sv_limiter :: flowLimiter
  sv_calls :: "'s origin_call list"
  sv_controlFailed :: bool
  sv_aborted :: bool

definition handleConfigurationUpdate ::
    "(string list option \<Rightarrow> string option) \<Rightarrow> http_request \<Rightarrow> http2RespWriter \<Rightarrow> proxy_error option \<times> http2RespWriter" where
  "handleConfigurationUpdate update r rp =
     (case update (rq_Body r) of
        None \<Rightarrow> (Some BadConfigurationBody, rp)
      | Some body \<Rightarrow> (let (ok, rp') = rp_Write body rp in (if ok then None else Some CopyFailed, rp')))"

text \<open>The switch over the kinds of requests: the error, the writer, the limiter and the calls made.\<close>

definition dispatch_http2 ::
    "'s http2_server \<Rightarrow> 's proxy \<Rightarrow> Type \<Rightarrow> http_request \<Rightarrow> flowLimiter \<Rightarrow> http2RespWriter
     \<Rightarrow> (proxy_error, proxy_error option \<times> http2RespWriter \<times> flowLimiter \<times> 's origin_call list) outcome" where
  "dispatch_http2 sv p connType r l rp =
     (case connType of
        TypeControlStream \<Rightarrow>
          (let (ok, rp') = hs_control sv rp in Ok (if ok then None else Some ControlStreamFailed, rp', l, []))
      | TypeConfiguration \<Rightarrow>
          (let (e, rp') = handleConfigurationUpdate (hs_update sv) r rp in Ok (e, rp', l, []))
      | TypeTCP \<Rightarrow>
          (let (res, l') = ProxyTCP (hs_env sv) (http_acker (hs_env sv) http2_ops r) p id (getRequestHost r) l rp
           in Ok (pr_error res, pr_writer res, l', pr_calls res))
      | _ \<Rightarrow>
          obind (ProxyHTTP (hs_env sv) http2_ops p (stripWebsocketUpgradeHeader r) (connType = TypeWebsocket) rp)
            (\<lambda>res. Ok (pr_error res, pr_writer res, l, pr_calls res)))"

definition ServeHTTP ::
    "'s http2_server \<Rightarrow> http_request \<Rightarrow> http_rw \<Rightarrow> flowLimiter \<Rightarrow> (proxy_error, 's served) outcome" where
  "ServeHTTP sv r0 w l =
     (let connType = determineHTTP2Type r0;
          r = handleMissingRequestParts connType r0;
          rp = NewHTTP2RespWriter w connType
      in case hs_proxy sv of
           None \<Rightarrow> Ok \<lparr>sv_writer = rp, sv_limiter = l, sv_calls = [], sv_controlFailed = False, sv_aborted = False\<rparr>
         | Some p \<Rightarrow>
             obind (dispatch_http2 sv p connType r l rp)
               (\<lambda>(e, rp', l', calls).
                  (let ctl = (connType = TypeControlStream \<and> e \<noteq> None)
                   in case e of
                        None \<Rightarrow> Ok \<lparr>sv_writer = rp', sv_limiter = l', sv_calls = calls, sv_controlFailed = ctl,
                                     sv_aborted = rw_panicked (rp_w rp')\<rparr>
                      | Some err \<Rightarrow>
                          (let (ok, rp2) = rp_WriteErrorResponse err rp'
                           in Ok \<lparr>sv_writer = rp2, sv_limiter = l', sv_calls = calls, sv_controlFailed = ctl,
                                  sv_aborted = (\<not> ok \<or> rw_panicked (rp_w rp2))\<rparr>))))"

subsection \<open>The writer keeps the contract\<close>

lemma sent_status [simp]:
  "is_status (SentStatus s h)" "\<not> is_status (SentBody p)" "\<not> is_status SentFlush"
  by simp_all

text \<open>A head went out, or the library panicked.\<close>

definition rw_headed :: "http_rw \<Rightarrow> bool" where
  "rw_headed w = (rw_panicked w \<or> list_ex is_status (rw_sent w))"

lemma final_status: "list_ex is_final xs \<Longrightarrow> list_ex is_status xs"
  by (induction xs rule: list.induct) (auto elim: is_final.elims)

lemma rw_WriteHeader_headed [simp]: "rw_headed (rw_WriteHeader s w)"
  by (auto simp: rw_WriteHeader_def rw_headed_def rw_wrote_def final_status)

lemma rw_append [simp]: "rw_headed w \<Longrightarrow> rw_headed (w\<lparr>rw_sent := rw_sent w @ xs\<rparr>)"
  by (auto simp: rw_headed_def)

lemma rw_Write_headed [simp]: "rw_headed (snd (rw_Write p w))"
  by (simp add: rw_Write_def Let_def)

lemma rw_Flush_headed [simp]: "rw_headed (rw_Flush w)"
  by (simp add: rw_Flush_def Let_def)

lemma rw_headed_header [simp]: "rw_headed (w\<lparr>rw_header := h\<rparr>) = rw_headed w"
  by (simp add: rw_headed_def)

definition rp_usable :: "http2RespWriter \<Rightarrow> bool" where
  "rp_usable rp = (\<not> rp_hijackedv rp)"

definition rp_answered :: "http2RespWriter \<Rightarrow> bool" where
  "rp_answered rp = rw_headed (rp_w rp)"

lemma rp_Flush_simps [simp]:
  "rp_hijackedv (rp_Flush rp) = rp_hijackedv rp" "rp_statusWritten (rp_Flush rp) = rp_statusWritten rp"
  "rw_headed (rp_w (rp_Flush rp))" "rp_shouldFlush (rp_Flush rp) = rp_shouldFlush rp"
  by (simp_all add: rp_Flush_def)

lemma rp_setMeta_simps [simp]:
  "rp_hijackedv (rp_setResponseMetaHeader v rp) = rp_hijackedv rp"
  "rp_statusWritten (rp_setResponseMetaHeader v rp) = rp_statusWritten rp"
  by (simp_all add: rp_setResponseMetaHeader_def)

lemma rp_WriteRespHeaders_effect:
  assumes "\<not> rp_hijackedv rp"
  shows "fst (rp_WriteRespHeaders s h rp)" "\<not> rp_hijackedv (snd (rp_WriteRespHeaders s h rp))"
    "rp_statusWritten (snd (rp_WriteRespHeaders s h rp))" "rp_answered (snd (rp_WriteRespHeaders s h rp))"
  using assms by (auto simp: rp_WriteRespHeaders_def rp_answered_def Let_def split: prod.splits)

lemma rp_Write_effect:
  "rp_hijackedv (snd (rp_Write p rp)) = rp_hijackedv rp" "rp_statusWritten (snd (rp_Write p rp)) = rp_statusWritten rp"
  "rp_answered (snd (rp_Write p rp))"
  using rw_Write_headed [of p "rp_w rp"]
  by (cases "rw_Write p (rp_w rp)"; simp add: rp_Write_def rp_answered_def Let_def)+

lemma rp_AddTrailer_effect:
  "rp_hijackedv (rp_AddTrailer n v rp) = rp_hijackedv rp" "rp_statusWritten (rp_AddTrailer n v rp) = rp_statusWritten rp"
  "rp_answered (rp_AddTrailer n v rp) = rp_answered rp"
  by (simp_all add: rp_AddTrailer_def rp_answered_def)

lemma rp_WriteHeader_effect:
  assumes "\<not> rp_hijackedv rp"
  shows "\<not> rp_hijackedv (rp_WriteHeader s h rp)" "rp_statusWritten (rp_WriteHeader s h rp)" "rp_answered (rp_WriteHeader s h rp)"
  using assms rp_WriteRespHeaders_effect [of "rp\<lparr>rp_respHeaders := h\<rparr>" s] by (simp_all add: rp_WriteHeader_def Let_def)

lemmas http2_ops_simps = response_writer.simps http2_ops_def

interpretation h2: response_contract http2_ops rp_usable rp_answered
  by unfold_locales
     (simp_all add: http2_ops_def rp_usable_def rp_WriteRespHeaders_effect rp_Write_effect rp_AddTrailer_effect rp_WriteHeader_effect)

text \<open>The same laws hold of the writer's own flag, which only header writes set.\<close>

interpretation h2s: response_contract http2_ops rp_usable rp_statusWritten
  by unfold_locales
     (simp_all add: http2_ops_def rp_usable_def rp_WriteRespHeaders_effect rp_Write_effect rp_AddTrailer_effect rp_WriteHeader_effect)

subsection \<open>Properties\<close>

lemma rp_new_usable: "rp_usable (NewHTTP2RespWriter w t)"
  by (simp add: rp_usable_def NewHTTP2RespWriter_def)

lemma rp_error_answers: "\<lbrakk>rp_WriteErrorResponse e rp = (ok, rp2); ok\<rbrakk> \<Longrightarrow> rp_answered rp2"
  by (auto simp: rp_WriteErrorResponse_def rp_answered_def Let_def split: if_splits)

text \<open>A TCP stream that ends well was acknowledged, which is a response head here.\<close>

lemma tcp_http2_answered:
  assumes "rp_usable rp" and "pr_error (fst (ProxyTCP env (http_acker env http2_ops r) p o' dest l rp)) = None"
  shows "rp_answered (pr_writer (fst (ProxyTCP env (http_acker env http2_ops r) p o' dest l rp)))"
proof -
  obtain ok w1 where w1: "http_AckConnection env http2_ops r (pe_spans env) rp = (ok, w1)" by fastforce
  have a: "rp_usable w1" "rp_answered w1"
    using h2.headers_usable [OF assms(1)] h2.headers_answer [OF assms(1)] w1
    unfolding http_AckConnection_def Let_def by (metis snd_conv)+
  then show ?thesis
    using h2.copy_answered [OF a, of "pe_stream env" False] assms(2)
    by (auto simp: ProxyTCP_def proxyTCPStream_def http_acker_def w1 pipe_down_def Let_def split: sum.splits option.splits if_splits)
qed

text \<open>C8. A request the edge sends over HTTP/2 to be proxied ends with a response head or with an aborted handler, which
  resets its stream; only a local handler may stay silent.\<close>

theorem http2_request_answered:
  assumes "ServeHTTP sv r w l = Ok res" and "hs_proxy sv \<noteq> None"
    and "determineHTTP2Type r \<in> {TypeHTTP, TypeWebsocket, TypeTCP}" and "\<nexists>q. ServedLocally q \<in> set (sv_calls res)"
  shows "sv_aborted res \<or> rp_answered (sv_writer res)"
proof -
  obtain p where p: "hs_proxy sv = Some p" using assms(2) by auto
  let ?t = "determineHTTP2Type r" and ?r = "handleMissingRequestParts (determineHTTP2Type r) r"
  obtain e rp' l' calls where d: "dispatch_http2 sv p ?t ?r l (NewHTTP2RespWriter w ?t) = Ok (e, rp', l', calls)"
    using assms(1) p by (auto simp: ServeHTTP_def Let_def obind_Ok_iff)
  show ?thesis
  proof (cases e)
    case (Some err)
    then show ?thesis
      using assms(1) p d rp_error_answers by (auto simp: ServeHTTP_def Let_def split: prod.splits)
  next
    case None
    have res: "rp' = sv_writer res" "calls = sv_calls res"
      using assms(1) p d None by (auto simp: ServeHTTP_def Let_def)
    show ?thesis
    proof (cases "?t = TypeTCP")
      case True
      obtain tr l2 where tr: "ProxyTCP (hs_env sv) (http_acker (hs_env sv) http2_ops ?r) p id (getRequestHost ?r) l
          (NewHTTP2RespWriter w TypeTCP) = (tr, l2)" by fastforce
      then have "pr_error tr = None" "pr_writer tr = rp'"
        using d True None by (auto simp: dispatch_http2_def)
      then show ?thesis
        using tcp_http2_answered [OF rp_new_usable, of "hs_env sv" ?r p id "getRequestHost ?r" l w TypeTCP] tr res by simp
    next
      case False
      then obtain pr where pr: "ProxyHTTP (hs_env sv) http2_ops p (stripWebsocketUpgradeHeader ?r) (?t = TypeWebsocket)
          (NewHTTP2RespWriter w ?t) = Ok pr" and e: "pr_error pr = None" "pr_writer pr = rp'" "pr_calls pr = calls"
        using d assms(3) None by (auto simp: dispatch_http2_def obind_Ok_iff)
      then show ?thesis
        using h2.ProxyHTTP_answered [OF rp_new_usable pr e(1)] assms(4) res by simp
    qed
  qed
qed

definition idle_rw :: http_rw where
  "idle_rw = \<lparr>rw_header = [], rw_sent = [], rw_write_fails = (\<lambda>p. False), rw_order = id, rw_panicked = False\<rparr>"

definition sample_http2_server :: "unit http2_server" where
  "sample_http2_server =
     \<lparr>hs_proxy = Some (NewOriginProxy (newDefaultOrigin no_flags) [StartedStatus 503 True] sample_dialers []),
      hs_env = sample_env, hs_control = (\<lambda>rp. (True, rp)), hs_update = (\<lambda>b. None)\<rparr>"

lemma sample_served:
  "(case ServeHTTP sample_http2_server (sample_request_with []) idle_rw (NewLimiter 0) of
      Ok res \<Rightarrow> sv_calls res = [] \<and> \<not> sv_aborted res | _ \<Rightarrow> False)"
  by code_simp

theorem http2_request_answered_witness:
  "\<exists>res. ServeHTTP sample_http2_server (sample_request_with []) idle_rw (NewLimiter 0) = Ok res \<and> rp_answered (sv_writer res)"
proof -
  obtain res where res: "ServeHTTP sample_http2_server (sample_request_with []) idle_rw (NewLimiter 0) = Ok res"
    and c: "sv_calls res = []" "\<not> sv_aborted res"
    using sample_served by (auto split: outcome.splits)
  have "determineHTTP2Type (sample_request_with []) = TypeHTTP" by code_simp
  then have "sv_aborted res \<or> rp_answered (sv_writer res)"
    by (intro http2_request_answered [OF res]) (simp_all add: sample_http2_server_def c)
  with res c show ?thesis by blast
qed

end
