(* ===== verification/RPC_Stream.thy ===== *)
theory RPC_Stream
  imports Cfd_Prelude
begin

text \<open>
  \<^verbatim>\<open>tunnelrpc/quic/protocol.go\<close> and the request streams beside it: every QUIC stream opens with six bytes
  that tell data from RPC and two bytes of version, then a Cap'n Proto message.  A stream being read is the
  list of the pieces its reads return.  The Cap'n Proto encoder and decoder are parameters.
\<close>

subsection \<open>Reading\<close>

type_synonym pieces = "byte list list"

text \<open>One \<^verbatim>\<open>Read\<close> into a buffer of \<open>n\<close> bytes; \<open>None\<close> at the end of the stream.\<close>

fun go_read :: "nat \<Rightarrow> pieces \<Rightarrow> (byte list \<times> pieces) option" where
  "go_read n [] = None"
| "go_read n (c # cs) = Some (take n c, if length c \<le> n then cs else drop n c # cs)"

fun read_full :: "nat \<Rightarrow> pieces \<Rightarrow> (byte list \<times> pieces) option" where
  "read_full n [] = (if n = 0 then Some ([], []) else None)"
| "read_full n (c # cs) =
     (if n = 0 then Some ([], c # cs)
      else if length c \<le> n then map_option (\<lambda>(bs, rest). (c @ bs, rest)) (read_full (n - length c) cs)
      else Some (take n c, drop n c # cs))"

lemma read_full_concat:
  "read_full n cs = Some (bs, rest) \<Longrightarrow> length bs = n \<and> concat cs = bs @ concat rest"
proof (induction n cs arbitrary: bs rest rule: read_full.induct)
  case (2 n c cs)
  show ?case
  proof (cases "0 < n \<and> length c \<le> n")
    case True
    then obtain ds where "read_full (n - length c) cs = Some (ds, rest)" "bs = c @ ds"
      using 2(2) by (auto split: if_splits)
    with 2(1) [OF _ _ this(1)] True show ?thesis by simp
  next
    case False
    then show ?thesis using 2(2) by (auto split: if_splits)
  qed
qed (simp split: if_splits)

lemma read_full_enough: "n \<le> length (concat cs) \<Longrightarrow> read_full n cs \<noteq> None"
  by (induction n cs rule: read_full.induct) (auto simp del: not_None_eq)

subsection \<open>Signatures and versions\<close>

definition dataStreamProtocolSignature :: "byte list" where
  "dataStreamProtocolSignature = [0x0A, 0x36, 0xCD, 0x12, 0xA1, 0x3E]"

definition rpcStreamProtocolSignature :: "byte list" where
  "rpcStreamProtocolSignature = [0x52, 0xBB, 0x82, 0x5C, 0xDB, 0x65]"

definition protocolV1 :: "byte list" where
  "protocolV1 = [48, 49]"

definition protocolVersionLength :: nat where
  "protocolVersionLength = 2"

datatype stream_kind = DataStream | RPCStream

datatype stream_error = ShortSignature | UnknownSignature "byte list" | WrongSignature | ShortVersion | DecodeFailed
  | DataStreamNotSupported | RPCStreamNotSupported

definition readSignature :: "pieces \<Rightarrow> stream_error + byte list \<times> pieces" where
  "readSignature cs = (case read_full 6 cs of None \<Rightarrow> Inl ShortSignature | Some p \<Rightarrow> Inr p)"

definition determineProtocol :: "pieces \<Rightarrow> stream_error + stream_kind \<times> pieces" where
  "determineProtocol cs =
     (case readSignature cs of
        Inl e \<Rightarrow> Inl e
      | Inr (signature, rest) \<Rightarrow>
          if signature = dataStreamProtocolSignature then Inr (DataStream, rest)
          else if signature = rpcStreamProtocolSignature then Inr (RPCStream, rest)
          else Inl (UnknownSignature signature))"

text \<open>A single read: the number of bytes it returns is not checked, missing ones stay zero.\<close>

definition readVersion :: "pieces \<Rightarrow> stream_error + byte list \<times> pieces" where
  "readVersion cs =
     (case go_read protocolVersionLength cs of
        None \<Rightarrow> Inl ShortVersion
      | Some (bs, rest) \<Rightarrow> Inr (bs @ replicate (protocolVersionLength - length bs) 0, rest))"

definition writeDataStreamPreamble :: "byte list" where
  "writeDataStreamPreamble = dataStreamProtocolSignature @ take protocolVersionLength protocolV1"

subsection \<open>Requests and responses\<close>

record connect_request =
  cr_Dest :: string
  cr_Type :: u16
  cr_Metadata :: "(string \<times> string) list"

record connect_response =
  cp_Error :: string
  cp_Metadata :: "(string \<times> string) list"

record 'm message_codec =
  mc_encode :: "'m \<Rightarrow> byte list"
  mc_decode :: "pieces \<Rightarrow> ('m \<times> pieces) option"

definition read_message :: "'m message_codec \<Rightarrow> pieces \<Rightarrow> stream_error + 'm \<times> pieces" where
  "read_message mc cs =
     (case readVersion cs of
        Inl e \<Rightarrow> Inl e
      | Inr (v, rest) \<Rightarrow> (case mc_decode mc rest of None \<Rightarrow> Inl DecodeFailed | Some p \<Rightarrow> Inr p))"

definition ReadConnectRequestData :: "connect_request message_codec \<Rightarrow> pieces \<Rightarrow> stream_error + connect_request \<times> pieces" where
  "ReadConnectRequestData mc cs = read_message mc cs"

definition WriteConnectRequestData ::
    "connect_request message_codec \<Rightarrow> string \<Rightarrow> u16 \<Rightarrow> (string \<times> string) list \<Rightarrow> byte list" where
  "WriteConnectRequestData mc dest connectionType metadata =
     writeDataStreamPreamble
     @ mc_encode mc \<lparr>cr_Dest = dest, cr_Type = connectionType, cr_Metadata = metadata\<rparr>"

definition WriteConnectResponseData ::
    "connect_response message_codec \<Rightarrow> string option \<Rightarrow> (string \<times> string) list \<Rightarrow> byte list" where
  "WriteConnectResponseData mc respErr metadata =
     (let connectResponse =
        (case respErr of
           Some e \<Rightarrow> \<lparr>cp_Error = e, cp_Metadata = metadata\<rparr>
         | None \<Rightarrow> \<lparr>cp_Error = [], cp_Metadata = metadata\<rparr>)
      in writeDataStreamPreamble @ mc_encode mc connectResponse)"

definition ReadConnectResponseData :: "connect_response message_codec \<Rightarrow> pieces \<Rightarrow> stream_error + connect_response \<times> pieces" where
  "ReadConnectResponseData mc cs =
     (case determineProtocol cs of
        Inl e \<Rightarrow> Inl e
      | Inr (kind, rest) \<Rightarrow> if kind \<noteq> DataStream then Inl WrongSignature else read_message mc rest)"

text \<open>\<^verbatim>\<open>CloudflaredServer.Serve\<close> and \<^verbatim>\<open>SessionManagerServer.Serve\<close>: which handler a stream reaches.\<close>

datatype 'r stream_route = ToRequest 'r | ToRPC pieces

definition CloudflaredServer_Serve :: "(pieces \<Rightarrow> 'r) \<Rightarrow> pieces \<Rightarrow> stream_error + 'r stream_route" where
  "CloudflaredServer_Serve handleRequest cs =
     (case determineProtocol cs of
        Inl e \<Rightarrow> Inl e
      | Inr (DataStream, rest) \<Rightarrow> Inr (ToRequest (handleRequest rest))
      | Inr (RPCStream, rest) \<Rightarrow> Inr (ToRPC rest))"

definition SessionManagerServer_Serve :: "pieces \<Rightarrow> stream_error + pieces" where
  "SessionManagerServer_Serve cs =
     (case determineProtocol cs of
        Inl e \<Rightarrow> Inl e
      | Inr (RPCStream, rest) \<Rightarrow> Inr rest
      | Inr (DataStream, rest) \<Rightarrow> Inl DataStreamNotSupported)"

subsection \<open>Round trips\<close>

text \<open>What the message library promises: a decoder gives back the message whatever pieces it arrives in, and
  leaves what follows.\<close>

definition codec_ok :: "'m message_codec \<Rightarrow> 'm \<Rightarrow> bool" where
  "codec_ok mc m = (\<forall>cs rest. concat cs = mc_encode mc m @ rest \<longrightarrow>
     (\<exists>cs'. mc_decode mc cs = Some (m, cs') \<and> concat cs' = rest))"

lemma signatures_differ: "dataStreamProtocolSignature \<noteq> rpcStreamProtocolSignature"
  by (simp add: dataStreamProtocolSignature_def rpcStreamProtocolSignature_def)

lemma determine_data:
  assumes "concat cs = dataStreamProtocolSignature @ rest"
  obtains cs' where "determineProtocol cs = Inr (DataStream, cs')" and "concat cs' = rest"
proof -
  have "6 \<le> length (concat cs)" by (simp add: assms dataStreamProtocolSignature_def)
  from read_full_enough [OF this] obtain bs cs' where r: "read_full 6 cs = Some (bs, cs')" by auto
  have "length bs = 6" "bs @ concat cs' = dataStreamProtocolSignature @ rest"
    using read_full_concat [OF r] assms by simp_all
  moreover have "length dataStreamProtocolSignature = 6" by (simp add: dataStreamProtocolSignature_def)
  ultimately have "bs = dataStreamProtocolSignature" "concat cs' = rest"
    by (simp_all add: append_eq_append_conv)
  with r that show ?thesis by (simp add: determineProtocol_def readSignature_def)
qed

definition version_in_one_piece :: "pieces \<Rightarrow> bool" where
  "version_in_one_piece cs =
     (case read_full 6 cs of Some (bs, c # rest) \<Rightarrow> protocolVersionLength \<le> length c | _ \<Rightarrow> False)"

lemma read_message_ok:
  assumes "codec_ok mc m" and "cs = c # ps" and "2 \<le> length c" and "concat cs = protocolV1 @ mc_encode mc m @ rest"
  obtains cs' where "read_message mc cs = Inr (m, cs')" and "concat cs' = rest"
proof -
  let ?ps = "if length c \<le> 2 then ps else drop 2 c # ps"
  have v: "readVersion cs = Inr (take 2 c, ?ps)"
    using assms(2,3) by (simp add: readVersion_def protocolVersionLength_def)
  have "take 2 c @ concat ?ps = concat cs"
    using assms(2) by auto
  then have "take 2 c @ concat ?ps = protocolV1 @ mc_encode mc m @ rest"
    using assms(4) by simp
  moreover have "length (take 2 c) = length protocolV1" using assms(3) by (simp add: protocolV1_def)
  ultimately have "concat ?ps = mc_encode mc m @ rest"
    by (metis append_eq_append_conv)
  then obtain cs' where "mc_decode mc ?ps = Some (m, cs')" "concat cs' = rest"
    using assms(1) unfolding codec_ok_def by blast
  with v that show ?thesis by (auto simp: read_message_def)
qed

text \<open>C24. The edge's request arrives as it was sent, with the bytes of the body after it, however the stream is cut
  except inside the two bytes of the version.\<close>

theorem connect_request_roundtrip:
  assumes "codec_ok mc \<lparr>cr_Dest = dest, cr_Type = t, cr_Metadata = md\<rparr>"
    and "concat cs = WriteConnectRequestData mc dest t md @ body" and "version_in_one_piece cs"
  shows "\<exists>rest. CloudflaredServer_Serve (ReadConnectRequestData mc) cs
           = Inr (ToRequest (Inr (\<lparr>cr_Dest = dest, cr_Type = t, cr_Metadata = md\<rparr>, rest))) \<and> concat rest = body"
proof -
  have c: "concat cs = dataStreamProtocolSignature @ protocolV1 @ mc_encode mc \<lparr>cr_Dest = dest, cr_Type = t, cr_Metadata = md\<rparr> @ body"
    using assms(2) by (simp add: WriteConnectRequestData_def writeDataStreamPreamble_def protocolV1_def protocolVersionLength_def)
  obtain cs' where d: "determineProtocol cs = Inr (DataStream, cs')"
    and cs': "concat cs' = protocolV1 @ mc_encode mc \<lparr>cr_Dest = dest, cr_Type = t, cr_Metadata = md\<rparr> @ body"
    using determine_data [OF c] by blast
  obtain p ps where p: "cs' = p # ps" "2 \<le> length p"
    using assms(3) d by (cases cs') (auto simp: version_in_one_piece_def determineProtocol_def readSignature_def
        protocolVersionLength_def split: option.splits if_splits prod.splits)
  obtain rest where "read_message mc cs' = Inr (\<lparr>cr_Dest = dest, cr_Type = t, cr_Metadata = md\<rparr>, rest)" "concat rest = body"
    using read_message_ok [OF assms(1) p cs'] by blast
  with d show ?thesis by (simp add: CloudflaredServer_Serve_def ReadConnectRequestData_def)
qed

text \<open>A version that arrives in two pieces loses its second byte to the message that follows.\<close>

theorem version_short_read:
  "ReadConnectRequestData mc ([48] # ([49] @ bs) # cs)
   = (case mc_decode mc (([49] @ bs) # cs) of None \<Rightarrow> Inl DecodeFailed | Some p \<Rightarrow> Inr p)"
  by (simp add: ReadConnectRequestData_def read_message_def readVersion_def protocolVersionLength_def)

text \<open>A codec of one message, enough to run the round trip.\<close>

definition one_message :: "'m \<Rightarrow> 'm message_codec" where
  "one_message m = \<lparr>mc_encode = (\<lambda>x. [7]), mc_decode = (\<lambda>cs. map_option (\<lambda>(bs, rest). (m, rest)) (read_full 1 cs))\<rparr>"

lemma one_message_ok: "codec_ok (one_message m) m"
proof -
  have "\<exists>cs'. map_option (\<lambda>(bs, rest). (m, rest)) (read_full 1 cs) = Some (m, cs') \<and> concat cs' = rest"
    if "concat cs = [7] @ rest" for cs rest
  proof -
    have "read_full 1 cs \<noteq> None" using read_full_enough [of 1 cs] that by simp
    then obtain bs cs' where r: "read_full 1 cs = Some (bs, cs')" by auto
    with read_full_concat [OF r] that show ?thesis by (cases bs) auto
  qed
  then show ?thesis by (simp add: codec_ok_def one_message_def)
qed

theorem connect_request_roundtrip_witness:
  "\<exists>rest. CloudflaredServer_Serve (ReadConnectRequestData (one_message \<lparr>cr_Dest = ''d'', cr_Type = 2, cr_Metadata = []\<rparr>))
      [[0x0A, 0x36, 0xCD], [0x12, 0xA1, 0x3E], [48, 49, 7], [1, 2]]
    = Inr (ToRequest (Inr (\<lparr>cr_Dest = ''d'', cr_Type = 2, cr_Metadata = []\<rparr>, rest))) \<and> concat rest = [1, 2]"
proof (rule connect_request_roundtrip [OF one_message_ok])
  show "concat [[0x0A, 0x36, 0xCD], [0x12, 0xA1, 0x3E], [48, 49, 7], [1, 2]]
      = WriteConnectRequestData (one_message \<lparr>cr_Dest = ''d'', cr_Type = 2, cr_Metadata = []\<rparr>) ''d'' 2 [] @ [1, 2]"
    by (simp add: WriteConnectRequestData_def writeDataStreamPreamble_def dataStreamProtocolSignature_def protocolV1_def
        protocolVersionLength_def one_message_def)
  show "version_in_one_piece [[0x0A, 0x36, 0xCD], [0x12, 0xA1, 0x3E], [48, 49, 7], [1, 2]]"
    by code_simp
qed

end
