(* ===== verification/QUIC_Conn.thy ===== *)
theory QUIC_Conn
  imports HTTP2_Conn RPC_Stream "HOL-Library.Multiset"
begin

text \<open>
  \<^verbatim>\<open>connection/quic_connection.go\<close>: the requests the edge sends over QUIC streams.  A stream is the log of what was
  written to it; whether a write fails is a parameter.  Handshake and message encoding are in RPC\_Stream.
\<close>

subsection \<open>Streams and their writers\<close>

datatype quic_sent = SentResponse "proxy_error option" "(string \<times> string) list" | SentData string

record quic_stream =
  qs_sent :: "quic_sent list"
  qs_fails :: "quic_sent \<Rightarrow> bool"

definition qs_put :: "quic_sent \<Rightarrow> quic_stream \<Rightarrow> bool \<times> quic_stream" where
  "qs_put x s = (if qs_fails s x then (False, s) else (True, s\<lparr>qs_sent := qs_sent s @ [x]\<rparr>))"

record httpResponseAdapter =
  ha_stream :: quic_stream
  ha_headers :: http_header
  ha_connectResponseSent :: bool

definition newHTTPResponseAdapter :: "quic_stream \<Rightarrow> httpResponseAdapter" where
  "newHTTPResponseAdapter s = \<lparr>ha_stream = s, ha_headers = [], ha_connectResponseSent = False\<rparr>"

definition ha_WriteConnectResponseData ::
    "proxy_error option \<Rightarrow> (string \<times> string) list \<Rightarrow> httpResponseAdapter \<Rightarrow> bool \<times> httpResponseAdapter" where
  "ha_WriteConnectResponseData respErr metadata h =
     (let (ok, s) = qs_put (SentResponse respErr metadata) (ha_stream h)
      in (ok, h\<lparr>ha_connectResponseSent := True, ha_stream := s\<rparr>))"

definition HTTPHeaderKey :: string where
  "HTTPHeaderKey = ''HttpHeader''"

definition HTTPStatus :: string where
  "HTTPStatus = ''HttpStatus''"

definition header_metadata :: "http_header \<Rightarrow> (string \<times> string) list" where
  "header_metadata h = map (\<lambda>(k, v). (HTTPHeaderKey @ '':'' @ k, v)) (flatten_header h)"

definition ha_WriteRespHeaders :: "int \<Rightarrow> http_header \<Rightarrow> httpResponseAdapter \<Rightarrow> bool \<times> httpResponseAdapter" where
  "ha_WriteRespHeaders status header h =
     ha_WriteConnectResponseData None ((HTTPStatus, int_to_string status) # header_metadata header) h"

definition ha_Write :: "string \<Rightarrow> httpResponseAdapter \<Rightarrow> bool \<times> httpResponseAdapter" where
  "ha_Write p h =
     (let h1 = (if \<not> ha_connectResponseSent h then snd (ha_WriteRespHeaders 200 (ha_headers h) h) else h);
          (ok, s) = qs_put (SentData p) (ha_stream h1)
      in (ok, h1\<lparr>ha_stream := s\<rparr>))"

definition ha_WriteHeader :: "int \<Rightarrow> http_header \<Rightarrow> httpResponseAdapter \<Rightarrow> httpResponseAdapter" where
  "ha_WriteHeader status header h = (let h1 = h\<lparr>ha_headers := header\<rparr> in snd (ha_WriteRespHeaders status (ha_headers h1) h1))"

text \<open>Trailers are not supported over QUIC.\<close>

definition ha_AddTrailer :: "string \<Rightarrow> string \<Rightarrow> httpResponseAdapter \<Rightarrow> httpResponseAdapter" where
  "ha_AddTrailer n v h = h"

definition ha_WriteErrorResponse :: "proxy_error \<Rightarrow> httpResponseAdapter \<Rightarrow> httpResponseAdapter" where
  "ha_WriteErrorResponse e h = snd (ha_WriteConnectResponseData (Some e) [(HTTPStatus, int_to_string 502)] h)"

definition quic_ops :: "httpResponseAdapter response_writer" where
  "quic_ops =
     \<lparr>w_WriteRespHeaders = ha_WriteRespHeaders, w_WriteHeader = ha_WriteHeader, w_Write = ha_Write, w_AddTrailer = ha_AddTrailer\<rparr>"

record streamReadWriteAcker =
  sa_stream :: quic_stream
  sa_connectResponseSent :: bool

definition sa_AckConnection :: "string \<Rightarrow> streamReadWriteAcker \<Rightarrow> bool \<times> streamReadWriteAcker" where
  "sa_AckConnection tracePropagation a =
     (let metadata = (if tracePropagation \<noteq> [] then [(CanonicalHeaderKey IntCloudflaredTracingHeader, tracePropagation)] else []);
          (ok, s) = qs_put (SentResponse None metadata) (sa_stream a)
      in (ok, a\<lparr>sa_connectResponseSent := True, sa_stream := s\<rparr>))"

definition sa_Write :: "string \<Rightarrow> streamReadWriteAcker \<Rightarrow> bool \<times> streamReadWriteAcker" where
  "sa_Write p a = (let (ok, s) = qs_put (SentData p) (sa_stream a) in (ok, a\<lparr>sa_stream := s\<rparr>))"

definition quic_acker :: "streamReadWriteAcker acker" where
  "quic_acker = \<lparr>a_Ack = sa_AckConnection, a_Write = sa_Write\<rparr>"

interpretation qh: response_contract quic_ops "\<lambda>h. True" ha_connectResponseSent
  by unfold_locales
     (auto simp: quic_ops_def ha_WriteRespHeaders_def ha_WriteConnectResponseData_def ha_WriteHeader_def ha_Write_def
        ha_AddTrailer_def Let_def split: prod.splits)

subsection \<open>Building the request\<close>

text \<open>The last value of a repeated key.\<close>

definition MetadataMap :: "connect_request \<Rightarrow> string \<Rightarrow> string" where
  "MetadataMap r k = (case map_of (rev (cr_Metadata r)) k of None \<Rightarrow> [] | Some v \<Rightarrow> v)"

fun add_headers :: "(string \<times> string) list \<Rightarrow> http_header \<Rightarrow> proxy_error + http_header" where
  "add_headers [] h = Inr h"
| "add_headers ((key, val) # ms) h =
     (if str_contains key HTTPHeaderKey then
        (case split_on CHR '':'' key of
           [a, b] \<Rightarrow> add_headers ms (h_Add b val h)
         | _ \<Rightarrow> Inl MalformedHeaderKey)
      else add_headers ms h)"

definition setContentLength :: "http_request \<Rightarrow> proxy_error + http_request" where
  "setContentLength r =
     (let s = h_Get (rq_Header r) ''Content-Length''
      in if s = [] then Inr r
         else (case atoi s of None \<Rightarrow> Inl InvalidContentLength | Some n \<Rightarrow> Inr (r\<lparr>rq_ContentLength := n\<rparr>)))"

definition isTransferEncodingChunked :: "http_request \<Rightarrow> bool" where
  "isTransferEncodingChunked r = str_contains (to_lower (h_Get (rq_Header r) ''Transfer-Encoding'')) ''chunked''"

text \<open>\<^verbatim>\<open>http.NewRequestWithContext\<close>: an empty method means GET, a method is a token, and the URL must parse.\<close>

definition NewRequest :: "ingress_lib \<Rightarrow> string \<Rightarrow> string \<Rightarrow> string list \<Rightarrow> http_request option" where
  "NewRequest lib method dest body =
     (let m = (if method = [] then ''GET'' else method)
      in if \<not> list_all validHeaderFieldByte m then None
         else map_option (\<lambda>u. \<lparr>rq_Method = m, rq_Host = u_Host u, rq_URL = u, rq_Header = [], rq_ContentLength = 0,
                               rq_TransferEncoding = [], rq_Body = Some body\<rparr>) (lib_url lib dest))"

definition buildHTTPRequest :: "ingress_lib \<Rightarrow> connect_request \<Rightarrow> string list \<Rightarrow> proxy_error + http_request" where
  "buildHTTPRequest lib cr body =
     (case NewRequest lib (MetadataMap cr ''HttpMethod'') (cr_Dest cr) body of
        None \<Rightarrow> Inl InvalidRequest
      | Some r \<Rightarrow>
          (case add_headers (cr_Metadata cr) (rq_Header r) of
             Inl e \<Rightarrow> Inl e
           | Inr h \<Rightarrow>
               (case setContentLength (r\<lparr>rq_Host := MetadataMap cr ''HttpHost'', rq_Header := h\<rparr>) of
                  Inl e \<Rightarrow> Inl e
                | Inr r1 \<Rightarrow>
                    Inr (stripWebsocketUpgradeHeader
                      (if cr_Type cr \<noteq> 1 \<and> \<not> isTransferEncodingChunked r1 \<and> rq_ContentLength r1 = 0
                       then r1\<lparr>rq_Body := None\<rparr> else r1)))))"

subsection \<open>Dispatching\<close>

text \<open>\<^verbatim>\<open>ConnectionType.String\<close>, which panics on a type it does not know.\<close>

definition ConnectionType_String :: "u16 \<Rightarrow> ('e, string) outcome" where
  "ConnectionType_String t =
     (if t = 0 then Ok ''http'' else if t = 1 then Ok ''ws'' else if t = 2 then Ok ''tcp'' else Panic)"

record 's dispatched =
  dp_error :: "proxy_error option"
  dp_sent :: bool
  dp_stream :: quic_stream
  dp_limiter :: flowLimiter
  dp_calls :: "'s origin_call list"

definition undispatched :: "proxy_error \<Rightarrow> quic_stream \<Rightarrow> flowLimiter \<Rightarrow> 's dispatched" where
  "undispatched e s l = \<lparr>dp_error = Some e, dp_sent = False, dp_stream = s, dp_limiter = l, dp_calls = []\<rparr>"

definition dispatchRequest ::
    "'s proxy_env \<Rightarrow> 's proxy option \<Rightarrow> connect_request \<Rightarrow> string list \<Rightarrow> quic_stream \<Rightarrow> flowLimiter
     \<Rightarrow> (proxy_error, 's dispatched) outcome" where
  "dispatchRequest env op cr body s l =
     (case op of
        None \<Rightarrow> Ok (undispatched NoOriginProxy s l)
      | Some p \<Rightarrow>
          if cr_Type cr = 0 \<or> cr_Type cr = 1 then
            (case buildHTTPRequest (pe_lib env) cr body of
               Inl e \<Rightarrow> Ok (undispatched e s l)
             | Inr r \<Rightarrow>
                 obind (ProxyHTTP env quic_ops p r (cr_Type cr = 1) (newHTTPResponseAdapter s))
                   (\<lambda>res. Ok \<lparr>dp_error = pr_error res, dp_sent = ha_connectResponseSent (pr_writer res),
                              dp_stream = ha_stream (pr_writer res), dp_limiter = l, dp_calls = pr_calls res\<rparr>))
          else if cr_Type cr = 2 then
            (let (res, l') = ProxyTCP env quic_acker p id (cr_Dest cr) l \<lparr>sa_stream = s, sa_connectResponseSent = False\<rparr>
             in Ok \<lparr>dp_error = pr_error res, dp_sent = sa_connectResponseSent (pr_writer res),
                    dp_stream = sa_stream (pr_writer res), dp_limiter = l', dp_calls = pr_calls res\<rparr>)
          else Ok (undispatched UnknownConnectionType s l))"

text \<open>\<open>hd_reset\<close>: the handler returned an error, on which the write side of the stream is reset.  Logging a failed
  request prints its type.\<close>

record 's handled =
  hd_reset :: bool
  hd_stream :: quic_stream
  hd_limiter :: flowLimiter
  hd_calls :: "'s origin_call list"

definition ErrorFlowConnectRateLimitedMetadata :: "string \<times> string" where
  "ErrorFlowConnectRateLimitedMetadata = (''FlowConnectRateLimited'', ''true'')"

definition handleDataStream ::
    "'s proxy_env \<Rightarrow> 's proxy option \<Rightarrow> stream_error + connect_request \<Rightarrow> string list \<Rightarrow> quic_stream \<Rightarrow> flowLimiter
     \<Rightarrow> (proxy_error, 's handled) outcome" where
  "handleDataStream env op req body s l =
     (case req of
        Inl e \<Rightarrow> Ok \<lparr>hd_reset = True, hd_stream = s, hd_limiter = l, hd_calls = []\<rparr>
      | Inr cr \<Rightarrow>
          obind (dispatchRequest env op cr body s l)
            (\<lambda>d. case dp_error d of
                   None \<Rightarrow> Ok \<lparr>hd_reset = False, hd_stream = dp_stream d, hd_limiter = dp_limiter d, hd_calls = dp_calls d\<rparr>
                 | Some err \<Rightarrow>
                     obind (ConnectionType_String (cr_Type cr))
                       (\<lambda>t. if dp_sent d
                            then Ok \<lparr>hd_reset = True, hd_stream = dp_stream d, hd_limiter = dp_limiter d, hd_calls = dp_calls d\<rparr>
                            else
                              (let metadata = (if err = TooManyFlows then [ErrorFlowConnectRateLimitedMetadata] else []);
                                   (ok, s') = qs_put (SentResponse (Some err) metadata) (dp_stream d)
                               in Ok \<lparr>hd_reset = \<not> ok, hd_stream = s', hd_limiter = dp_limiter d, hd_calls = dp_calls d\<rparr>))))"

subsection \<open>Properties\<close>

lemma known_type: "cr_Type cr \<in> {0, 1, 2} \<longleftrightarrow> unat (cr_Type cr) \<le> 2"
proof
  assume "unat (cr_Type cr) \<le> 2"
  then have "unat (cr_Type cr) \<in> {unat (0 :: u16), unat (1 :: u16), unat (2 :: u16)}" by auto
  then show "cr_Type cr \<in> {0, 1, 2}" by (auto simp only: word_unat_eq_iff insert_iff empty_iff)
qed auto

text \<open>C18. A request of a type the code does not know stops the whole process: its error is logged with the name of the
  type, which panics.\<close>

theorem unknown_type_panics:
  assumes "2 < unat (cr_Type cr)"
  shows "handleDataStream env op (Inr cr) body s l = Panic"
proof -
  have "cr_Type cr \<notin> {0, 1, 2}" using assms by auto
  then show ?thesis
    by (cases op) (simp_all add: handleDataStream_def dispatchRequest_def undispatched_def ConnectionType_String_def)
qed

definition silent_stream :: quic_stream where
  "silent_stream = \<lparr>qs_sent = [], qs_fails = (\<lambda>x. False)\<rparr>"

theorem unknown_type_panics_witness:
  "handleDataStream sample_env None (Inr \<lparr>cr_Dest = [], cr_Type = 3, cr_Metadata = []\<rparr>) [] silent_stream (NewLimiter 0) = Panic"
  by (rule unknown_type_panics) simp

text \<open>The response heads on a stream.\<close>

fun is_response :: "quic_sent \<Rightarrow> bool" where
  "is_response (SentResponse e md) = True"
| "is_response (SentData p) = False"

lemma sa_pipe:
  "sa_connectResponseSent (snd (cfio_Copy sa_Write cs f a)) = sa_connectResponseSent a
   \<and> filter is_response (qs_sent (sa_stream (snd (cfio_Copy sa_Write cs f a)))) = filter is_response (qs_sent (sa_stream a))"
proof (induction cs arbitrary: a)
  case (Cons c cs)
  have w: "sa_connectResponseSent (snd (sa_Write c a)) = sa_connectResponseSent a
      \<and> filter is_response (qs_sent (sa_stream (snd (sa_Write c a)))) = filter is_response (qs_sent (sa_stream a))"
    by (simp add: sa_Write_def qs_put_def)
  obtain ok a' where a': "sa_Write c a = (ok, a')" by fastforce
  show ?case
    using w Cons.IH [of a'] by (simp add: a')
qed simp

text \<open>The stream of a TCP request: whether a response head went out is what the flag says, up to a failed write.\<close>

lemma tcp_heads:
  assumes "qs_sent s = []"
  shows "(let res = proxyTCPStream env quic_acker dest dl \<lparr>sa_stream = s, sa_connectResponseSent = False\<rparr>
          in (if sa_connectResponseSent (pr_writer res) then length (filter is_response (qs_sent (sa_stream (pr_writer res)))) \<le> 1
              else filter is_response (qs_sent (sa_stream (pr_writer res))) = [])
             \<and> (pr_error res = None \<longrightarrow> length (filter is_response (qs_sent (sa_stream (pr_writer res)))) = 1))"
  using assms sa_pipe [of "pe_stream env" False]
  by (auto simp: proxyTCPStream_def quic_acker_def sa_AckConnection_def qs_put_def pipe_down_def Let_def)

subsection \<open>Every request is answered\<close>

text \<open>
  Which writes fail on a stream never changes.  A head counts as given when it went out, or when the stream
  refuses some head.
\<close>

definition head_given :: "(quic_sent \<Rightarrow> bool) \<Rightarrow> quic_stream \<Rightarrow> bool" where
  "head_given F s = (list_ex is_response (qs_sent s) \<or> (\<exists>x. is_response x \<and> F x))"

definition ha_alive :: "(quic_sent \<Rightarrow> bool) \<Rightarrow> httpResponseAdapter \<Rightarrow> bool" where
  "ha_alive F h = (qs_fails (ha_stream h) = F)"

definition ha_answered :: "(quic_sent \<Rightarrow> bool) \<Rightarrow> httpResponseAdapter \<Rightarrow> bool" where
  "ha_answered F h = (ha_connectResponseSent h \<and> head_given F (ha_stream h))"

lemma qs_put_alive:
  "qs_fails s = (\<lambda>x. False) \<Longrightarrow> qs_put x s = (True, s\<lparr>qs_sent := qs_sent s @ [x]\<rparr>)"
  by (simp add: qs_put_def)

lemma qs_put_fails [simp]: "qs_fails (snd (qs_put x s)) = qs_fails s"
  by (simp add: qs_put_def)

lemma qs_put_head: "\<lbrakk>qs_fails s = F; is_response x\<rbrakk> \<Longrightarrow> head_given F (snd (qs_put x s))"
  by (auto simp: qs_put_def head_given_def)

lemma qs_put_given: "head_given F s \<Longrightarrow> head_given F (snd (qs_put x s))"
  by (auto simp: qs_put_def head_given_def)

lemmas quic_write_defs = quic_ops_def ha_WriteRespHeaders_def ha_WriteConnectResponseData_def ha_WriteHeader_def ha_Write_def
  ha_AddTrailer_def

interpretation qa: response_contract quic_ops "ha_alive F" "ha_answered F" for F
  by unfold_locales
     (auto simp: quic_write_defs ha_alive_def ha_answered_def Let_def split_beta qs_put_head qs_put_given)

lemma sa_copy_given:
  "qs_fails (sa_stream (snd (cfio_Copy sa_Write cs f a))) = qs_fails (sa_stream a)
   \<and> (head_given F (sa_stream a) \<longrightarrow> head_given F (sa_stream (snd (cfio_Copy sa_Write cs f a))))"
proof (induction cs arbitrary: a)
  case (Cons c cs)
  obtain ok a' where a': "sa_Write c a = (ok, a')" by fastforce
  have "qs_fails (sa_stream a') = qs_fails (sa_stream a) \<and> (head_given F (sa_stream a) \<longrightarrow> head_given F (sa_stream a'))"
    using a' qs_put_given [of F "sa_stream a" "SentData c"] by (auto simp: sa_Write_def Let_def split_beta)
  then show ?case using Cons.IH [of a'] by (simp add: a')
qed simp

lemma tcp_answered:
  assumes "qs_fails s = F"
    and "pr_error (fst (ProxyTCP env quic_acker p id dest l \<lparr>sa_stream = s, sa_connectResponseSent = False\<rparr>)) = None"
  shows "head_given F (sa_stream (pr_writer
           (fst (ProxyTCP env quic_acker p id dest l \<lparr>sa_stream = s, sa_connectResponseSent = False\<rparr>))))"
  using assms qs_put_head [OF assms(1)] sa_copy_given [of "pe_stream env" False _ F]
  by (auto simp: ProxyTCP_def proxyTCPStream_def quic_acker_def sa_AckConnection_def pipe_down_def Let_def split_beta
      split: sum.splits option.splits if_splits)

text \<open>Only an ingress that leaves a request without a rule makes dispatching panic.\<close>

definition routes_all :: "'s proxy option \<Rightarrow> bool" where
  "routes_all op = (case op of None \<Rightarrow> True | Some p \<Rightarrow> last_catches_all (ingressRules p))"

lemma ProxyHTTP_Ok:
  assumes "last_catches_all (ingressRules p)"
  shows "\<exists>res. ProxyHTTP env ops p r isWebsocket w = Ok res"
proof -
  obtain rule i where "FindMatchingRule (pe_lib env) (ingressRules p) (rq_Host (appendTagHeaders p r))
      (u_Path (rq_URL (appendTagHeaders p r))) = (Ok (rule, i) :: (proxy_error, ingress_rule \<times> int) outcome)"
    using FindMatchingRule_Ok [OF assms] by blast
  then show ?thesis by (simp add: ProxyHTTP_def Let_def split: prod.split bool.split)
qed

lemma dispatch_Ok:
  assumes "routes_all op"
  shows "\<exists>d. dispatchRequest env op cr body s l = Ok d"
proof (cases op)
  case (Some p)
  then have p: "last_catches_all (ingressRules p)" using assms by (simp add: routes_all_def)
  have "\<exists>res. ProxyHTTP env quic_ops p r ws w = Ok res" for r ws w by (rule ProxyHTTP_Ok [OF p])
  then show ?thesis
    unfolding dispatchRequest_def Some by (simp add: obind_Ok_iff split: sum.split prod.split)
qed (simp add: dispatchRequest_def)

text \<open>What a dispatched request leaves behind, by its kind.\<close>

lemma dispatch_kinds:
  assumes "dispatchRequest env op cr body s l = Ok d"
  obtains (undispatched) e where "d = undispatched e s l"
  | (http) p r res where "ProxyHTTP env quic_ops p r (cr_Type cr = 1) (newHTTPResponseAdapter s) = Ok res"
      "dp_error d = pr_error res" "dp_stream d = ha_stream (pr_writer res)" "dp_calls d = pr_calls res" "cr_Type cr \<in> {0, 1, 2}"
  | (tcp) p l' res where "ProxyTCP env quic_acker p id (cr_Dest cr) l \<lparr>sa_stream = s, sa_connectResponseSent = False\<rparr> = (res, l')"
      "dp_error d = pr_error res" "dp_stream d = sa_stream (pr_writer res)" "dp_calls d = pr_calls res" "cr_Type cr \<in> {0, 1, 2}"
proof (cases op)
  case None
  then show thesis using assms undispatched [of NoOriginProxy] by (simp add: dispatchRequest_def)
next
  case (Some p)
  consider (http') "cr_Type cr = 0 \<or> cr_Type cr = 1" | (tcp') "cr_Type cr = 2" | (other) "cr_Type cr \<notin> {0, 1, 2}" by blast
  then show thesis
  proof cases
    case http'
    show thesis
    proof (cases "buildHTTPRequest (pe_lib env) cr body")
      case (Inl e)
      then show thesis using assms Some http' undispatched by (auto simp: dispatchRequest_def)
    next
      case (Inr r)
      then obtain res where "ProxyHTTP env quic_ops p r (cr_Type cr = 1) (newHTTPResponseAdapter s) = Ok res"
        "d = \<lparr>dp_error = pr_error res, dp_sent = ha_connectResponseSent (pr_writer res),
              dp_stream = ha_stream (pr_writer res), dp_limiter = l, dp_calls = pr_calls res\<rparr>"
        using assms Some http' by (auto simp: dispatchRequest_def obind_Ok_iff)
      with http http' show thesis by auto
    qed
  next
    case tcp'
    obtain res l' where "ProxyTCP env quic_acker p id (cr_Dest cr) l \<lparr>sa_stream = s, sa_connectResponseSent = False\<rparr> = (res, l')"
      by fastforce
    with tcp tcp' assms Some show thesis by (auto simp: dispatchRequest_def)
  next
    case other
    then show thesis using assms Some undispatched by (auto simp: dispatchRequest_def)
  qed
qed

lemma dispatch_answered:
  assumes "dispatchRequest env op cr body s l = Ok d" and "qs_fails s = F" and "dp_error d = None"
    and "\<nexists>q. ServedLocally q \<in> set (dp_calls d)"
  shows "head_given F (dp_stream d) \<and> cr_Type cr \<in> {0, 1, 2}"
proof -
  have alive: "ha_alive F (newHTTPResponseAdapter s)" by (simp add: ha_alive_def newHTTPResponseAdapter_def assms(2))
  from assms(1) show ?thesis
  proof (cases rule: dispatch_kinds)
    case (undispatched e)
    then show ?thesis using assms(3) by (simp add: undispatched_def)
  next
    case (http p r res)
    then show ?thesis using qa.ProxyHTTP_answered [OF alive http(1)] assms(3,4) by (simp add: ha_answered_def)
  next
    case (tcp p l' res)
    then show ?thesis using tcp_answered [OF assms(2), of env p "cr_Dest cr" l] assms(3) by simp
  qed
qed

lemma dispatch_known: "\<lbrakk>dispatchRequest env op cr body s l = Ok d; dp_error d = None\<rbrakk> \<Longrightarrow> cr_Type cr \<in> {0, 1, 2}"
  by (erule dispatch_kinds) (simp_all add: undispatched_def)

text \<open>How one data stream ends.  \<open>handled_well\<close> is what the edge can count on when it does.\<close>

definition handled_well :: "(quic_sent \<Rightarrow> bool) \<Rightarrow> 's handled \<Rightarrow> bool" where
  "handled_well F res =
     (hd_reset res \<or> list_ex is_response (qs_sent (hd_stream res)) \<or> (\<exists>x. is_response x \<and> F x)
      \<or> (\<exists>q. ServedLocally q \<in> set (hd_calls res)))"

lemma handled_error:
  assumes "dispatchRequest env op cr body s l = Ok d" and "dp_error d = Some e"
  shows "handleDataStream env op (Inr cr) body s l = Panic \<and> 2 < unat (cr_Type cr)
    \<or> (\<exists>res. handleDataStream env op (Inr cr) body s l = Ok res \<and> unat (cr_Type cr) \<le> 2 \<and> handled_well F res)"
proof (cases "cr_Type cr \<in> {0, 1, 2}")
  case True
  then obtain t where t: "ConnectionType_String (cr_Type cr) = (Ok t :: (proxy_error, string) outcome)"
    by (auto simp: ConnectionType_String_def)
  have "\<exists>res. handleDataStream env op (Inr cr) body s l = Ok res \<and> handled_well F res"
    using assms by (cases "dp_sent d") (simp_all add: handleDataStream_def t handled_well_def qs_put_def Let_def)
  then show ?thesis using True known_type by blast
next
  case False
  then have "2 < unat (cr_Type cr)" using known_type by force
  with False assms show ?thesis by (simp add: handleDataStream_def ConnectionType_String_def)
qed

text \<open>C9. Every data stream of the edge ends in one of these ways: with a reset, with a response head, on a stream that
  refuses heads, or, when a local handler served the request, however that handler chose.  The only exception is a request of an unknown type, and that one stops the process whatever the proxy does (C18 says the same of every
  such request).  The premise is what the orchestrator keeps of every proxy it installs (C5).\<close>

theorem quic_request_answered:
  assumes "routes_all op"
  shows "case handleDataStream env op req body s l of
           Ok res \<Rightarrow> (case req of Inl e \<Rightarrow> hd_reset res | Inr cr \<Rightarrow> unat (cr_Type cr) \<le> 2) \<and> handled_well (qs_fails s) res
         | Err e \<Rightarrow> False
         | Panic \<Rightarrow> (case req of Inl e \<Rightarrow> False | Inr cr \<Rightarrow> 2 < unat (cr_Type cr))"
proof (cases req)
  case (Inl e)
  then show ?thesis by (simp add: handleDataStream_def handled_well_def)
next
  case (Inr cr)
  obtain d where d: "dispatchRequest env op cr body s l = Ok d" using dispatch_Ok [OF assms] by blast
  show ?thesis
  proof (cases "dp_error d")
    case None
    have "unat (cr_Type cr) \<le> 2" using dispatch_known [OF d None] known_type by blast
    with Inr d None dispatch_answered [OF d refl None] show ?thesis
      by (auto simp: handleDataStream_def handled_well_def head_given_def)
  next
    case (Some e)
    from handled_error [OF d Some, of "qs_fails s"] Inr show ?thesis by auto
  qed
qed

definition sample_connect :: connect_request where
  "sample_connect = \<lparr>cr_Dest = ''/x'', cr_Type = 0, cr_Metadata = [(''HttpHost'', ''a.com''), (''HttpMethod'', ''GET'')]\<rparr>"

definition sample_quic_env :: "unit proxy_env" where
  "sample_quic_env = sample_env\<lparr>pe_lib := sample_lib\<lparr>lib_url := (\<lambda>s. Some \<lparr>u_Scheme = [], u_Host = [], u_Path = s, u_String = s\<rparr>)\<rparr>\<rparr>"

definition default_proxy :: "unit proxy" where
  "default_proxy = NewOriginProxy (newDefaultOrigin no_flags) [StartedStatus 503 True] sample_dialers []"

lemma sample_handled:
  "(case handleDataStream sample_quic_env (Some default_proxy) (Inr sample_connect) [] silent_stream (NewLimiter 0) of
      Ok res \<Rightarrow> hd_calls res = [] \<and> qs_sent (hd_stream res) = [SentResponse None [(''HttpStatus'', ''503'')]]
    | _ \<Rightarrow> False)"
  by code_simp

lemma default_routes: "routes_all (Some default_proxy)"
  by (simp add: routes_all_def default_proxy_def NewOriginProxy_def newDefaultOrigin_last)

theorem quic_request_answered_witness:
  "\<exists>res. handleDataStream sample_quic_env (Some default_proxy) (Inr sample_connect) [] silent_stream (NewLimiter 0) = Ok res
     \<and> handled_well (qs_fails silent_stream) res \<and> list_ex is_response (qs_sent (hd_stream res))"
proof -
  obtain res where res: "handleDataStream sample_quic_env (Some default_proxy) (Inr sample_connect) [] silent_stream (NewLimiter 0) = Ok res"
    and c: "hd_calls res = []" "qs_sent (hd_stream res) = [SentResponse None [(''HttpStatus'', ''503'')]]"
    using sample_handled by (auto split: outcome.splits)
  from quic_request_answered [OF default_routes, where env = sample_quic_env and req = "Inr sample_connect" and body = "[]"
      and s = silent_stream and l = "NewLimiter 0"] res c
  show ?thesis by simp
qed

lemma first_head:
  "\<lbrakk>rw_sent w = []; \<not> rw_panicked w; 100 \<le> status; status \<le> 999\<rbrakk> \<Longrightarrow>
     rw_WriteHeader status w = w\<lparr>rw_sent := [SentStatus status (head_of status (rw_header w))]\<rparr>"
  by (simp add: rw_WriteHeader_def rw_wrote_def)

text \<open>C29. A TCP request above the flow limit dials nothing, and both transports tell the edge that the limit was the
  reason.\<close>

theorem rate_limit_reported:
  assumes "isl (Acquire l)" and "hs_proxy sv = Some p" and "determineHTTP2Type r = TypeTCP" and "rw_sent w = []" and "\<not> rw_panicked w"
    and "cr_Type cr = 2" and "qs_sent s = []" and "\<not> qs_fails s (SentResponse (Some TooManyFlows) [ErrorFlowConnectRateLimitedMetadata])"
  shows "(case (ServeHTTP sv r w l, handleDataStream env (Some p) (Inr cr) body s l) of
           (Ok a, Ok b) \<Rightarrow>
             sv_calls a = [] \<and> sv_limiter a = l \<and> \<not> sv_aborted a
             \<and> (\<exists>h. rw_sent (rp_w (sv_writer a)) = [SentStatus 502 h]
                  \<and> h_Get h ResponseMetaHeader = responseMetaHeaderCfdFlowRateLimited)
             \<and> hd_calls b = [] \<and> hd_limiter b = l \<and> \<not> hd_reset b
             \<and> qs_sent (hd_stream b) = [SentResponse (Some TooManyFlows) [ErrorFlowConnectRateLimitedMetadata]]
         | _ \<Rightarrow> False)"
proof -
  obtain e where e: "Acquire l = Inl e" using assms(1) by (cases "Acquire l") auto
  have tcp: "ProxyTCP env' ak p id dest l a = (\<lparr>pr_error = Some TooManyFlows, pr_writer = a, pr_calls = []\<rparr>, l)" for env' ak dest a
    by (simp add: ProxyTCP_def e)
  have "ServeHTTP sv r w l = Ok (let rp2 = snd (rp_WriteErrorResponse TooManyFlows (NewHTTP2RespWriter w TypeTCP)) in
      \<lparr>sv_writer = rp2, sv_limiter = l, sv_calls = [], sv_controlFailed = False, sv_aborted = False\<rparr>)"
    using assms(2-5) by (simp add: ServeHTTP_def dispatch_http2_def tcp handleMissingRequestParts_def rp_WriteErrorResponse_def
        NewHTTP2RespWriter_def rp_setResponseMetaHeader_def first_head Let_def)
  moreover have "handleDataStream env (Some p) (Inr cr) body s l
      = Ok \<lparr>hd_reset = False, hd_stream = s\<lparr>qs_sent := [SentResponse (Some TooManyFlows) [ErrorFlowConnectRateLimitedMetadata]]\<rparr>,
            hd_limiter = l, hd_calls = []\<rparr>"
    using assms(6-8) by (simp add: handleDataStream_def dispatchRequest_def tcp ConnectionType_String_def qs_put_def Let_def)
  ultimately show ?thesis
    using assms(4,5)
    by (simp add: rp_WriteErrorResponse_def NewHTTP2RespWriter_def rp_setResponseMetaHeader_def first_head head_of_def informational_def Let_def)
qed

theorem rate_limit_reported_witness:
  "isl (Acquire (NewLimiter 0\<lparr>unlimited := False\<rparr>))
   \<and> (case (ServeHTTP sample_http2_server (sample_request_with [(InternalTCPProxySrcHeader, [''1''])]) idle_rw (NewLimiter 0\<lparr>unlimited := False\<rparr>),
            handleDataStream sample_env (Some default_proxy) (Inr \<lparr>cr_Dest = ''1.1.1.1:80'', cr_Type = 2, cr_Metadata = []\<rparr>) [] silent_stream
              (NewLimiter 0\<lparr>unlimited := False\<rparr>)) of
        (Ok a, Ok b) \<Rightarrow> sv_calls a = [] \<and> hd_calls b = []
      | _ \<Rightarrow> False)"
proof -
  let ?l = "NewLimiter 0\<lparr>unlimited := False\<rparr>" and ?r = "sample_request_with [(InternalTCPProxySrcHeader, [''1''])]"
  let ?cr = "\<lparr>cr_Dest = ''1.1.1.1:80'', cr_Type = 2, cr_Metadata = []\<rparr>"
  have l: "isl (Acquire ?l)" by (simp add: Acquire_def NewLimiter_def)
  have t: "determineHTTP2Type ?r = TypeTCP" by code_simp
  have p: "hs_proxy sample_http2_server = Some default_proxy" by (simp add: sample_http2_server_def default_proxy_def)
  have w: "rw_sent idle_rw = []" "\<not> rw_panicked idle_rw" by (simp_all add: idle_rw_def)
  have s: "qs_sent silent_stream = []" "\<not> qs_fails silent_stream (SentResponse (Some TooManyFlows) [ErrorFlowConnectRateLimitedMetadata])"
    by (simp_all add: silent_stream_def)
  from rate_limit_reported [OF l p t w(1,2) _ s, of ?cr sample_env "[]"] l show ?thesis
    by (auto split: outcome.splits)
qed

subsection \<open>The two transports give the edge the same response\<close>

definition passes_user :: "string \<Rightarrow> bool" where
  "passes_user name =
     (to_lower name \<noteq> IntCloudflaredTracingHeader
      \<and> (\<not> IsControlResponseHeader (to_lower name) \<or> IsWebsocketClientHeader (to_lower name)))"

lemma h_assign_new: "k \<notin> fst ` set h \<Longrightarrow> h_assign k vs h = h @ [(k, vs)]"
  by (simp add: h_assign_def)

lemma split_headers_user:
  "\<lbrakk>distinct (map fst hs); fst ` set hs \<inter> fst ` set user = {}\<rbrakk>
   \<Longrightarrow> snd (split_headers hs dest user) = user @ filter (\<lambda>(n, vs). passes_user n) hs"
proof (induction hs dest user rule: split_headers.induct)
  case (2 name vs hs dest user)
  have new: "name \<notin> fst ` set user" using 2(5) by auto
  have tail: "distinct (map fst hs)" "fst ` set hs \<inter> fst ` set user = {}" "fst ` set hs \<inter> fst ` set (user @ [(name, vs)]) = {}"
    using 2(4,5) by auto
  show ?case
    using 2(1-3) tail h_assign_new [OF new] by (auto simp: passes_user_def Let_def)
qed simp

lemma flatten_filter: "flatten_header (filter (\<lambda>(n, vs). P n) h) = filter (\<lambda>(n, v). P n) (flatten_header h)"
  by (induction h) (auto simp: flatten_header_def filter_map comp_def)

text \<open>The header pairs of a QUIC response, as the edge reads them off the metadata.\<close>

fun metadata_headers :: "(string \<times> string) list \<Rightarrow> (string \<times> string) list" where
  "metadata_headers [] = []"
| "metadata_headers ((k, v) # ms) =
     (if has_prefix k (HTTPHeaderKey @ '':'') then [(drop (length HTTPHeaderKey + 1) k, v)] else []) @ metadata_headers ms"

lemma metadata_headers_map: "metadata_headers (header_metadata h) = flatten_header h"
proof -
  have "metadata_headers (map (\<lambda>(k, v). (HTTPHeaderKey @ '':'' @ k, v)) ps) = ps" for ps
  proof (induction ps)
    case (Cons p ps)
    then show ?case
      using has_prefix_append [of "HTTPHeaderKey @ '':''" "fst p"] by (cases p) simp
  qed simp
  then show ?thesis by (simp add: header_metadata_def)
qed

lemma response_keys: "CanonicalHeaderKey ResponseUserHeaders \<noteq> CanonicalHeaderKey ResponseMetaHeader"
  by code_simp

lemma length_keys:
  "CanonicalHeaderKey ''Content-Length'' = ''Content-Length''" "CanonicalHeaderKey ''Transfer-Encoding'' = ''Transfer-Encoding''"
  "CanonicalHeaderKey ResponseUserHeaders \<noteq> ''Content-Length''" "CanonicalHeaderKey ResponseUserHeaders \<noteq> ''Transfer-Encoding''"
  by code_simp+

text \<open>The values of one name, which a map of headers keeps in their order while the order of the names is lost.\<close>

definition values_of :: "string \<Rightarrow> (string \<times> string) list \<Rightarrow> string list" where
  "values_of n ps = map snd (filter (\<lambda>(m, v). m = n) ps)"

lemma flatten_Cons: "flatten_header ((k, vs) # h) = map (Pair k) vs @ flatten_header h"
  by (simp add: flatten_header_def)

lemma values_of_flatten:
  "distinct (map fst h) \<Longrightarrow> values_of n (flatten_header h) = (case map_of h n of None \<Rightarrow> [] | Some vs \<Rightarrow> vs)"
proof (induction h)
  case (Cons kv h)
  obtain k vs where kv: "kv = (k, vs)" by (cases kv)
  have all: "values_of k (map (Pair k) vs @ ps) = vs @ values_of k ps" for ps
    by (simp add: values_of_def filter_map comp_def)
  have none: "n \<noteq> k \<Longrightarrow> values_of n (map (Pair k) vs @ ps) = values_of n ps" for ps
    by (auto simp: values_of_def filter_map comp_def)
  have "map_of h k = None" using Cons.prems by (auto simp: kv map_of_eq_None_iff)
  then show ?case
    using Cons all none by (cases "n = k") (auto simp: kv flatten_Cons)
qed (simp add: values_of_def flatten_header_def)

lemma mset_flatten: "mset h = mset h' \<Longrightarrow> mset (flatten_header h) = mset (flatten_header h')"
  by (simp add: flatten_header_def mset_concat flip: sum_mset_sum_list)

lemma values_of_reordered:
  assumes "mset h = mset h'" and "distinct (map fst h)"
  shows "values_of n (flatten_header h) = values_of n (flatten_header h')"
proof -
  have "mset (map fst h) = mset (map fst h')" using assms(1) by simp
  then have d: "distinct (map fst h')" using assms(2) by (metis mset_eq_imp_distinct_iff)
  have "set h = set h'" using assms(1) by (rule mset_eq_setD)
  then have "map_of h n = map_of h' n"
    using map_of_eq_Some_iff [OF assms(2), of n] map_of_eq_Some_iff [OF d, of n] by (cases "map_of h n"; cases "map_of h' n") auto
  then show ?thesis by (simp add: values_of_flatten assms(2) d)
qed

lemma flush_keeps: "rw_sent w = x # xs \<Longrightarrow> \<exists>ys. rw_sent (rw_Flush w) = x # ys"
  by (simp add: rw_Flush_def rw_WriteHeader_def Let_def)

lemma h_Get_head_of:
  assumes "CanonicalHeaderKey k \<noteq> ''Content-Length''" "CanonicalHeaderKey k \<noteq> ''Transfer-Encoding''"
  shows "h_Get (head_of status h) k = h_Get h k"
  using assms length_keys by (simp add: head_of_def)

text \<open>C12. One response written over HTTP/2 and over QUIC.  The runtime ranges over the response's headers in an order
  of its own in each case, and HTTP/2 then ranges over the packed headers in yet another.  Whatever these orders are, the
  edge unpacks from the first transport the name and value pairs it gets from the second, the values of every name in
  the same order, but for the names reserved for cloudflared, which only HTTP/2 holds back; and the status is the same but
  for 101, which HTTP/2 does not have.\<close>

theorem transports_agree:
  assumes "distinct (map fst h)" and "mset h' = mset h" and "\<forall>u. mset (rw_order w u) = mset u"
    and "rw_sent w = []" and "\<not> rw_panicked w" and "100 \<le> status" and "status \<le> 999"
    and "qs_fails s = (\<lambda>x. False)" and "qs_sent s = []"
  shows "\<exists>hs rest md unpacked.
      rw_sent (rp_w (snd (rp_WriteRespHeaders status h (NewHTTP2RespWriter w t)))) = SentStatus (if status = 101 then 200 else status) hs # rest
      \<and> qs_sent (ha_stream (snd (ha_WriteRespHeaders status h' (newHTTPResponseAdapter s)))) = [SentResponse None md]
      \<and> map_of md HTTPStatus = Some (int_to_string status)
      \<and> DeserializeHeaders (h_Get hs ResponseUserHeaders) = Inr unpacked
      \<and> mset unpacked = mset (filter (\<lambda>(n, v). passes_user n) (metadata_headers (tl md)))
      \<and> (\<forall>n. values_of n unpacked = values_of n (filter (\<lambda>(n, v). passes_user n) (metadata_headers (tl md))))"
proof -
  obtain dest user where sp: "split_headers h (rw_header w) [] = (dest, user)" by fastforce
  then have user: "user = filter (\<lambda>(n, vs). passes_user n) h"
    using split_headers_user [OF assms(1), of "[]" "rw_header w"] by simp
  let ?packed = "rw_order w user" and ?kept = "filter (\<lambda>(n, vs). passes_user n) h'"
  have order: "mset ?packed = mset ?kept"
    using assms(2,3) by (simp add: user)
  have d: "distinct (map fst ?packed)"
  proof -
    have "distinct (map fst user)" using assms(1) by (simp add: user distinct_map_filter)
    moreover have "mset (map fst ?packed) = mset (map fst user)" using assms(3) by simp
    ultimately show ?thesis by (metis mset_eq_imp_distinct_iff)
  qed
  let ?status = "if status = 101 then 200 else status"
  let ?hs = "h_Set ResponseMetaHeader responseMetaHeaderOrigin (h_Set ResponseUserHeaders (SerializeHeaders ?packed) dest)"
  let ?md = "(HTTPStatus, int_to_string status) # header_metadata h'"
  have "\<exists>rest. rw_sent (rp_w (snd (rp_WriteRespHeaders status h (NewHTTP2RespWriter w t)))) = SentStatus ?status (head_of ?status ?hs) # rest"
    using assms(4-7)
    by (auto simp: rp_WriteRespHeaders_def NewHTTP2RespWriter_def sp rp_setResponseMetaHeader_def first_head
        rp_Flush_def Let_def intro!: flush_keeps)
  then obtain rest where "rw_sent (rp_w (snd (rp_WriteRespHeaders status h (NewHTTP2RespWriter w t)))) = SentStatus ?status (head_of ?status ?hs) # rest"
    by blast
  moreover have "qs_sent (ha_stream (snd (ha_WriteRespHeaders status h' (newHTTPResponseAdapter s)))) = [SentResponse None ?md]"
    using assms(8,9) by (simp add: ha_WriteRespHeaders_def ha_WriteConnectResponseData_def newHTTPResponseAdapter_def qs_put_alive)
  moreover have "DeserializeHeaders (h_Get (head_of ?status ?hs) ResponseUserHeaders) = Inr (flatten_header ?packed)"
    using response_keys length_keys by (simp add: h_Get_head_of Deserialize_Serialize)
  moreover have "filter (\<lambda>(n, v). passes_user n) (metadata_headers (tl ?md)) = flatten_header ?kept"
    by (simp add: metadata_headers_map flatten_filter)
  moreover have "mset (flatten_header ?packed) = mset (flatten_header ?kept)"
    using order by (rule mset_flatten)
  moreover have "values_of n (flatten_header ?packed) = values_of n (flatten_header ?kept)" for n
    using order d by (rule values_of_reordered)
  ultimately show ?thesis
    by (intro exI [of _ "head_of ?status ?hs"] exI [of _ rest] exI [of _ ?md] exI [of _ "flatten_header ?packed"]) simp
qed

theorem transports_agree_witness:
  "\<exists>hs rest md unpacked.
      rw_sent (rp_w (snd (rp_WriteRespHeaders 200 [(''A'', [''1'', ''2'']), (''Cf-Int-X'', [''3'']), (''B'', [''4''])]
          (NewHTTP2RespWriter (idle_rw\<lparr>rw_order := rev\<rparr>) TypeHTTP)))) = SentStatus 200 hs # rest
      \<and> qs_sent (ha_stream (snd (ha_WriteRespHeaders 200 [(''B'', [''4'']), (''Cf-Int-X'', [''3'']), (''A'', [''1'', ''2''])]
          (newHTTPResponseAdapter silent_stream)))) = [SentResponse None md]
      \<and> DeserializeHeaders (h_Get hs ResponseUserHeaders) = Inr unpacked
      \<and> mset unpacked = mset (filter (\<lambda>(n, v). passes_user n) (metadata_headers (tl md)))"
  using transports_agree [of "[(''A'', [''1'', ''2'']), (''Cf-Int-X'', [''3'']), (''B'', [''4''])]"
      "[(''B'', [''4'']), (''Cf-Int-X'', [''3'']), (''A'', [''1'', ''2''])]" "idle_rw\<lparr>rw_order := rev\<rparr>" 200 silent_stream TypeHTTP]
  by (simp add: idle_rw_def silent_stream_def) blast

end
