(* ===== verification/Orchestrator.thy ===== *)
theory Orchestrator
  imports Proxy
begin

text \<open>
  \<^verbatim>\<open>orchestration/orchestrator.go\<close> and \<^verbatim>\<open>orchestration/config.go\<close>: the component that replaces the
  running configuration.  Every method runs under the orchestrator's lock and is one step.  A shutdown channel
  is a number; closing it twice panics.  Reading JSON is a parameter: an update carries the value that was
  read, or nothing when the text was not valid.
\<close>

subsection \<open>State\<close>

datatype orch_error = AlreadyShutdown | BadMaxActiveFlows | StartOriginFailed | NotJSON | BadConfiguration ingress_error

record 's Orchestrator =
  currentVersion :: int
  o_proxy :: "'s proxy option"
  internalRules :: "ingress_rule list"
  o_Ingress :: Ingress
  o_WarpRouting :: WarpRoutingConfig
  ConfigurationFlags :: "string \<Rightarrow> string"
  o_tags :: "(string \<times> string) list"
  o_flowLimiter :: flowLimiter
  originDialerService :: "'s OriginDialerService"
  o_shutdown :: bool
  proxyShutdownC :: "nat option"
  o_channels :: nat
  o_closed :: "nat list"
  o_running :: "(nat \<times> started) list"
  o_closerDone :: bool

record UpdateConfigurationResponse =
  LastAppliedVersion :: int
  ur_Err :: "orch_error option"

definition close_channel :: "nat \<Rightarrow> 's Orchestrator \<Rightarrow> ('e, 's Orchestrator) outcome" where
  "close_channel c s = (if c \<in> set (o_closed s) then Panic else Ok (s\<lparr>o_closed := o_closed s @ [c]\<rparr>))"

subsection \<open>Operations\<close>

definition overrideMaxActiveFlows :: "string \<Rightarrow> WarpRoutingConfig \<Rightarrow> WarpRoutingConfig option" where
  "overrideMaxActiveFlows localConfig remote =
     (if localConfig = [] then Some remote
      else (case parse_uint64 localConfig of None \<Rightarrow> None | Some n \<Rightarrow> Some (remote\<lparr>wr_MaxActiveFlows := n\<rparr>)))"

definition overrideRemoteWarpRoutingWithLocalValues :: "'s Orchestrator \<Rightarrow> WarpRoutingConfig \<Rightarrow> WarpRoutingConfig option" where
  "overrideRemoteWarpRoutingWithLocalValues s remote = overrideMaxActiveFlows (ConfigurationFlags s ''max-active-flows'') remote"

text \<open>The rules that will serve: the internal ones, and the default rule when there are no others.\<close>

definition effective_ingress :: "'s Orchestrator \<Rightarrow> Ingress \<Rightarrow> Ingress" where
  "effective_ingress s ing =
     (let ing1 = ing\<lparr>InternalRules := internalRules s\<rparr>
      in if ing_IsEmpty ing1 then ing1\<lparr>ing_Rules := GetDefaultIngressRules\<rparr> else ing1)"

text \<open>The state after the origins started: the new proxy is in place before the old one is closed.\<close>

definition swap_proxy :: "'s Orchestrator \<Rightarrow> Ingress \<Rightarrow> WarpRoutingConfig \<Rightarrow> started list \<Rightarrow> 's Orchestrator" where
  "swap_proxy s ing warp svcs =
     (let limiter = SetLimit (wr_MaxActiveFlows warp) (o_flowLimiter s);
          dialers = UpdateDefaultDialer (NewDialer warp) (originDialerService s)
      in s\<lparr>o_flowLimiter := limiter, originDialerService := dialers,
           o_proxy := Some (NewOriginProxy ing svcs dialers (o_tags s)),
           o_Ingress := ing, o_WarpRouting := warp\<rparr>)"

definition updateIngress ::
    "start_env \<Rightarrow> Ingress \<Rightarrow> WarpRoutingConfig \<Rightarrow> 's Orchestrator
     \<Rightarrow> (orch_error, orch_error option \<times> 's Orchestrator) outcome" where
  "updateIngress env ing0 warp0 s =
     (if o_shutdown s then Ok (Some AlreadyShutdown, s)
      else
        (case overrideRemoteWarpRoutingWithLocalValues s warp0 of
           None \<Rightarrow> Ok (Some BadMaxActiveFlows, s)
         | Some warp \<Rightarrow>
             (let ing = effective_ingress s ing0;
                  c = o_channels s;
                  (svcs, started) = StartOrigins env (ing_Rules ing);
                  s1 = s\<lparr>o_channels := c + 1, o_running := o_running s @ map (Pair c) svcs\<rparr>
              in if \<not> started then Ok (Some StartOriginFailed, s1)
                 else
                   (let s2 = swap_proxy s1 ing warp svcs
                    in obind (case proxyShutdownC s2 of None \<Rightarrow> Ok s2 | Some old \<Rightarrow> close_channel old s2)
                         (\<lambda>s3. Ok (None, s3\<lparr>proxyShutdownC := Some c\<rparr>))))))"

definition UpdateConfig ::
    "start_env \<Rightarrow> ingress_lib \<Rightarrow> int \<Rightarrow> RemoteConfigJSON option \<Rightarrow> 's Orchestrator
     \<Rightarrow> (orch_error, UpdateConfigurationResponse \<times> 's Orchestrator) outcome" where
  "UpdateConfig env lib version config s =
     (if version \<le> currentVersion s then Ok (\<lparr>LastAppliedVersion = currentVersion s, ur_Err = None\<rparr>, s)
      else
        (case config of
           None \<Rightarrow> Ok (\<lparr>LastAppliedVersion = currentVersion s, ur_Err = Some NotJSON\<rparr>, s)
         | Some raw \<Rightarrow>
             (case RemoteConfig_Unmarshal lib raw of
                Inl e \<Rightarrow> Ok (\<lparr>LastAppliedVersion = currentVersion s, ur_Err = Some (BadConfiguration e)\<rparr>, s)
              | Inr (ing, warp) \<Rightarrow>
                  obind (updateIngress env ing warp s)
                    (\<lambda>(err, s').
                       (case err of
                          Some e \<Rightarrow> Ok (\<lparr>LastAppliedVersion = currentVersion s', ur_Err = Some e\<rparr>, s')
                        | None \<Rightarrow>
                            (let s2 = s'\<lparr>currentVersion := version\<rparr>
                             in Ok (\<lparr>LastAppliedVersion = currentVersion s2, ur_Err = None\<rparr>, s2)))))))"

record 's orch_config =
  oc_Ingress :: Ingress
  oc_WarpRouting :: WarpRoutingConfig
  oc_dialers :: "'s OriginDialerService"
  oc_flags :: "string \<Rightarrow> string"

definition NewOrchestrator ::
    "start_env \<Rightarrow> 's orch_config \<Rightarrow> (string \<times> string) list \<Rightarrow> ingress_rule list \<Rightarrow> (orch_error, 's Orchestrator) outcome" where
  "NewOrchestrator env config tags internal =
     (let s = \<lparr>currentVersion = -1, o_proxy = None, internalRules = internal, o_Ingress = oc_Ingress config,
               o_WarpRouting = oc_WarpRouting config, ConfigurationFlags = oc_flags config, o_tags = tags,
               o_flowLimiter = NewLimiter (wr_MaxActiveFlows (oc_WarpRouting config)),
               originDialerService = oc_dialers config, o_shutdown = False, proxyShutdownC = None, o_channels = 0,
               o_closed = [], o_running = [], o_closerDone = False\<rparr>
      in obind (updateIngress env (oc_Ingress config) (oc_WarpRouting config) s)
           (\<lambda>(err, s'). (case err of Some e \<Rightarrow> Err e | None \<Rightarrow> Ok s')))"

definition GetOriginProxy :: "'s Orchestrator \<Rightarrow> 's proxy option" where
  "GetOriginProxy s = o_proxy s"

text \<open>The goroutine that waits for the shutdown.\<close>

definition waitToCloseLastProxy :: "'s Orchestrator \<Rightarrow> (orch_error, 's Orchestrator) outcome" where
  "waitToCloseLastProxy s =
     (case proxyShutdownC s of
        None \<Rightarrow> Ok (s\<lparr>o_closerDone := True\<rparr>)
      | Some c \<Rightarrow> obind (close_channel c s) (\<lambda>s'. Ok (s'\<lparr>proxyShutdownC := None, o_closerDone := True\<rparr>)))"

subsection \<open>Reporting the configuration\<close>

definition convert_rule :: "ingress_rule \<Rightarrow> UnvalidatedIngressRule" where
  "convert_rule rule =
     \<lparr>ur_Hostname = r_Hostname rule,
      ur_Path = (case r_Path rule of None \<Rightarrow> [] | Some p \<Rightarrow> p),
      ur_Service = service_String (r_Service rule),
      ur_OriginRequest = ConvertToRawOriginConfig (r_Config rule)\<rparr>"

definition convertToUnvalidatedIngressRules :: "Ingress \<Rightarrow> UnvalidatedIngressRule list" where
  "convertToUnvalidatedIngressRules i = map convert_rule (ing_Rules i)"

definition GetConfigJSON :: "'s Orchestrator \<Rightarrow> (string \<Rightarrow> string) \<times> RemoteConfigJSON" where
  "GetConfigJSON s =
     (ConfigurationFlags s,
      \<lparr>GlobalOriginRequest = None, IngressRules = convertToUnvalidatedIngressRules (o_Ingress s),
       rc_WarpRouting = warp_RawConfig (o_WarpRouting s)\<rparr>)"

record versioned_config =
  vc_Version :: int
  vc_Ingress :: "ingress_rule list"
  vc_WarpRouting :: raw_warp_routing
  vc_OriginRequest :: origin_request

definition GetVersionedConfigJSON :: "'s Orchestrator \<Rightarrow> versioned_config" where
  "GetVersionedConfigJSON s =
     \<lparr>vc_Version = currentVersion s, vc_Ingress = ing_Rules (o_Ingress s),
      vc_WarpRouting = warp_RawConfig (o_WarpRouting s), vc_OriginRequest = ing_Defaults (o_Ingress s)\<rparr>"

subsection \<open>Runs\<close>

datatype orch_event =
    EvUpdate start_env int "RemoteConfigJSON option"
  | EvFlow bool
  | EvShutdown
  | EvCloser

text \<open>Flows take and give back slots in between; the closer only runs after the shutdown, and once.\<close>

fun orch_step :: "ingress_lib \<Rightarrow> orch_event \<Rightarrow> 's Orchestrator \<Rightarrow> (orch_error, 's Orchestrator) outcome" where
  "orch_step lib (EvUpdate env version config) s = obind (UpdateConfig env lib version config s) (\<lambda>(r, s'). Ok s')"
| "orch_step lib (EvFlow start) s =
     Ok (if start then (case Acquire (o_flowLimiter s) of Inl e \<Rightarrow> s | Inr l \<Rightarrow> s\<lparr>o_flowLimiter := l\<rparr>)
         else s\<lparr>o_flowLimiter := Release (o_flowLimiter s)\<rparr>)"
| "orch_step lib EvShutdown s = Ok (s\<lparr>o_shutdown := True\<rparr>)"
| "orch_step lib EvCloser s = (if o_shutdown s \<and> \<not> o_closerDone s then waitToCloseLastProxy s else Ok s)"

fun orch_run :: "ingress_lib \<Rightarrow> orch_event list \<Rightarrow> 's Orchestrator \<Rightarrow> (orch_error, 's Orchestrator) outcome" where
  "orch_run lib [] s = Ok s"
| "orch_run lib (e # es) s = obind (orch_step lib e s) (orch_run lib es)"

subsection \<open>Invariant\<close>

lemma length_StartOrigins: "snd (StartOrigins env rs) \<Longrightarrow> length (fst (StartOrigins env rs)) = length rs"
  by (induction rs) (auto split: option.splits prod.splits)

lemma effective_last:
  "\<lbrakk>ing_IsEmpty ing \<or> last_catches_all ing\<rbrakk> \<Longrightarrow> last_catches_all (effective_ingress s ing)"
  by (auto simp: effective_ingress_def ing_IsEmpty_def last_catches_all_def GetDefaultIngressRules_def single_rule_def Let_def)

definition serves_config :: "'s Orchestrator \<Rightarrow> bool" where
  "serves_config s =
     ((case o_proxy s of None \<Rightarrow> False
       | Some p \<Rightarrow> ingressRules p = o_Ingress s \<and> length (px_started p) = length (ing_Rules (o_Ingress s)))
      \<and> last_catches_all (o_Ingress s)
      \<and> maxActiveFlows (o_flowLimiter s) = wr_MaxActiveFlows (o_WarpRouting s)
      \<and> unlimited (o_flowLimiter s) = isUnlimited (wr_MaxActiveFlows (o_WarpRouting s))
      \<and> defaultDialer (originDialerService s) = NewDialer (o_WarpRouting s))"

definition channels_ok :: "'s Orchestrator \<Rightarrow> bool" where
  "channels_ok s =
     (set (o_closed s) \<subseteq> {..<o_channels s} \<and> distinct (o_closed s)
      \<and> (case proxyShutdownC s of None \<Rightarrow> True | Some c \<Rightarrow> c < o_channels s \<and> c \<notin> set (o_closed s)))"

definition orch_inv :: "'s Orchestrator \<Rightarrow> bool" where
  "orch_inv s =
     (serves_config s \<and> channels_ok s \<and> (proxyShutdownC s = None \<longleftrightarrow> o_closerDone s) \<and> (o_closerDone s \<longrightarrow> o_shutdown s))"

text \<open>What an update does: nothing, a new channel that no one will close, or the whole replacement.\<close>

definition updated :: "start_env \<Rightarrow> Ingress \<Rightarrow> WarpRoutingConfig \<Rightarrow> 's Orchestrator \<Rightarrow> 's Orchestrator" where
  "updated env ing warp s =
     (let s1 = s\<lparr>o_channels := o_channels s + 1,
                 o_running := o_running s @ map (Pair (o_channels s)) (fst (StartOrigins env (ing_Rules ing)))\<rparr>;
          s2 = swap_proxy s1 ing warp (fst (StartOrigins env (ing_Rules ing)))
      in s2\<lparr>o_closed := o_closed s @ (case proxyShutdownC s of None \<Rightarrow> [] | Some c \<Rightarrow> [c]), proxyShutdownC := Some (o_channels s)\<rparr>)"

definition abandoned :: "start_env \<Rightarrow> Ingress \<Rightarrow> 's Orchestrator \<Rightarrow> 's Orchestrator" where
  "abandoned env ing s =
     s\<lparr>o_channels := o_channels s + 1,
       o_running := o_running s @ map (Pair (o_channels s)) (fst (StartOrigins env (ing_Rules ing)))\<rparr>"

lemma updateIngress_cases:
  assumes "channels_ok s"
  shows "updateIngress env ing warp s =
     (if o_shutdown s then Ok (Some AlreadyShutdown, s)
      else (case overrideRemoteWarpRoutingWithLocalValues s warp of
              None \<Rightarrow> Ok (Some BadMaxActiveFlows, s)
            | Some w \<Rightarrow>
                if snd (StartOrigins env (ing_Rules (effective_ingress s ing)))
                then Ok (None, updated env (effective_ingress s ing) w s)
                else Ok (Some StartOriginFailed, abandoned env (effective_ingress s ing) s)))"
  using assms
  by (auto simp: updateIngress_def updated_def abandoned_def close_channel_def swap_proxy_def channels_ok_def Let_def
      split: option.splits prod.splits)

lemma updated_serves:
  assumes "last_catches_all ing" and "snd (StartOrigins env (ing_Rules ing))"
  shows "serves_config (updated env ing warp s)"
  using assms length_StartOrigins [OF assms(2)]
  by (simp add: serves_config_def updated_def swap_proxy_def NewOriginProxy_def SetLimit_def UpdateDefaultDialer_def Let_def)

lemma updated_channels: "channels_ok s \<Longrightarrow> channels_ok (updated env ing warp s)"
  by (auto simp: channels_ok_def updated_def swap_proxy_def Let_def split: option.splits)

lemma updated_frame [simp]:
  "proxyShutdownC (updated env ing warp s) = Some (o_channels s)" "o_shutdown (updated env ing warp s) = o_shutdown s"
  "o_closerDone (updated env ing warp s) = o_closerDone s" "currentVersion (updated env ing warp s) = currentVersion s"
  "internalRules (updated env ing warp s) = internalRules s"
  by (simp_all add: updated_def swap_proxy_def Let_def)

lemma abandoned_inv: "orch_inv s \<Longrightarrow> orch_inv (abandoned env ing s)"
  by (auto simp: orch_inv_def serves_config_def channels_ok_def abandoned_def split: option.splits)

lemma updated_inv:
  assumes "orch_inv s" and "\<not> o_shutdown s" and "last_catches_all ing" and "snd (StartOrigins env (ing_Rules ing))"
  shows "orch_inv (updated env ing warp s)"
  using assms updated_serves [OF assms(3,4)] updated_channels by (auto simp: orch_inv_def)

lemma Unmarshal_usable: "RemoteConfig_Unmarshal lib raw = Inr (ing, warp) \<Longrightarrow> ing_IsEmpty ing \<or> last_catches_all ing"
proof -
  assume "RemoteConfig_Unmarshal lib raw = Inr (ing, warp)"
  then have v: "validateIngress lib (IngressRules raw) (originRequestFromConfig (from_opt empty_raw (GlobalOriginRequest raw))) = Inr ing"
    by (auto simp: RemoteConfig_Unmarshal_def split: sum.splits)
  show ?thesis
    using validated_last_catches_all [OF v] validateIngress_Inr(2) [OF v]
    by (cases "IngressRules raw = []") (auto simp: ing_IsEmpty_def)
qed

text \<open>The four ends of an update.\<close>

lemma UpdateConfig_cases:
  assumes "channels_ok s"
  obtains (stale) "version \<le> currentVersion s" "UpdateConfig env lib version config s = Ok (\<lparr>LastAppliedVersion = currentVersion s, ur_Err = None\<rparr>, s)"
  | (refused) e where "currentVersion s < version" "UpdateConfig env lib version config s = Ok (\<lparr>LastAppliedVersion = currentVersion s, ur_Err = Some e\<rparr>, s)"
  | (abandoned) ing where "currentVersion s < version"
      "UpdateConfig env lib version config s = Ok (\<lparr>LastAppliedVersion = currentVersion s, ur_Err = Some StartOriginFailed\<rparr>, abandoned env ing s)"
  | (applied) raw ing warp w where "currentVersion s < version" "\<not> o_shutdown s" "config = Some raw"
      "RemoteConfig_Unmarshal lib raw = Inr (ing, warp)" "overrideRemoteWarpRoutingWithLocalValues s warp = Some w"
      "snd (StartOrigins env (ing_Rules (effective_ingress s ing)))"
      "UpdateConfig env lib version config s
        = Ok (\<lparr>LastAppliedVersion = version, ur_Err = None\<rparr>, (updated env (effective_ingress s ing) w s)\<lparr>currentVersion := version\<rparr>)"
proof (cases "version \<le> currentVersion s")
  case True
  then show thesis using stale by (simp add: UpdateConfig_def)
next
  case False
  show thesis
  proof (cases config)
    case None
    then show thesis using refused False by (simp add: UpdateConfig_def)
  next
    case (Some raw)
    show thesis
    proof (cases "RemoteConfig_Unmarshal lib raw")
      case (Inl e)
      then show thesis using refused False Some by (simp add: UpdateConfig_def)
    next
      case (Inr p)
      obtain ing warp where p: "p = (ing, warp)" by fastforce
      note u = updateIngress_cases [OF assms, of env ing warp]
      have uc: "UpdateConfig env lib version config s
          = obind (updateIngress env ing warp s)
              (\<lambda>(err, s'). case err of
                 Some e \<Rightarrow> Ok (\<lparr>LastAppliedVersion = currentVersion s', ur_Err = Some e\<rparr>, s')
               | None \<Rightarrow> (let s2 = s'\<lparr>currentVersion := version\<rparr>
                           in Ok (\<lparr>LastAppliedVersion = currentVersion s2, ur_Err = None\<rparr>, s2)))"
        using False Some Inr p by (simp add: UpdateConfig_def)
      consider (down) "o_shutdown s" | (flag) "\<not> o_shutdown s" "overrideRemoteWarpRoutingWithLocalValues s warp = None"
        | (start) w where "\<not> o_shutdown s" "overrideRemoteWarpRoutingWithLocalValues s warp = Some w"
            "\<not> snd (StartOrigins env (ing_Rules (effective_ingress s ing)))"
        | (ok) w where "\<not> o_shutdown s" "overrideRemoteWarpRoutingWithLocalValues s warp = Some w"
            "snd (StartOrigins env (ing_Rules (effective_ingress s ing)))"
        by (cases "overrideRemoteWarpRoutingWithLocalValues s warp") auto
      then show thesis
      proof cases
        case down
        show thesis by (rule refused) (use False down in \<open>simp_all add: uc u\<close>)
      next
        case flag
        show thesis by (rule refused) (use False flag in \<open>simp_all add: uc u\<close>)
      next
        case start
        show thesis by (rule abandoned) (use False start in \<open>simp_all add: uc u abandoned_def\<close>)
      next
        case ok
        show thesis by (rule applied) (use False ok Some Inr p in \<open>simp_all add: uc [unfolded Some] u\<close>)
      qed
    qed
  qed
qed

lemma serves_version: "orch_inv (s\<lparr>currentVersion := v\<rparr>) = orch_inv s"
  by (simp add: orch_inv_def serves_config_def channels_ok_def cong: option.case_cong)

lemma limiter_ops:
  "Acquire l = Inr l' \<Longrightarrow> maxActiveFlows l' = maxActiveFlows l \<and> unlimited l' = unlimited l"
  "maxActiveFlows (Release l) = maxActiveFlows l" "unlimited (Release l) = unlimited l"
  by (auto simp: Acquire_def Release_def split: if_splits)

lemma orch_step_inv:
  assumes "orch_inv s"
  shows "\<exists>s'. orch_step lib e s = Ok s' \<and> orch_inv s'"
proof -
  have c: "channels_ok s" using assms by (simp add: orch_inv_def)
  show ?thesis
  proof (cases e)
    case (EvUpdate env version config)
    from c show ?thesis
    proof (cases rule: UpdateConfig_cases [of s version env lib config])
      case (applied raw ing warp w)
      have "orch_inv (updated env (effective_ingress s ing) w s)"
        using updated_inv [OF assms applied(2) effective_last applied(6)] Unmarshal_usable [OF applied(4)] by blast
      then show ?thesis using EvUpdate applied by (simp add: serves_version)
    qed (use EvUpdate assms abandoned_inv in auto)
  next
    case (EvFlow start)
    then show ?thesis
      using assms limiter_ops
      by (cases start; cases "Acquire (o_flowLimiter s)") (simp_all add: orch_inv_def serves_config_def channels_ok_def cong: option.case_cong)
  next
    case EvShutdown
    then show ?thesis using assms by (simp add: orch_inv_def serves_config_def channels_ok_def cong: option.case_cong)
  next
    case EvCloser
    then show ?thesis
      using assms
      by (cases "proxyShutdownC s"; cases "o_proxy s")
         (auto simp: orch_inv_def serves_config_def channels_ok_def waitToCloseLastProxy_def close_channel_def)
  qed
qed

lemma orch_run_inv: "orch_inv s \<Longrightarrow> \<exists>s'. orch_run lib es s = Ok s' \<and> orch_inv s'"
proof (induction es arbitrary: s)
  case (Cons e es)
  obtain s1 where "orch_step lib e s = Ok s1" "orch_inv s1"
    using orch_step_inv [OF Cons.prems] by blast
  with Cons.IH show ?case by fastforce
qed simp

lemma NewOrchestrator_inv:
  assumes "NewOrchestrator env config tags internal = Ok s"
    and "ing_IsEmpty (oc_Ingress config) \<or> last_catches_all (oc_Ingress config)"
  shows "orch_inv s"
proof -
  define s0 :: "'a Orchestrator" where "s0 =
    \<lparr>currentVersion = -1, o_proxy = None, internalRules = internal, o_Ingress = oc_Ingress config,
     o_WarpRouting = oc_WarpRouting config, ConfigurationFlags = oc_flags config, o_tags = tags,
     o_flowLimiter = NewLimiter (wr_MaxActiveFlows (oc_WarpRouting config)),
     originDialerService = oc_dialers config, o_shutdown = False, proxyShutdownC = None, o_channels = 0,
     o_closed = [], o_running = [], o_closerDone = False\<rparr>"
  have c: "channels_ok s0" by (simp add: channels_ok_def s0_def)
  let ?i = "effective_ingress s0 (oc_Ingress config)"
  obtain err s' where u: "updateIngress env (oc_Ingress config) (oc_WarpRouting config) s0 = Ok (err, s')" "err = None" "s' = s"
    using assms(1) by (auto simp: NewOrchestrator_def s0_def Let_def obind_Ok_iff split: option.splits)
  then obtain w where "s = updated env ?i w s0" "snd (StartOrigins env (ing_Rules ?i))"
    using updateIngress_cases [OF c, of env "oc_Ingress config" "oc_WarpRouting config"]
    by (auto split: option.splits if_splits)
  then show ?thesis
    using updated_serves [OF effective_last [OF assms(2)], of env s0 w] updated_channels [OF c, of env ?i w]
    by (simp add: orch_inv_def s0_def)
qed

text \<open>C5. Whatever updates arrive, in whatever order with flows and the shutdown, no step panics, and there is always a
  proxy: it serves the configuration in force, which routes every request, and the flow limiter and the dialer
  follow the same configuration.\<close>

theorem orchestrator_always_serves:
  assumes "NewOrchestrator env config tags internal = Ok s0"
    and "ing_IsEmpty (oc_Ingress config) \<or> last_catches_all (oc_Ingress config)"
  shows "(case orch_run lib es s0 of
            Ok s \<Rightarrow> serves_config s
              \<and> (case GetOriginProxy s of None \<Rightarrow> False | Some p \<Rightarrow> FindMatchingRule lib (ingressRules p) h path \<noteq> Panic)
          | _ \<Rightarrow> False)"
proof -
  obtain s where s: "orch_run lib es s0 = Ok s" "orch_inv s"
    using orch_run_inv [OF NewOrchestrator_inv [OF assms]] by blast
  then have v: "serves_config s" by (simp add: orch_inv_def)
  then obtain p where p: "o_proxy s = Some p" "ingressRules p = o_Ingress s" "last_catches_all (o_Ingress s)"
    by (auto simp: serves_config_def split: option.splits)
  then show ?thesis
    using s v FindMatchingRule_not_Panic [of "ingressRules p" lib h path] by (simp add: GetOriginProxy_def)
qed

definition sample_orch_config :: "unit orch_config" where
  "sample_orch_config =
     \<lparr>oc_Ingress = newDefaultOrigin no_flags, oc_WarpRouting = \<lparr>wr_ConnectTimeout = 5, wr_MaxActiveFlows = 0, wr_TCPKeepAlive = 30\<rparr>,
      oc_dialers = sample_dialers, oc_flags = (\<lambda>f. [])\<rparr>"

lemma sample_new: "is_ok (NewOrchestrator sample_start sample_orch_config [] [])"
  by code_simp

theorem orchestrator_always_serves_witness:
  "\<exists>s0. NewOrchestrator sample_start sample_orch_config [] [] = Ok s0
     \<and> (case orch_run sample_lib [EvUpdate sample_start 0 (Some \<lparr>GlobalOriginRequest = None, IngressRules = sample_rules,
            rc_WarpRouting = \<lparr>rw_ConnectTimeout = None, rw_MaxActiveFlows = None, rw_TCPKeepAlive = None\<rparr>\<rparr>), EvShutdown, EvCloser] s0 of
          Ok s \<Rightarrow> serves_config s | _ \<Rightarrow> False)"
proof -
  obtain s0 where s0: "NewOrchestrator sample_start sample_orch_config [] [] = Ok s0"
    using sample_new by (cases "NewOrchestrator sample_start sample_orch_config [] []") auto
  have "ing_IsEmpty (oc_Ingress sample_orch_config) \<or> last_catches_all (oc_Ingress sample_orch_config)"
    by (simp add: sample_orch_config_def newDefaultOrigin_last)
  from orchestrator_always_serves [OF s0 this]
  have "\<And>es. case orch_run sample_lib es s0 of Ok s \<Rightarrow> serves_config s | _ \<Rightarrow> False"
    by (fastforce split: outcome.splits)
  with s0 show ?thesis by blast
qed

text \<open>
  An update that changes nothing leaves the served configuration alone.  One that is applied puts the pushed
  rules in force (or the default rule when there are none) behind the internal ones, over their freshly
  started services, and the pushed private-network settings with the local limit on flows, if one is set,
  which the limiter and the dialer follow at once; the channel of the old services is closed.
\<close>

definition same_service :: "'s Orchestrator \<Rightarrow> 's Orchestrator \<Rightarrow> bool" where
  "same_service s s' =
     (o_proxy s' = o_proxy s \<and> o_Ingress s' = o_Ingress s \<and> o_WarpRouting s' = o_WarpRouting s
      \<and> o_flowLimiter s' = o_flowLimiter s \<and> originDialerService s' = originDialerService s
      \<and> proxyShutdownC s' = proxyShutdownC s \<and> o_closed s' = o_closed s)"

definition local_limit :: "'s Orchestrator \<Rightarrow> string" where
  "local_limit s = ConfigurationFlags s ''max-active-flows''"

definition served_rules :: "Ingress \<Rightarrow> ingress_rule list" where
  "served_rules ing = (if ing_Rules ing = [] then [single_rule (StatusCode 503 True) zero_request] else ing_Rules ing)"

definition served_limit :: "'s Orchestrator \<Rightarrow> WarpRoutingConfig \<Rightarrow> u64" where
  "served_limit s warp = (if local_limit s = [] then wr_MaxActiveFlows warp else the (parse_uint64 (local_limit s)))"

definition in_force :: "start_env \<Rightarrow> Ingress \<Rightarrow> WarpRoutingConfig \<Rightarrow> 's Orchestrator \<Rightarrow> 's Orchestrator \<Rightarrow> bool" where
  "in_force env ing warp s s' =
     (ing_Rules (o_Ingress s') = served_rules ing \<and> InternalRules (o_Ingress s') = internalRules s
      \<and> ing_Defaults (o_Ingress s') = ing_Defaults ing
      \<and> (case o_proxy s' of
           None \<Rightarrow> False
         | Some p \<Rightarrow> ingressRules p = o_Ingress s' \<and> StartOrigins env (served_rules ing) = (px_started p, True)
                     \<and> px_originDialer p = originDialerService s' \<and> px_tags p = o_tags s)
      \<and> wr_MaxActiveFlows (o_WarpRouting s') = served_limit s warp
      \<and> wr_ConnectTimeout (o_WarpRouting s') = wr_ConnectTimeout warp \<and> wr_TCPKeepAlive (o_WarpRouting s') = wr_TCPKeepAlive warp
      \<and> maxActiveFlows (o_flowLimiter s') = served_limit s warp
      \<and> unlimited (o_flowLimiter s') = isUnlimited (served_limit s warp)
      \<and> activeFlowsCounter (o_flowLimiter s') = activeFlowsCounter (o_flowLimiter s)
      \<and> d_Timeout (defaultDialer (originDialerService s')) = wr_ConnectTimeout warp
      \<and> d_KeepAlive (defaultDialer (originDialerService s')) = wr_TCPKeepAlive warp
      \<and> reservedTCPServices (originDialerService s') = reservedTCPServices (originDialerService s)
      \<and> o_closed s' = o_closed s @ (case proxyShutdownC s of None \<Rightarrow> [] | Some c \<Rightarrow> [c])
      \<and> proxyShutdownC s' = Some (o_channels s) \<and> last_catches_all (o_Ingress s'))"

lemma effective_served:
  "ing_Rules (effective_ingress s ing) = served_rules ing" "InternalRules (effective_ingress s ing) = internalRules s"
  "ing_Defaults (effective_ingress s ing) = ing_Defaults ing"
  by (simp_all add: effective_ingress_def served_rules_def ing_IsEmpty_def GetDefaultIngressRules_def newDefaultStatusCode_def Let_def)

lemma override_exact:
  "overrideRemoteWarpRoutingWithLocalValues s warp =
     (if local_limit s \<noteq> [] \<and> parse_uint64 (local_limit s) = None then None
      else Some (warp\<lparr>wr_MaxActiveFlows := served_limit s warp\<rparr>))"
  by (auto simp: overrideRemoteWarpRoutingWithLocalValues_def overrideMaxActiveFlows_def local_limit_def served_limit_def)

lemma StartOrigins_all: "snd (StartOrigins env rs) \<longleftrightarrow> list_all (\<lambda>r. start_service env (r_Service r) (r_Config r) \<noteq> None) rs"
  by (induction rs) (auto split: option.split prod.split)

lemma updated_in_force:
  assumes "snd (StartOrigins env (served_rules ing))" and "last_catches_all (effective_ingress s ing)"
  shows "in_force env ing warp s
    ((updated env (effective_ingress s ing) (warp\<lparr>wr_MaxActiveFlows := served_limit s warp\<rparr>) s)\<lparr>currentVersion := v\<rparr>)"
  using assms
  by (simp add: in_force_def updated_def swap_proxy_def effective_served NewOriginProxy_def SetLimit_def UpdateDefaultDialer_def
      NewDialer_def Let_def prod_eq_iff)

text \<open>C11. The outcome of one update.  A version that is not newer changes nothing; a newer one is refused with the error
  of the first thing that is wrong, and then the served configuration stays as it was; otherwise it is in force when the call
  returns.  The answer always names the version in force.\<close>

theorem update_config_exact:
  assumes "orch_inv s"
  shows "(case UpdateConfig env lib version config s of
            Ok (resp, s') \<Rightarrow>
              LastAppliedVersion resp = currentVersion s'
              \<and> (if version \<le> currentVersion s then ur_Err resp = None \<and> s' = s
                 else
                   (case config of
                      None \<Rightarrow> ur_Err resp = Some NotJSON \<and> s' = s
                    | Some raw \<Rightarrow>
                        (case RemoteConfig_Unmarshal lib raw of
                           Inl e \<Rightarrow> ur_Err resp = Some (BadConfiguration e) \<and> s' = s
                         | Inr (ing, warp) \<Rightarrow>
                             if o_shutdown s then ur_Err resp = Some AlreadyShutdown \<and> s' = s
                             else if local_limit s \<noteq> [] \<and> parse_uint64 (local_limit s) = None
                             then ur_Err resp = Some BadMaxActiveFlows \<and> s' = s
                             else if list_all (\<lambda>r. start_service env (r_Service r) (r_Config r) \<noteq> None) (served_rules ing)
                             then ur_Err resp = None \<and> currentVersion s' = version \<and> in_force env ing warp s s'
                             else ur_Err resp = Some StartOriginFailed \<and> currentVersion s' = currentVersion s \<and> same_service s s')))
          | _ \<Rightarrow> False)"
proof -
  have c: "channels_ok s" using assms by (simp add: orch_inv_def)
  show ?thesis
  proof (cases "version \<le> currentVersion s \<or> config = None \<or> isl (RemoteConfig_Unmarshal lib (the config))")
    case True
    then show ?thesis by (auto simp: UpdateConfig_def split: option.split sum.splits)
  next
    case False
    then obtain raw ing warp where r: "config = Some raw" "RemoteConfig_Unmarshal lib raw = Inr (ing, warp)" "currentVersion s < version"
      by (cases config; cases "RemoteConfig_Unmarshal lib (the config)") auto
    have last: "last_catches_all (effective_ingress s ing)"
      using effective_last Unmarshal_usable [OF r(2)] by blast
    show ?thesis
      using r updated_in_force [OF _ last, of env warp version]
      by (simp add: UpdateConfig_def updateIngress_cases [OF c] override_exact effective_served StartOrigins_all same_service_def
          abandoned_def)
  qed
qed

definition pushed_config :: RemoteConfigJSON where
  "pushed_config =
     \<lparr>GlobalOriginRequest = None, IngressRules = sample_rules,
      rc_WarpRouting = \<lparr>rw_ConnectTimeout = None, rw_MaxActiveFlows = Some 5, rw_TCPKeepAlive = None\<rparr>\<rparr>"

lemma sample_applied:
  "(case NewOrchestrator sample_start sample_orch_config [] [] of
      Ok s0 \<Rightarrow>
        (case UpdateConfig sample_start sample_lib 3 (Some pushed_config) s0 of
           Ok (resp, s1) \<Rightarrow> ur_Err resp = None \<and> currentVersion s1 = 3 \<and> currentVersion s0 = -1
         | _ \<Rightarrow> False)
    | _ \<Rightarrow> False)"
  by code_simp

theorem update_config_exact_witness:
  "\<exists>s0 resp s1 ing warp. NewOrchestrator sample_start sample_orch_config [] [] = Ok s0
     \<and> UpdateConfig sample_start sample_lib 3 (Some pushed_config) s0 = Ok (resp, s1)
     \<and> RemoteConfig_Unmarshal sample_lib pushed_config = Inr (ing, warp) \<and> in_force sample_start ing warp s0 s1"
proof -
  obtain s0 resp s1 where s0: "NewOrchestrator sample_start sample_orch_config [] [] = Ok s0"
    and s1: "UpdateConfig sample_start sample_lib 3 (Some pushed_config) s0 = Ok (resp, s1)"
    and r: "ur_Err resp = None" "currentVersion s0 = -1"
    using sample_applied by (auto split: outcome.splits prod.splits)
  have "ing_IsEmpty (oc_Ingress sample_orch_config) \<or> last_catches_all (oc_Ingress sample_orch_config)"
    by (simp add: sample_orch_config_def newDefaultOrigin_last)
  from update_config_exact [OF NewOrchestrator_inv [OF s0 this], where env = sample_start and lib = sample_lib and version = 3
      and config = "Some pushed_config"] s0 s1 r show ?thesis
    by (auto split: sum.splits if_splits)
qed

text \<open>The services started before the one that failed keep running: the channel that would stop them is dropped.\<close>

lemma dropped_channel:
  assumes "channels_ok s" and "c < o_channels s" and "c \<notin> set (o_closed s)" and "proxyShutdownC s \<noteq> Some c"
    and "orch_step lib e s = Ok s'"
  shows "c < o_channels s' \<and> c \<notin> set (o_closed s') \<and> proxyShutdownC s' \<noteq> Some c \<and> set (o_running s) \<subseteq> set (o_running s')"
proof (cases e)
  case (EvUpdate env version config)
  from assms(1) show ?thesis
  proof (cases rule: UpdateConfig_cases [of s version env lib config])
    case (applied raw ing warp w)
    then show ?thesis
      using assms EvUpdate by (auto simp: updated_def swap_proxy_def Let_def split: option.splits)
  qed (use assms EvUpdate in \<open>auto simp: abandoned_def\<close>)
next
  case (EvFlow start)
  then show ?thesis using assms by (auto split: if_splits sum.splits)
next
  case EvShutdown
  then show ?thesis using assms by auto
next
  case EvCloser
  then show ?thesis
    using assms by (auto simp: waitToCloseLastProxy_def close_channel_def split: if_splits option.splits)
qed

lemma dropped_run:
  assumes "orch_inv s" and "c < o_channels s" and "c \<notin> set (o_closed s)" and "proxyShutdownC s \<noteq> Some c"
    and "orch_run lib es s = Ok s'"
  shows "c \<notin> set (o_closed s') \<and> set (o_running s) \<subseteq> set (o_running s')"
  using assms
proof (induction es arbitrary: s)
  case (Cons e es)
  obtain s1 where s1: "orch_step lib e s = Ok s1" "orch_inv s1"
    using orch_step_inv [OF Cons.prems(1)] by blast
  have "channels_ok s" using Cons.prems(1) by (simp add: orch_inv_def)
  from dropped_channel [OF this Cons.prems(2-4) s1(1)] Cons.IH [OF s1(2)] Cons.prems(5) s1(1)
  show ?case by auto
qed simp

text \<open>C27. When starting the origins of an update fails, no later step ever closes the channel that stops the services
  already started for it, not even the shutdown.\<close>

theorem failed_update_leaks_services:
  assumes "orch_inv s" and "UpdateConfig env lib version config s = Ok (resp, s1)" and "ur_Err resp = Some StartOriginFailed"
    and "s1 \<noteq> s" and "orch_run lib es s1 = Ok s2"
  shows "o_channels s \<notin> set (o_closed s2) \<and> set (o_running s1) \<subseteq> set (o_running s2)"
proof -
  have ok: "channels_ok s" using assms(1) by (simp add: orch_inv_def)
  have fresh: "o_channels s \<notin> set (o_closed s)" "proxyShutdownC s \<noteq> Some (o_channels s)"
    using ok by (auto simp: channels_ok_def split: option.splits)
  from ok obtain ing where "s1 = abandoned env ing s"
  proof (cases rule: UpdateConfig_cases [of s version env lib config])
    case (refused e)
    then show thesis using assms(2,4) by auto
  qed (use assms(2,3) that in auto)
  then show ?thesis
    using dropped_run [OF abandoned_inv [OF assms(1)], of "o_channels s" env ing lib es s2] fresh assms(5)
    by (simp add: abandoned_def)
qed

definition half_started :: RemoteConfigJSON where
  "half_started =
     \<lparr>GlobalOriginRequest = None,
      IngressRules = [sample_ur ''a.com'' ''hello_world'',
                      (sample_ur [] ''http://x'')\<lparr>ur_OriginRequest := empty_raw\<lparr>raw_CAPool := Some ''bad''\<rparr>\<rparr>],
      rc_WarpRouting = \<lparr>rw_ConnectTimeout = None, rw_MaxActiveFlows = None, rw_TCPKeepAlive = None\<rparr>\<rparr>"

definition picky_start :: start_env where
  "picky_start = \<lparr>load_ca = (\<lambda>f. f \<noteq> ''bad''), hello_listener = Some ''127.0.0.1:1''\<rparr>"

lemma half_started_fails:
  "(case NewOrchestrator sample_start sample_orch_config [] [] of
      Ok s0 \<Rightarrow>
        (case UpdateConfig picky_start sample_lib 1 (Some half_started) s0 of
           Ok (resp, s1) \<Rightarrow> ur_Err resp = Some StartOriginFailed \<and> o_channels s1 \<noteq> o_channels s0 \<and> length (o_running s1) = 2
         | _ \<Rightarrow> False)
    | _ \<Rightarrow> False)"
  by code_simp

theorem failed_update_leaks_services_witness:
  "\<exists>s0 resp s1 s2. UpdateConfig picky_start sample_lib 1 (Some half_started) (s0 :: unit Orchestrator) = Ok (resp, s1)
     \<and> orch_run sample_lib [EvShutdown, EvCloser] s1 = Ok s2 \<and> length (o_running s1) = 2
     \<and> o_channels s0 \<notin> set (o_closed s2)"
proof -
  obtain s0 resp s1 where s0: "NewOrchestrator sample_start sample_orch_config [] [] = Ok s0"
    and s1: "UpdateConfig picky_start sample_lib 1 (Some half_started) s0 = Ok (resp, s1)"
    and r: "ur_Err resp = Some StartOriginFailed" "o_channels s1 \<noteq> o_channels s0" "length (o_running s1) = 2"
    using half_started_fails by (auto split: outcome.splits prod.splits)
  have "ing_IsEmpty (oc_Ingress sample_orch_config) \<or> last_catches_all (oc_Ingress sample_orch_config)"
    by (simp add: sample_orch_config_def newDefaultOrigin_last)
  then have inv: "orch_inv s0" using NewOrchestrator_inv [OF s0] by blast
  obtain s1' where "orch_step sample_lib (EvUpdate picky_start 1 (Some half_started)) s0 = Ok s1'" "orch_inv s1'"
    using orch_step_inv [OF inv] by blast
  then have "orch_inv s1" using s1 by simp
  then obtain s2 where s2: "orch_run sample_lib [EvShutdown, EvCloser] s1 = Ok s2"
    using orch_run_inv by blast
  have "s1 \<noteq> s0" using r(2) by auto
  from failed_update_leaks_services [OF inv s1 r(1) this s2] s1 s2 r(3) show ?thesis by blast
qed

end
