(* ===== verification/Config_Report.thy ===== *)
theory Config_Report
  imports Orchestrator
begin

text \<open>
  The configuration cloudflared reports to the edge (\<^verbatim>\<open>GetConfigJSON\<close>) against the way it reads one
  (\<^verbatim>\<open>RemoteConfig.UnmarshalJSON\<close>): for which running rules the report reads back as the rules themselves.
  Of the JSON text, the part this program writes and reads itself is here: a duration, which
  \<^verbatim>\<open>config/configuration.go\<close> writes as a number of seconds.  The encoding library keeps all other fields.
\<close>

subsection \<open>Durations as text\<close>

text \<open>
  Seconds are a floating-point number, which the encoding library writes as an integer when it is one; the
  text of another number is the argument \<open>float_text\<close>.  Reading takes integers only, and multiplies in
  64 bits.
\<close>

definition CustomDuration_MarshalJSON :: "(duration \<Rightarrow> string) \<Rightarrow> duration \<Rightarrow> string" where
  "CustomDuration_MarshalJSON float_text d =
     (if d mod second_ns = 0 then int_to_string (d div second_ns) else float_text d)"

definition CustomDuration_UnmarshalJSON :: "string \<Rightarrow> duration option" where
  "CustomDuration_UnmarshalJSON text =
     (case atoi text of None \<Rightarrow> None | Some seconds \<Rightarrow> Some (to_int64 (seconds * second_ns)))"

text \<open>Writing an optional duration and reading it again; one that does not read back fails the whole text.\<close>

definition json_duration :: "(duration \<Rightarrow> string) \<Rightarrow> duration option \<Rightarrow> duration option option" where
  "json_duration ft x =
     (case x of None \<Rightarrow> Some None | Some d \<Rightarrow> map_option Some (CustomDuration_UnmarshalJSON (CustomDuration_MarshalJSON ft d)))"

definition json_origin_request :: "(duration \<Rightarrow> string) \<Rightarrow> raw_origin_request \<Rightarrow> raw_origin_request option" where
  "json_origin_request ft r =
     (case (json_duration ft (raw_ConnectTimeout r), json_duration ft (raw_TLSTimeout r),
            json_duration ft (raw_TCPKeepAlive r), json_duration ft (raw_KeepAliveTimeout r)) of
        (Some a, Some b, Some c, Some d) \<Rightarrow>
          Some (r\<lparr>raw_ConnectTimeout := a, raw_TLSTimeout := b, raw_TCPKeepAlive := c, raw_KeepAliveTimeout := d\<rparr>)
      | _ \<Rightarrow> None)"

definition json_rule :: "(duration \<Rightarrow> string) \<Rightarrow> UnvalidatedIngressRule \<Rightarrow> UnvalidatedIngressRule option" where
  "json_rule ft r = map_option (\<lambda>q. r\<lparr>ur_OriginRequest := q\<rparr>) (json_origin_request ft (ur_OriginRequest r))"

definition json_warp_routing :: "(duration \<Rightarrow> string) \<Rightarrow> raw_warp_routing \<Rightarrow> raw_warp_routing option" where
  "json_warp_routing ft w =
     (case (json_duration ft (rw_ConnectTimeout w), json_duration ft (rw_TCPKeepAlive w)) of
        (Some a, Some b) \<Rightarrow> Some (w\<lparr>rw_ConnectTimeout := a, rw_TCPKeepAlive := b\<rparr>)
      | _ \<Rightarrow> None)"

text \<open>What reading finds in the text that was written for a configuration.\<close>

definition json_config :: "(duration \<Rightarrow> string) \<Rightarrow> RemoteConfigJSON \<Rightarrow> RemoteConfigJSON option" where
  "json_config ft c =
     (case (case GlobalOriginRequest c of None \<Rightarrow> Some None | Some g \<Rightarrow> map_option Some (json_origin_request ft g),
            all_some (map (json_rule ft) (IngressRules c)), json_warp_routing ft (rc_WarpRouting c)) of
        (Some g, Some rules, Some w) \<Rightarrow> Some \<lparr>GlobalOriginRequest = g, IngressRules = rules, rc_WarpRouting = w\<rparr>
      | _ \<Rightarrow> None)"

subsection \<open>Settings\<close>

lemma or_else_None: "or_else x None = x"
  by (cases x) (simp_all add: or_else_def)

lemma merge_empty: "merge_raw empty_raw o' = o'"
proof -
  have "(if xs = [] then [] else xs) = xs" for xs :: "IngressIPRule list" by simp
  then show ?thesis by (cases o') (simp add: merge_raw_def empty_raw_def or_else_None)
qed

lemma convert_rules_parse:
  "list_all ipv4_rule rs \<Longrightarrow> \<forall>r \<in> set (convertToRawIPRules rs). fst (NewRuleByCIDR (ir_Prefix r) (ir_Ports r) (ir_Allow r)) = None"
  by (auto simp: convertToRawIPRules_def list_all_iff NewRuleByCIDR_String)

lemma raw_IPRules_convert: "raw_IPRules (ConvertToRawOriginConfig c) = convertToRawIPRules (or_IPRules c)"
  by (simp add: ConvertToRawOriginConfig_def)

lemma reported_settings:
  assumes "list_all ipv4_rule (or_IPRules c)" and "ac_Required (or_Access c) \<or> or_Access c = zero_access"
  shows "setConfig (originRequestFromConfig empty_raw) (ConvertToRawOriginConfig c) = c"
proof -
  have "setConfig (originRequestFromConfig empty_raw) (ConvertToRawOriginConfig c)
      = originRequestFromConfig (merge_raw empty_raw (ConvertToRawOriginConfig c))"
    by (rule setConfig_merge) (unfold raw_IPRules_convert, rule convert_rules_parse [OF assms(1)])
  also have "\<dots> = c"
    unfolding merge_empty by (rule originRequest_convert) (use assms in auto)
  finally show ?thesis .
qed

lemma access_rules_convert: "list_all ipv4_rule rs \<Longrightarrow> access_rules (convertToRawIPRules rs) = Inr rs"
  by (induction rs) (simp_all add: convertToRawIPRules_def NewRuleByCIDR_String)

lemma validate_all_ok: "list_all ipv4_rule rs \<Longrightarrow> validate_all rs = Inr rs"
  by (induction rs) (simp_all add: ipv4_rule_def Validate_ok)

lemma socks_convert:
  "list_all ipv4_rule rs \<Longrightarrow> socks_service (convertToRawIPRules rs) = Inr (SocksProxyOverWS \<lparr>defaultAllow = False, policy_rules = rs\<rparr>)"
  by (simp add: socks_service_def access_rules_convert NewPolicy_def validate_all_ok)

subsection \<open>Services\<close>

definition not_keyword :: "string \<Rightarrow> bool" where
  "not_keyword s =
     (\<not> has_prefix s ''unix:'' \<and> \<not> has_prefix s ''unix+tls:'' \<and> \<not> has_prefix s ''http_status:''
      \<and> s \<noteq> HelloWorldFlag \<and> s \<noteq> HelloWorldService \<and> s \<noteq> ServiceSocksProxy \<and> s \<noteq> ServiceBastion)"

text \<open>What the URL library has to give for the text of a service.\<close>

definition url_reads_back :: "ingress_lib \<Rightarrow> OriginService \<Rightarrow> bool" where
  "url_reads_back lib svc =
     (case svc of
        HttpService u \<Rightarrow> lib_url lib (u_String u) = Some u \<and> not_keyword (u_String u)
      | TCPOverWS scheme dest isBastion \<Rightarrow>
          isBastion
          \<or> (case lib_url lib (scheme @ ''://'' @ dest) of
               None \<Rightarrow> False
             | Some u \<Rightarrow> u_Scheme u = scheme \<and> u_Host u = dest \<and> u_Path u = [] \<and> url_Hostname u \<noteq> []
                 \<and> (url_Port u \<noteq> [] \<or> scheme \<notin> {''ssh'', ''rdp'', ''smb'', ''tcp''})
                 \<and> not_keyword (scheme @ ''://'' @ dest))
      | _ \<Rightarrow> True)"

definition reports_faithfully :: "ingress_lib \<Rightarrow> ingress_rule \<Rightarrow> bool" where
  "reports_faithfully lib rule =
     (let cfg = r_Config rule
      in list_all ipv4_rule (or_IPRules cfg)
         \<and> (ac_Required (or_Access cfg) \<or> or_Access cfg = zero_access)
         \<and> validateAccessConfiguration (or_Access cfg) = None
         \<and> r_Handlers rule = (if ac_Required (or_Access cfg) then [or_Access cfg] else [])
         \<and> url_reads_back lib (r_Service rule)
         \<and> (case r_Service rule of SocksProxyOverWS p \<Rightarrow> policy_rules p = or_IPRules cfg | _ \<Rightarrow> True))"

lemma atoi_nat: "n < 2 ^ 63 \<Longrightarrow> atoi (nat_to_string n) = Some (int n)"
proof -
  assume n: "n < 2 ^ 63"
  obtain c cs where s: "nat_to_string n = c # cs" using nat_to_string_not_Nil by (cases "nat_to_string n") auto
  have "is_digit c" using nat_to_string_digits [of n] by (simp add: s)
  then have "c \<noteq> CHR ''-''" "c \<noteq> CHR ''+''" using not_is_digit_sign by auto
  then have "\<not> has_prefix (nat_to_string n) ''-''" "\<not> has_prefix (nat_to_string n) ''+''"
    by (simp_all add: s has_prefix_def)
  then show ?thesis
    using n nat_to_string_digits [of n] nat_to_string_not_Nil [of n]
    by (simp add: atoi_def Let_def digits_val_nat_to_string)
qed

lemma status_reads_back: "\<lbrakk>100 \<le> code; code \<le> 999\<rbrakk> \<Longrightarrow> status_service (int_to_string code) = Inr (StatusCode code False)"
proof -
  assume "100 \<le> code" "code \<le> 999"
  then have "int_to_string code = nat_to_string (nat code)" "nat code < 2 ^ 63" "\<not> code < 100" "\<not> 999 < code"
    by (simp_all add: int_to_string_def)
  then show ?thesis using \<open>100 \<le> code\<close> by (simp add: status_service_def atoi_nat)
qed

lemma scheme_prefix_simps:
  "\<not> has_prefix (''unix+tls:'' @ p) ''unix:''" "\<not> has_prefix (''http_status:'' @ p) ''unix:''"
  "\<not> has_prefix (''http_status:'' @ p) ''unix+tls:''"
  by (simp_all add: has_prefix_def)

lemma url_service_form:
  assumes "url_service lib s = Inr svc"
  shows "(\<exists>u. svc = HttpService u \<and> u_Scheme u \<noteq> [] \<and> url_Hostname u \<noteq> [] \<and> u_Path u = [] \<and> isHTTPService u)
     \<or> (\<exists>u. svc = newTCPOverWSService u \<and> u_Scheme u \<noteq> [] \<and> \<not> isHTTPService u)"
  using assms by (auto simp: url_service_def split: option.splits if_splits)

lemma newTCP_form: "\<exists>dest. newTCPOverWSService u = TCPOverWS (u_Scheme u) dest False"
  by (simp add: newTCPOverWSService_def addPortIfMissing_def Let_def)

lemma newTCP_with_port:
  "url_Port u \<noteq> [] \<or> u_Scheme u \<notin> {''ssh'', ''rdp'', ''smb'', ''tcp''}
   \<Longrightarrow> newTCPOverWSService u = TCPOverWS (u_Scheme u) (u_Host u) False"
  by (auto simp: newTCPOverWSService_def addPortIfMissing_def Let_def)

text \<open>A URL service read back from its own text.\<close>

lemma url_service_reads_back:
  assumes "url_service lib s = Inr svc" and "url_reads_back lib svc"
  shows "url_service lib (service_String svc) = Inr svc \<and> not_keyword (service_String svc)"
proof -
  from url_service_form [OF assms(1)] show ?thesis
  proof
    assume "\<exists>u. svc = HttpService u \<and> u_Scheme u \<noteq> [] \<and> url_Hostname u \<noteq> [] \<and> u_Path u = [] \<and> isHTTPService u"
    then show ?thesis using assms(2) by (auto simp: url_reads_back_def url_service_def)
  next
    assume "\<exists>u. svc = newTCPOverWSService u \<and> u_Scheme u \<noteq> [] \<and> \<not> isHTTPService u"
    then obtain u where u: "svc = newTCPOverWSService u" "u_Scheme u \<noteq> []" "\<not> isHTTPService u" by blast
    obtain dest where d: "svc = TCPOverWS (u_Scheme u) dest False" using newTCP_form u(1) by auto
    have str: "service_String svc = u_Scheme u @ ''://'' @ dest" using u(2) by (simp add: d ServiceBastion_def)
    obtain v where v: "lib_url lib (u_Scheme u @ ''://'' @ dest) = Some v" "u_Scheme v = u_Scheme u" "u_Host v = dest"
      "u_Path v = []" "url_Hostname v \<noteq> []" "url_Port v \<noteq> [] \<or> u_Scheme v \<notin> {''ssh'', ''rdp'', ''smb'', ''tcp''}"
      "not_keyword (u_Scheme u @ ''://'' @ dest)"
      using assms(2) by (auto simp: d url_reads_back_def split: option.splits)
    have "\<not> isHTTPService v" using u(3) v(2) by (simp add: isHTTPService_def)
    then have "url_service lib (u_Scheme u @ ''://'' @ dest) = Inr svc"
      using u(2) v(1,2,4,5) newTCP_with_port [OF v(6)] by (simp add: url_service_def d v(3))
    then show ?thesis using v(7) by (simp add: str)
  qed
qed

text \<open>A validated service read back from its own text, with its settings.\<close>

lemma service_reads_back:
  assumes "rule_service lib r c = Inr (svc, cfg)" and "url_reads_back lib svc" and "list_all ipv4_rule (or_IPRules cfg)"
    and "case svc of SocksProxyOverWS p \<Rightarrow> policy_rules p = or_IPRules cfg | _ \<Rightarrow> True"
    and "ur_Service q = service_String svc" and "raw_IPRules (ur_OriginRequest q) = convertToRawIPRules (or_IPRules cfg)"
  shows "rule_service lib q cfg = Inr (svc, cfg)"
proof -
  consider
      (unix) path sch where "svc = UnixSocketPath path sch" "sch = ''http'' \<or> sch = ''https''"
    | (status) code where "svc = StatusCode code False" "100 \<le> code" "code \<le> 999"
    | (hello) "svc = HelloWorld"
    | (socks) p where "svc = SocksProxyOverWS p" "\<not> defaultAllow p"
    | (bastion) "svc = newBastionService" "or_BastionMode cfg"
    | (url) s where "url_service lib s = Inr svc" "\<not> or_BastionMode cfg"
    using assms(1)
    by (auto simp: rule_service_def Let_def status_service_def socks_service_def NewPolicy_def
        split: if_splits sum.splits option.splits)
  then show ?thesis
  proof cases
    case unix
    then show ?thesis
      using assms(5) by (auto simp: rule_service_def has_prefix_def trim_prefix_def Let_def)
  next
    case status
    then show ?thesis
      using assms(5) scheme_prefix_simps status_reads_back
      by (simp add: rule_service_def trim_prefix_append [of "''http_status:''", simplified] Let_def has_prefix_def trim_prefix_def)
  next
    case hello
    then show ?thesis using assms(5) by (simp add: rule_service_def HelloWorldService_def has_prefix_def Let_def)
  next
    case socks
    have "p = \<lparr>defaultAllow = False, policy_rules = or_IPRules cfg\<rparr>"
      using socks assms(4) by simp
    then show ?thesis
      using assms(5,6) socks(1) socks_convert [OF assms(3)]
      by (simp add: rule_service_def ServiceSocksProxy_def HelloWorldService_def HelloWorldFlag_def has_prefix_def Let_def)
  next
    case bastion
    then show ?thesis
      using assms(5)
      by (simp add: rule_service_def newBastionService_def ServiceBastion_def ServiceSocksProxy_def HelloWorldService_def
          HelloWorldFlag_def has_prefix_def Let_def)
  next
    case url
    then show ?thesis
      using url_service_reads_back [OF url(1) assms(2)] assms(5) by (simp add: rule_service_def not_keyword_def Let_def)
  qed
qed

subsection \<open>Rules\<close>

lemma validate_rule_fields:
  assumes "validate_rule lib d i n r = Inr rule"
  shows "punycodeHostname rule = rule_punycode lib r" and "ur_Path r = [] \<or> lib_compile lib (ur_Path r)"
  using assms by (auto simp: validate_rule_def split: sum.splits prod.splits option.splits if_splits)

lemma rule_reads_back:
  assumes "validate_rule lib d i n r = Inr rule" and "reports_faithfully lib rule"
  shows "validate_rule lib (originRequestFromConfig empty_raw) i n (convert_rule rule) = Inr rule"
proof -
  let ?q = "convert_rule rule" and ?cfg = "r_Config rule"
  note f = validate_rule_Inr [OF assms(1)] validate_rule_fields [OF assms(1)]
  have q: "ur_Hostname ?q = ur_Hostname r" "ur_Path ?q = ur_Path r" "ur_Service ?q = service_String (r_Service rule)"
    "ur_OriginRequest ?q = ConvertToRawOriginConfig ?cfg"
    using f by (simp_all add: convert_rule_def)
  have faithful: "list_all ipv4_rule (or_IPRules ?cfg)" "ac_Required (or_Access ?cfg) \<or> or_Access ?cfg = zero_access"
    "validateAccessConfiguration (or_Access ?cfg) = None"
    "r_Handlers rule = (if ac_Required (or_Access ?cfg) then [or_Access ?cfg] else [])"
    "url_reads_back lib (r_Service rule)"
    "case r_Service rule of SocksProxyOverWS p \<Rightarrow> policy_rules p = or_IPRules ?cfg | _ \<Rightarrow> True"
    using assms(2) by (simp_all add: reports_faithfully_def Let_def)
  have cfg: "setConfig (originRequestFromConfig empty_raw) (ur_OriginRequest ?q) = ?cfg"
    unfolding q(4) by (rule reported_settings [OF faithful(1,2)])
  have raw: "raw_IPRules (ur_OriginRequest ?q) = convertToRawIPRules (or_IPRules ?cfg)"
    by (simp only: q(4) raw_IPRules_convert)
  obtain c0 where "rule_service lib r c0 = Inr (r_Service rule, ?cfg)"
    using assms(1) by (rule validate_rule_parts) blast
  from service_reads_back [OF this faithful(5,1,6) q(3) raw]
  have svc: "rule_service lib ?q ?cfg = Inr (r_Service rule, ?cfg)" .
  have h: "rule_handlers ?q = Inr (r_Handlers rule)"
    using faithful(3,4) by (simp add: rule_handlers_def q(4) ConvertToRawOriginConfig_def)
  have v: "validateHostname ?q i n = None"
    using f(1) q(1,2) by (simp add: validateHostname_None isCatchAllRule_def)
  have pun: "rule_punycode lib ?q = punycodeHostname rule"
    unfolding f(4) rule_punycode_def isCatchAllRule_def q(1,2) ..
  have path: "(if ur_Path ?q \<noteq> [] then Some (ur_Path ?q) else None) = r_Path rule"
    using f(3) q(2) by simp
  show ?thesis
    unfolding validate_rule_def cfg svc
    using f(2,5) q(1,2) path by (simp add: h v pun)
qed

lemma validate_rules_reads_back:
  "\<lbrakk>validate_rules lib d i n rs = Inr rules; list_all (reports_faithfully lib) rules\<rbrakk>
   \<Longrightarrow> validate_rules lib (originRequestFromConfig empty_raw) i n (map convert_rule rules) = Inr rules"
proof (induction rs arbitrary: i rules)
  case (Cons r rs)
  then obtain rule rest where s: "validate_rule lib d i n r = Inr rule" "validate_rules lib d (i + 1) n rs = Inr rest"
    "rules = rule # rest"
    by (auto split: sum.splits)
  then show ?case
    using Cons.IH [OF s(2)] Cons.prems(2) rule_reads_back [OF s(1)] by simp
qed simp

subsection \<open>Durations\<close>

lemma atoi_int: "\<lbrakk>- (2 ^ 63) \<le> n; n < 2 ^ 63\<rbrakk> \<Longrightarrow> atoi (int_to_string n) = Some n"
  using atoi_nat [of "nat n"] nat_to_string_digits [of "nat (- n)"] nat_to_string_not_Nil [of "nat (- n)"]
  by (auto simp: int_to_string_def atoi_def [of "CHR ''-'' # s" for s] has_prefix_def digits_val_nat_to_string Let_def)

text \<open>A whole number of seconds, in the 64 bits of a duration.\<close>

definition whole_seconds :: "duration \<Rightarrow> bool" where
  "whole_seconds d = (d mod second_ns = 0 \<and> - (2 ^ 63) \<le> d \<and> d < 2 ^ 63)"

lemma whole_reads_back: "whole_seconds d \<Longrightarrow> CustomDuration_UnmarshalJSON (CustomDuration_MarshalJSON ft d) = Some d"
proof -
  assume w: "whole_seconds d"
  then have m: "d div second_ns * second_ns = d" by (auto simp: whole_seconds_def second_ns_def)
  have "- (2 ^ 63) \<le> d div second_ns" "d div second_ns < 2 ^ 63"
    using w by (auto simp: whole_seconds_def second_ns_def)
  then have "atoi (int_to_string (d div second_ns)) = Some (d div second_ns)" by (rule atoi_int)
  then show ?thesis
    using w m to_int64_id [of d]
    by (simp add: CustomDuration_MarshalJSON_def CustomDuration_UnmarshalJSON_def whole_seconds_def)
qed

definition rule_durations :: "ingress_rule \<Rightarrow> duration list" where
  "rule_durations r =
     [or_ConnectTimeout (r_Config r), or_TLSTimeout (r_Config r), or_TCPKeepAlive (r_Config r), or_KeepAliveTimeout (r_Config r)]"

definition warp_durations :: "WarpRoutingConfig \<Rightarrow> duration list" where
  "warp_durations w = [wr_ConnectTimeout w, wr_TCPKeepAlive w]"

text \<open>A fraction of a second in the settings that the library does not write as an integer.\<close>

definition fractional :: "(duration \<Rightarrow> string) \<Rightarrow> duration \<Rightarrow> bool" where
  "fractional ft d = (d mod second_ns \<noteq> 0 \<and> atoi (ft d) = None)"

lemma json_unless_default:
  assumes "whole_seconds d0"
  shows "whole_seconds d \<Longrightarrow> json_duration ft (unless_default d0 d) = Some (unless_default d0 d)"
    and "fractional ft d \<Longrightarrow> json_duration ft (unless_default d0 d) = None"
proof -
  show "whole_seconds d \<Longrightarrow> json_duration ft (unless_default d0 d) = Some (unless_default d0 d)"
    by (simp add: json_duration_def unless_default_def whole_reads_back)
  show "fractional ft d \<Longrightarrow> json_duration ft (unless_default d0 d) = None"
    using assms
    by (auto simp: json_duration_def unless_default_def fractional_def whole_seconds_def CustomDuration_MarshalJSON_def
        CustomDuration_UnmarshalJSON_def)
qed

lemma whole_defaults:
  "whole_seconds defaultHTTPConnectTimeout" "whole_seconds defaultTLSTimeout" "whole_seconds defaultTCPKeepAlive"
  "whole_seconds defaultKeepAliveTimeout" "whole_seconds defaultWarpRoutingConnectTimeout"
  by (simp_all add: whole_seconds_def defaultHTTPConnectTimeout_def defaultTLSTimeout_def defaultTCPKeepAlive_def
      defaultKeepAliveTimeout_def defaultWarpRoutingConnectTimeout_def second_ns_def)

lemmas json_settings = json_unless_default(1) [OF whole_defaults(1)] json_unless_default(1) [OF whole_defaults(2)]
  json_unless_default(1) [OF whole_defaults(3)] json_unless_default(1) [OF whole_defaults(4)] json_unless_default(1) [OF whole_defaults(5)]

lemmas json_fractions = json_unless_default(2) [OF whole_defaults(1)] json_unless_default(2) [OF whole_defaults(2)]
  json_unless_default(2) [OF whole_defaults(3)] json_unless_default(2) [OF whole_defaults(4)] json_unless_default(2) [OF whole_defaults(5)]

lemma json_convert_rule:
  shows "list_all whole_seconds (rule_durations r) \<Longrightarrow> json_rule ft (convert_rule r) = Some (convert_rule r)"
    and "list_ex (fractional ft) (rule_durations r) \<Longrightarrow> json_rule ft (convert_rule r) = None"
  by (auto simp: json_rule_def convert_rule_def json_origin_request_def ConvertToRawOriginConfig_def rule_durations_def
      json_settings json_fractions split: option.splits)

lemma json_warp:
  shows "list_all whole_seconds (warp_durations w) \<Longrightarrow> json_warp_routing ft (warp_RawConfig w) = Some (warp_RawConfig w)"
    and "list_ex (fractional ft) (warp_durations w) \<Longrightarrow> json_warp_routing ft (warp_RawConfig w) = None"
  by (auto simp: json_warp_routing_def warp_RawConfig_def warp_durations_def json_settings json_fractions split: option.splits)

lemma all_some_fixed: "(\<And>x. x \<in> set xs \<Longrightarrow> f x = Some (g x)) \<Longrightarrow> all_some (map f xs) = Some (map g xs)"
  by (induction xs) simp_all

lemma all_some_missing: "\<lbrakk>x \<in> set xs; f x = None\<rbrakk> \<Longrightarrow> all_some (map f xs) = None"
proof (induction xs)
  case (Cons y ys)
  then show ?case by (cases "f y") auto
qed simp

text \<open>The text of a report reads back as it was written, or not at all when a setting has a fraction of a second.\<close>

lemma report_text:
  assumes "c = snd (GetConfigJSON s)"
  shows "\<lbrakk>\<forall>r \<in> set (ing_Rules (o_Ingress s)). list_all whole_seconds (rule_durations r);
          list_all whole_seconds (warp_durations (o_WarpRouting s))\<rbrakk> \<Longrightarrow> json_config ft c = Some c"
    and "(\<exists>r \<in> set (ing_Rules (o_Ingress s)). list_ex (fractional ft) (rule_durations r))
          \<or> list_ex (fractional ft) (warp_durations (o_WarpRouting s)) \<Longrightarrow> json_config ft c = None"
proof -
  let ?rules = "ing_Rules (o_Ingress s)"
  have c: "GlobalOriginRequest c = None" "IngressRules c = map convert_rule ?rules" "rc_WarpRouting c = warp_RawConfig (o_WarpRouting s)"
    by (simp_all add: assms GetConfigJSON_def convertToUnvalidatedIngressRules_def)
  show "json_config ft c = Some c"
    if "\<forall>r \<in> set ?rules. list_all whole_seconds (rule_durations r)" "list_all whole_seconds (warp_durations (o_WarpRouting s))"
  proof -
    have "all_some (map (json_rule ft \<circ> convert_rule) ?rules) = Some (map convert_rule ?rules)"
      using that(1) by (intro all_some_fixed) (simp add: json_convert_rule(1))
    then show ?thesis using c json_warp(1) [OF that(2), of ft] by (cases c) (simp add: json_config_def)
  qed
  show "json_config ft c = None"
    if "(\<exists>r \<in> set ?rules. list_ex (fractional ft) (rule_durations r)) \<or> list_ex (fractional ft) (warp_durations (o_WarpRouting s))"
    using that
  proof
    assume "\<exists>r \<in> set ?rules. list_ex (fractional ft) (rule_durations r)"
    then obtain r where "r \<in> set ?rules" "(json_rule ft \<circ> convert_rule) r = None" using json_convert_rule(2) by fastforce
    from all_some_missing [of r ?rules "json_rule ft \<circ> convert_rule", OF this] show ?thesis by (simp add: json_config_def c)
  next
    assume "list_ex (fractional ft) (warp_durations (o_WarpRouting s))"
    from json_warp(2) [OF this] show ?thesis by (simp add: json_config_def c split: option.split)
  qed
qed


definition reported_rules :: "UnvalidatedIngressRule list" where
  "reported_rules = [sample_ur ''*.a.com'' ''http://x'', sample_ur [] ''http_status:404'']"

lemma reported_sample:
  "(case validateIngress sample_lib reported_rules (originRequestFromConfig empty_raw) of
      Inr ing \<Rightarrow> list_all (\<lambda>r. or_IPRules (r_Config r) = [] \<and> or_Access (r_Config r) = zero_access \<and> r_Handlers r = []
                            \<and> url_reads_back sample_lib (r_Service r) \<and> (case r_Service r of SocksProxyOverWS p \<Rightarrow> False | _ \<Rightarrow> True)
                            \<and> list_all whole_seconds (rule_durations r)) (ing_Rules ing)
    | Inl e \<Rightarrow> False)"
  by code_simp

definition reporting :: "Ingress \<Rightarrow> duration \<Rightarrow> unit Orchestrator \<Rightarrow> unit Orchestrator" where
  "reporting ing timeout s =
     s\<lparr>o_Ingress := ing, o_WarpRouting := \<lparr>wr_ConnectTimeout = timeout, wr_MaxActiveFlows = 0, wr_TCPKeepAlive = 30 * second_ns\<rparr>\<rparr>"


text \<open>A socks-proxy rule without IP rules of its own gets an empty policy, although the general IP rules are part of
  its settings and of its report.\<close>

theorem general_ip_rules_ignored_by_socks:
  assumes "validate_rule lib d i n r = Inr rule" and "ur_Service r = ServiceSocksProxy" and "raw_IPRules (ur_OriginRequest r) = []"
  shows "r_Service rule = SocksProxyOverWS \<lparr>defaultAllow = False, policy_rules = []\<rparr> \<and> or_IPRules (r_Config rule) = or_IPRules d"
proof -
  have c: "or_IPRules (setConfig d (ur_OriginRequest r)) = or_IPRules d"
    using assms(3) by (simp add: setConfig_fields)
  have "rule_service lib r cfg = Inr (SocksProxyOverWS \<lparr>defaultAllow = False, policy_rules = []\<rparr>, cfg)" for cfg
    using assms(2,3)
    by (simp add: rule_service_def ServiceSocksProxy_def HelloWorldFlag_def HelloWorldService_def has_prefix_def
        socks_service_def NewPolicy_def Let_def)
  from assms(1) show ?thesis
    by (rule validate_rule_parts) (use \<open>\<And>cfg. rule_service lib r cfg = _\<close> c in auto)
qed

theorem general_ip_rules_ignored_by_socks_witness:
  "\<exists>rule. validate_rule sample_lib (zero_request\<lparr>or_IPRules := [zero_rule]\<rparr>) 0 1 (sample_ur [] ServiceSocksProxy) = Inr rule
     \<and> or_IPRules (r_Config rule) = [zero_rule] \<and> r_Service rule = SocksProxyOverWS \<lparr>defaultAllow = False, policy_rules = []\<rparr>"
proof -
  let ?d = "zero_request\<lparr>or_IPRules := [zero_rule]\<rparr>" and ?r = "sample_ur [] ServiceSocksProxy"
  have "\<not> isl (validate_rule sample_lib ?d 0 1 ?r)" by code_simp
  then obtain rule where r: "validate_rule sample_lib ?d 0 1 ?r = Inr rule"
    by (cases "validate_rule sample_lib ?d 0 1 ?r") auto
  have "ur_Service ?r = ServiceSocksProxy" "raw_IPRules (ur_OriginRequest ?r) = []"
    by (simp_all add: sample_ur_def empty_raw_def)
  from general_ip_rules_ignored_by_socks [OF r this] have "r_Service rule = SocksProxyOverWS \<lparr>defaultAllow = False, policy_rules = []\<rparr>"
    "or_IPRules (r_Config rule) = [zero_rule]" by simp_all
  with r show ?thesis by blast
qed

end
