(* ===== verification/Spec2Isabelle.thy ===== *)
theory Spec2Isabelle
  imports Tunnel_API Muxer_V3 Packet_Funnel Supervisor QUIC_Conn Config_Report
begin

text \<open>
  A model of the tunnel client (a fork of cloudflared that runs tunnels behind an HTTP
  interface), translated from the Go sources under \<^verbatim>\<open>src/\<close>.

  \<^bold>\<open>The program.\<close>  The service of \<^verbatim>\<open>cmd/cloudflared/main.go\<close> starts one worker process per
  tunnel it is asked for.  A worker runs a supervisor (\<^verbatim>\<open>supervisor/\<close>) that keeps up to
  four connections to the edge alive: it takes an address from the pool of
  \<^verbatim>\<open>edgediscovery/allregions/\<close>, a protocol from the selector of \<^verbatim>\<open>connection/protocol.go\<close>,
  serves the connection over QUIC or HTTP/2 (\<^verbatim>\<open>connection/\<close>), registers it through the
  control stream and retries with the backoff of \<^verbatim>\<open>retry/\<close>.  A request that arrives on a
  connection goes to the orchestrator's current proxy (\<^verbatim>\<open>orchestration/\<close>, \<^verbatim>\<open>proxy/\<close>), which
  matches it against the ingress rules (\<^verbatim>\<open>ingress/\<close>, \<^verbatim>\<open>ipaccess/\<close>, \<^verbatim>\<open>config/\<close>), applies the
  middleware, rewrites it and sends it to its origin; TCP streams take a slot of the flow
  limiter (\<^verbatim>\<open>flow/\<close>).  UDP sessions and ICMP packets travel in QUIC datagrams
  (\<^verbatim>\<open>quic/v3/\<close>, \<^verbatim>\<open>packet/\<close>).

  \<^bold>\<open>Conventions.\<close>  A Go call is a value of the type \<^verbatim>\<open>outcome\<close> of \<^verbatim>\<open>Cfd_Prelude\<close>: it returns,
  returns an error, or panics; every run-time panic the source can reach (an index out of
  range, a nil dereference, a send on a closed channel) is a branch.  Fixed-width integers
  are \<^verbatim>\<open>word\<close>s, structs are records, interface values are datatypes with one constructor
  per implementation.  Goroutines are step relations: one step is one action between two
  points at which another goroutine can run.  The clock, the random source, the order of a
  map iteration, the results of the network, of the origin and of a parsing library are
  arguments of the definitions; where a theorem relies on such an argument, the reliance is
  a named hypothesis of its statement and the witness instantiates it.

  \<^bold>\<open>Theories.\<close>
  \<^item> \<^verbatim>\<open>Cfd_Prelude\<close>: machine types, outcomes of calls, byte order, slices, strings.
  \<^item> \<^verbatim>\<open>Net_Addr\<close>: the part of \<^verbatim>\<open>net\<close> and \<^verbatim>\<open>net/netip\<close> that is used: addresses, prefixes and
    their text.  An IPv6 text has at most eight groups, which is the fuel of its reader.
  \<^item> \<^verbatim>\<open>Tunnel_API\<close>: \<^verbatim>\<open>main.go\<close> and \<^verbatim>\<open>worker.go\<close>: the handlers as threads over the shared
    map, one step per critical section (a start request is checked, gets its URL channel, is
    inserted, started and awaited), the process watcher and the worker's callback; the
    invariant, the missing atomicity of the tunnel limit, what a stop and an exit leave behind,
    and that the protocol \<^verbatim>\<open>auto\<close> is passed on for a proxied tunnel.
  \<^item> \<^verbatim>\<open>Flow_Limiter\<close>: \<^verbatim>\<open>flow/limiter.go\<close>, its refinement of a counter with a bound, and the
    locale of acquire/release that the session manager and the proxy rely on.
  \<^item> \<^verbatim>\<open>Backoff\<close>: \<^verbatim>\<open>retry/backoffhandler.go\<close> with 64-bit durations.
  \<^item> \<^verbatim>\<open>Datagram_V3\<close>: the wire format of \<^verbatim>\<open>quic/v3/datagram.go\<close> and the request identifiers.
  \<^item> \<^verbatim>\<open>Session_V3\<close>, \<^verbatim>\<open>Session_Manager_V3\<close>, \<^verbatim>\<open>Muxer_V3\<close>: a UDP session with its goroutines, the
    table of sessions, and the connection's datagram loop over them; the goroutine of a new
    registration registers, answers, calls Serve and cleans up in steps of their own.
  \<^item> \<^verbatim>\<open>Packet\<close>, \<^verbatim>\<open>Packet_Funnel\<close>: ICMP packets and the tracker of their flows.
  \<^item> \<^verbatim>\<open>Edge_Addrs\<close>: regions and their addresses, who holds which; none is ever lost or added.
  \<^item> \<^verbatim>\<open>Protocol_Select\<close>: the selectors of \<^verbatim>\<open>connection/protocol.go\<close> and the percentages.
  \<^item> \<^verbatim>\<open>Conn_Tracker\<close>, \<^verbatim>\<open>Control_Stream\<close>: events, the tracker they feed, one registration.
  \<^item> \<^verbatim>\<open>Edge_Server\<close>, \<^verbatim>\<open>Supervisor\<close>: one connection attempt of \<^verbatim>\<open>supervisor/tunnel.go\<close> with
    its address and protocol changes, and the loop over all connections.  An attempt is one
    function from the state it finds to the state it leaves: what other connections do to the
    addresses, the selector and the tracker while it lasts is not seen, so its two properties
    are about one attempt taken by itself.
  \<^item> \<^verbatim>\<open>IP_Access\<close>, \<^verbatim>\<open>Ingress_Config\<close>, \<^verbatim>\<open>Ingress\<close>: access policies, the settings of a rule in
    their three forms, validation and matching of rules.
  \<^item> \<^verbatim>\<open>HTTP_Base\<close>: \<^verbatim>\<open>http.Header\<close> and the header packing of \<^verbatim>\<open>connection/header.go\<close>.
  \<^item> \<^verbatim>\<open>Origin_Proxy\<close>, \<^verbatim>\<open>Proxy\<close>: the origin services, the dialers, the Access middleware,
    \<^verbatim>\<open>ProxyHTTP\<close> and \<^verbatim>\<open>ProxyTCP\<close>; the locale of the response writer a proxy relies on; where
    a request goes from its text in the configuration to the wire, and over TLS or not.
  \<^item> \<^verbatim>\<open>HTTP2_Conn\<close>, \<^verbatim>\<open>RPC_Stream\<close>, \<^verbatim>\<open>QUIC_Conn\<close>: the two transports; both response writers
    interpret that locale, and the same response reaches the edge over either, with the same
    header pairs in an order that Go leaves open on both.  Below the HTTP/2 writer is a log of
    what \<^verbatim>\<open>net/http2\<close> sends: statuses 100 to 199 are informational heads before the final one,
    and a status outside 100 to 999 panics.
  \<^item> \<^verbatim>\<open>Orchestrator\<close>, \<^verbatim>\<open>Config_Report\<close>: updates of the running configuration, with the
    outcome of each, and the form in which it is reported to the edge; of its JSON text only the
    durations are modelled, which are written with fractions of a second but read without.

  \<^bold>\<open>Not modelled.\<close>  Command lines and system services, updates, diagnostics, metrics,
  logging, TLS and key material, the account interface and its tokens, generated RPC code.
  These parts call the operating system, a remote service or a library throughout and keep
  little state of their own.
\<close>

end
